(* ===== verification/Prelude.thy ===== *)
theory Prelude
  imports Main "HOL-Library.Word"
begin

text \<open>
  The vocabulary every component shares: the C++ integer types at their width, the exceptions a
  call may leave with, the result type of a call that may throw, the characters the console
  replaces in a status line, \<open>std::to_string\<close>, and the word lemmas that move a
  goal from machine words to integers when nothing wraps.
\<close>

unbundle bit_operations_syntax

section \<open>Machine integers\<close>

text \<open>
  A signed C++ integer is the word of its width read with \<^const>\<open>sint\<close>; an unsigned
  one is read with \<^const>\<open>uint\<close> or \<^const>\<open>unat\<close>. A conversion from
  a signed type sign-extends (\<^const>\<open>scast\<close>), one from an unsigned type
  zero-extends (\<^const>\<open>ucast\<close>), and a conversion to a narrower type keeps the low
  bits (either cast).
\<close>

type_synonym u8 = "8 word"
type_synonym u16 = "16 word"
type_synonym u32 = "32 word"
type_synonym u64 = "64 word"
type_synonym i16 = "16 word"
type_synonym i32 = "32 word"
type_synonym i64 = "64 word"

named_theorems word_reading "equations that read a word as an integer when the operation does not wrap"

lemma signed_take_bit_31 [simp]:
  "- 2147483648 \<le> k \<Longrightarrow> k < 2147483648 \<Longrightarrow> signed_take_bit 31 k = (k :: int)"
  by (rule signed_take_bit_int_eq_self) simp_all

lemma signed_take_bit_63 [simp]:
  "- 9223372036854775808 \<le> k \<Longrightarrow> k < 9223372036854775808 \<Longrightarrow> signed_take_bit 63 k = (k :: int)"
  by (rule signed_take_bit_int_eq_self) simp_all

lemma signed_take_bit_nonneg [simp]:
  "0 \<le> k \<Longrightarrow> k < 2147483648 \<Longrightarrow> signed_take_bit 31 k = (k :: int)"
  "0 \<le> k \<Longrightarrow> k < 9223372036854775808 \<Longrightarrow> signed_take_bit 63 k = (k :: int)"
  by simp_all

lemma mod_diff_self:
  "0 \<le> b \<Longrightarrow> b \<le> a \<Longrightarrow> a < m \<Longrightarrow> (a - b) mod m = a - (b :: int)"
  by (rule mod_pos_pos_trivial) linarith+

lemma sint32_range: "- 2147483648 \<le> sint (a :: i32)" "sint (a :: i32) < 2147483648"
  using sint_ge [of a] sint_lt [of a] by simp_all

lemma sint64_range:
  "- 9223372036854775808 \<le> sint (a :: i64)" "sint (a :: i64) < 9223372036854775808"
  using sint_ge [of a] sint_lt [of a] by simp_all

lemma uint32_range: "0 \<le> uint (a :: u32)" "uint (a :: u32) < 4294967296"
  using uint_lt2p [of a] by simp_all

lemma uint64_range: "0 \<le> uint (a :: u64)" "uint (a :: u64) < 18446744073709551616"
  using uint_lt2p [of a] by simp_all

lemma unat64_range: "unat (a :: u64) < 18446744073709551616"
  by (rule order_less_le_trans [OF unsigned_less]) simp

lemma sint32_add [word_reading]:
  "- 2147483648 \<le> sint a + sint b \<Longrightarrow> sint a + sint b < 2147483648 \<Longrightarrow>
   sint (a + b :: i32) = sint a + sint b"
  by (simp add: sint_word_add)

lemma sint32_minus [word_reading]:
  "- 2147483648 < sint a \<Longrightarrow> sint (- a :: i32) = - sint a"
  using sint32_range [of a] by (simp add: sint_word_minus)

lemma uint64_add [word_reading]:
  "uint a + uint b < 18446744073709551616 \<Longrightarrow> uint (a + b :: u64) = uint a + uint b"
  by (simp add: uint_word_ariths)

lemma uint64_sub [word_reading]:
  "uint b \<le> uint a \<Longrightarrow> uint (a - b :: u64) = uint a - uint b"
  using uint64_range [of a] by (simp add: uint_word_ariths mod_diff_self)

lemma uint64_mult [word_reading]:
  "uint a * uint b < 18446744073709551616 \<Longrightarrow> uint (a * b :: u64) = uint a * uint b"
  by (simp add: uint_word_ariths)

lemma uint32_sub [word_reading]:
  "uint b \<le> uint a \<Longrightarrow> uint (a - b :: u32) = uint a - uint b"
  using uint32_range [of a] by (simp add: uint_word_ariths mod_diff_self)

lemma uint_ucast_32_64 [simp]: "uint (ucast (a :: u32) :: u64) = uint a"
  using uint32_range [of a] by (simp add: unsigned_ucast_eq take_bit_int_eq_self)

lemma sint_ucast_64_32 [word_reading]:
  "uint a < 2147483648 \<Longrightarrow> sint (ucast (a :: u64) :: i32) = uint a"
  using uint64_range [of a] by (simp add: signed_ucast_eq)

lemma sint_scast_32_64 [simp]: "sint (scast (a :: i32) :: i64) = sint a"
  by (simp add: sint_up_scast is_up)

lemma sint_ucast_32_64 [simp]: "sint (ucast (a :: u32) :: i64) = uint a"
  using uint32_range [of a] by (simp add: signed_ucast_eq)

lemma sint64_uint:
  "uint a < 9223372036854775808 \<Longrightarrow> sint (a :: i64) = uint a"
  using uint64_range [of a] by (simp add: sint_uint)

lemma sint32_uint:
  "uint a < 2147483648 \<Longrightarrow> sint (a :: i32) = uint a"
  using uint32_range [of a] by (simp add: sint_uint)

lemma uint_of_nonneg_sint:
  assumes "0 \<le> sint (a :: 'a::len word)"
  shows "uint a = sint a"
proof -
  have "(2::int) ^ (LENGTH('a) - 1) \<le> 2 ^ LENGTH('a)"
    by simp
  with sint_lt [of a] have "sint a < 2 ^ LENGTH('a)"
    by linarith
  with assms show ?thesis
    by (simp add: uint_sint take_bit_int_eq_self)
qed

lemma uint_scast_32_64: "0 \<le> sint (a :: i32) \<Longrightarrow> uint (scast a :: u64) = sint a"
  using uint_of_nonneg_sint [of "scast a :: i64"] by simp

section \<open>Exceptions and results\<close>

text \<open>
  What a call may leave with instead of returning. The first are the C++ exceptions the
  program throws itself; \<open>Other_throw\<close> is a throw of something that is not a
  \<open>std::exception\<close>. \<open>Undefined\<close> is not an exception: it marks a step
  whose behaviour C++ does not define (a read or a write outside the storage it indexes), so that a
  theorem that excludes it is a memory-safety theorem.
\<close>

datatype exn =
    Runtime_error string
  | Frame_damaged string
  | Out_of_range string
  | Invalid_argument string
  | Length_error
  | Future_error
  | Other_throw string
  | Undefined string

fun what :: "exn \<Rightarrow> string" where
  "what (Runtime_error s) = s"
| "what (Frame_damaged s) = s"
| "what (Out_of_range s) = s"
| "what (Invalid_argument s) = s"
| "what Length_error = ''vector too long''"
| "what Future_error = ''future_error''"
| "what (Other_throw s) = s"
| "what (Undefined s) = s"

fun is_std_exception :: "exn \<Rightarrow> bool" where
  "is_std_exception (Other_throw _) = False"
| "is_std_exception (Undefined _) = False"
| "is_std_exception _ = True"

type_synonym 'a result = "exn + 'a"

fun bindR :: "'e + 'a \<Rightarrow> ('a \<Rightarrow> 'e + 'b) \<Rightarrow> 'e + 'b" where
  "bindR (Inl e) f = Inl e"
| "bindR (Inr a) f = f a"

lemma bindR_Inr_iff: "bindR m f = Inr b \<longleftrightarrow> (\<exists>a. m = Inr a \<and> f a = Inr b)"
  by (cases m) auto

lemma bindR_Inl_iff: "bindR m f = Inl e \<longleftrightarrow> m = Inl e \<or> (\<exists>a. m = Inr a \<and> f a = Inl e)"
  by (cases m) auto

section \<open>Text\<close>

definition digit_char :: "nat \<Rightarrow> char" where
  "digit_char d = char_of (48 + d)"

fun nat_to_string :: "nat \<Rightarrow> string" where
  "nat_to_string n =
     (if n < 10 then [digit_char n] else nat_to_string (n div 10) @ [digit_char (n mod 10)])"

declare nat_to_string.simps [simp del]

definition int_to_string :: "int \<Rightarrow> string" where
  "int_to_string k = (if k < 0 then CHR ''-'' # nat_to_string (nat (- k)) else nat_to_string (nat k))"

definition line_breaking :: "char \<Rightarrow> bool" where
  "line_breaking c \<longleftrightarrow> c = CHR 0x0D \<or> c = CHR 0x0A \<or> c = CHR 0x09"

section \<open>Lists\<close>

lemma take_Suc_snoc: "n < length xs \<Longrightarrow> take (Suc n) xs = take n xs @ [xs ! n]"
  by (rule take_Suc_conv_app_nth)

lemma foldl_snoc_append: "foldl (\<lambda>acc x. acc @ [f x]) acc xs = acc @ map f xs"
  by (induction xs arbitrary: acc) auto

end
