(* ===== verification/Acquisition_Buffer.thy ===== *)
theory Acquisition_Buffer
  imports Prelude
begin

text \<open>
  \<open>AcquisitionBuffer\<close> and \<open>AcquisitionBufferPool\<close> of libaqmd3: the
  storage a stream fetch writes into and the pool that recycles it. A \<open>shared_ptr\<close> to
  a buffer is the index of its slot; the slot counts the references held outside the pool, so
  \<open>use_count\<close> is that count plus the pool's own reference. The locale
  \<open>exclusive_pool\<close> states what the streaming contexts rely on: a slot is never handed
  out while somebody else holds it.
\<close>

section \<open>AcquisitionBuffer\<close>

record acq_buffer =
  buf_data :: "i32 list"
  acquired_index :: i32
  processed_index :: i32
  buf_offset :: i32
  buf_max_triggers_per_read :: u64
  buf_samples_per_trigger :: u64

definition new_buffer :: "u64 \<Rightarrow> u64 \<Rightarrow> acq_buffer" where
  "new_buffer max_triggers spt =
     \<lparr>buf_data = replicate (unat (max_triggers * spt)) 0, acquired_index = 0, processed_index = 0,
      buf_offset = 0, buf_max_triggers_per_read = max_triggers, buf_samples_per_trigger = spt\<rparr>"

definition new_buffer_of_size :: "u64 \<Rightarrow> acq_buffer" where
  "new_buffer_of_size n =
     \<lparr>buf_data = replicate (unat n) 0, acquired_index = 0, processed_index = 0,
      buf_offset = 0, buf_max_triggers_per_read = 0, buf_samples_per_trigger = 0\<rparr>"

text \<open>
  \<open>get_size\<close> is the vector's capacity, which is its size: the vector is allocated by
  the constructor and never resized.
\<close>

definition get_size :: "acq_buffer \<Rightarrow> u64" where
  "get_size b = of_nat (length (buf_data b))"

definition get_available :: "acq_buffer \<Rightarrow> i32" where
  "get_available b =
     ucast (of_nat (length (buf_data b)) - scast (acquired_index b) - scast (buf_offset b) :: u64)"

definition get_unprocessed :: "acq_buffer \<Rightarrow> i32" where
  "get_unprocessed b = acquired_index b - processed_index b"

definition get_processed :: "acq_buffer \<Rightarrow> i32" where
  "get_processed b = processed_index b"

definition get_acquired :: "acq_buffer \<Rightarrow> i32" where
  "get_acquired b = acquired_index b"

text \<open>A pointer into the buffer is the position of the element it points to.\<close>

definition get_raw_data :: "acq_buffer \<Rightarrow> int" where
  "get_raw_data b = 0"

definition get_raw_unprocessed :: "acq_buffer \<Rightarrow> int" where
  "get_raw_unprocessed b = sint (processed_index b + buf_offset b)"

definition get_raw_unaquired :: "acq_buffer \<Rightarrow> int" where
  "get_raw_unaquired b = sint (acquired_index b + buf_offset b)"

definition advance_processed :: "i32 \<Rightarrow> acq_buffer \<Rightarrow> acq_buffer" where
  "advance_processed n b = b\<lparr>processed_index := processed_index b + n\<rparr>"

definition advance_acquired :: "i32 \<Rightarrow> acq_buffer \<Rightarrow> acq_buffer" where
  "advance_acquired n b = b\<lparr>acquired_index := acquired_index b + n\<rparr>"

definition advance_offset :: "i32 \<Rightarrow> acq_buffer \<Rightarrow> acq_buffer" where
  "advance_offset n b = b\<lparr>buf_offset := buf_offset b + n\<rparr>"

definition reset_buffer :: "acq_buffer \<Rightarrow> acq_buffer" where
  "reset_buffer b = b\<lparr>processed_index := 0, acquired_index := 0, buf_offset := 0\<rparr>"

text \<open>Reading through a pointer outside the vector is undefined, and is an error here.\<close>

definition read_at :: "acq_buffer \<Rightarrow> int \<Rightarrow> i32 result" where
  "read_at b k =
     (if 0 \<le> k \<and> k < int (length (buf_data b)) then Inr (buf_data b ! nat k)
      else Inl (Undefined ''buffer read''))"

text \<open>What a fetch leaves in the buffer: \<open>ws\<close> stored from position \<open>k\<close> on.\<close>

definition write_at :: "int \<Rightarrow> i32 list \<Rightarrow> acq_buffer \<Rightarrow> acq_buffer result" where
  "write_at k ws b =
     (if 0 \<le> k \<and> nat k + length ws \<le> length (buf_data b)
      then Inr (b\<lparr>buf_data := take (nat k) (buf_data b) @ ws @ drop (nat k + length ws) (buf_data b)\<rparr>)
      else Inl (Undefined ''buffer write''))"

lemma length_write_at: "write_at k ws b = Inr b' \<Longrightarrow> length (buf_data b') = length (buf_data b)"
  by (auto simp: write_at_def split: if_splits)

lemma write_at_frame:
  "write_at k ws b = Inr b' \<Longrightarrow>
   acquired_index b' = acquired_index b \<and> processed_index b' = processed_index b \<and>
   buf_offset b' = buf_offset b \<and> buf_samples_per_trigger b' = buf_samples_per_trigger b"
  by (auto simp: write_at_def split: if_splits)

lemma write_at_data:
  assumes "write_at k ws b = Inr b'"
  shows "take (length ws) (drop (nat k) (buf_data b')) = ws"
  using assms by (auto simp: write_at_def split: if_splits)

lemma write_at_before:
  "write_at k ws b = Inr b' \<Longrightarrow> i < nat k \<Longrightarrow> buf_data b' ! i = buf_data b ! i"
  by (auto simp: write_at_def nth_append split: if_splits)

lemmas buffer_defs = get_size_def get_available_def get_unprocessed_def get_processed_def
  get_acquired_def get_raw_unprocessed_def get_raw_unaquired_def advance_processed_def
  advance_acquired_def advance_offset_def reset_buffer_def

section \<open>AcquisitionBufferPool\<close>

record buffer_slot =
  slot_buffer :: acq_buffer
  slot_refs :: nat

record buffer_pool =
  samples_buffer_pool :: "buffer_slot list"
  buffer_takes :: u64
  buffer_max_count :: u64
  buffer_initial_count :: u64
  pool_max_triggers_per_read :: u64
  pool_samples_per_trigger :: u64

definition new_pool :: "u64 \<Rightarrow> u64 \<Rightarrow> u64 \<Rightarrow> u64 \<Rightarrow> buffer_pool" where
  "new_pool max_triggers spt initial maximum =
     \<lparr>samples_buffer_pool =
        replicate (unat initial) \<lparr>slot_buffer = new_buffer max_triggers spt, slot_refs = 0\<rparr>,
      buffer_takes = 0, buffer_max_count = maximum, buffer_initial_count = initial,
      pool_max_triggers_per_read = max_triggers, pool_samples_per_trigger = spt\<rparr>"

definition use_count :: "buffer_pool \<Rightarrow> nat \<Rightarrow> nat" where
  "use_count p i =
     (if i < length (samples_buffer_pool p) then Suc (slot_refs (samples_buffer_pool p ! i)) else 0)"

text \<open>The count starts at the maximum and goes down for each buffer somebody holds.\<close>

definition get_available_buffers :: "buffer_pool \<Rightarrow> u64" where
  "get_available_buffers p =
     foldl (\<lambda>count s. if slot_refs s \<ge> 1 then count - 1 else count)
       (buffer_max_count p) (samples_buffer_pool p)"

text \<open>
  The scan for a free slot: position \<open>i\<close> of the loop looks at slot
  \<open>(buffer_takes + i) % total\<close>, in unsigned 64-bit arithmetic.
\<close>

definition probe :: "buffer_pool \<Rightarrow> nat \<Rightarrow> nat" where
  "probe p i =
     unat ((buffer_takes p + of_nat i) mod of_nat (length (samples_buffer_pool p)))"

fun find_free :: "buffer_pool \<Rightarrow> nat \<Rightarrow> nat \<Rightarrow> nat option" where
  "find_free p i 0 = None"
| "find_free p i (Suc n) =
     (if use_count p (probe p i) = 1 then Some (probe p i) else find_free p (Suc i) n)"

definition get_buffer :: "buffer_pool \<Rightarrow> nat \<times> buffer_pool" where
  "get_buffer p =
     (let total = length (samples_buffer_pool p) in
      case find_free p 0 total of
        Some k \<Rightarrow>
          (k, p\<lparr>buffer_takes := buffer_takes p + 1,
                samples_buffer_pool := (samples_buffer_pool p)
                  [k := \<lparr>slot_buffer = reset_buffer (slot_buffer (samples_buffer_pool p ! k)),
                         slot_refs = 1\<rparr>]\<rparr>)
      | None \<Rightarrow>
          (total, p\<lparr>buffer_takes := buffer_takes p + 1,
                samples_buffer_pool := samples_buffer_pool p @
                  [\<lparr>slot_buffer = new_buffer (pool_max_triggers_per_read p) (pool_samples_per_trigger p),
                    slot_refs = 1\<rparr>]\<rparr>))"

text \<open>Copying and destroying a \<open>shared_ptr\<close> to a slot's buffer.\<close>

definition copy_ref :: "nat \<Rightarrow> buffer_pool \<Rightarrow> buffer_pool" where
  "copy_ref k p =
     (if k < length (samples_buffer_pool p)
      then p\<lparr>samples_buffer_pool := (samples_buffer_pool p)
               [k := (samples_buffer_pool p ! k)
                  \<lparr>slot_refs := Suc (slot_refs (samples_buffer_pool p ! k))\<rparr>]\<rparr>
      else p)"

definition drop_ref :: "nat \<Rightarrow> buffer_pool \<Rightarrow> buffer_pool" where
  "drop_ref k p =
     (if k < length (samples_buffer_pool p)
      then p\<lparr>samples_buffer_pool := (samples_buffer_pool p)
               [k := (samples_buffer_pool p ! k)
                  \<lparr>slot_refs := slot_refs (samples_buffer_pool p ! k) - 1\<rparr>]\<rparr>
      else p)"

definition buffer_of :: "buffer_pool \<Rightarrow> nat \<Rightarrow> acq_buffer" where
  "buffer_of p k = slot_buffer (samples_buffer_pool p ! k)"

definition set_buffer :: "nat \<Rightarrow> acq_buffer \<Rightarrow> buffer_pool \<Rightarrow> buffer_pool" where
  "set_buffer k b p =
     p\<lparr>samples_buffer_pool := (samples_buffer_pool p)[k := (samples_buffer_pool p ! k)\<lparr>slot_buffer := b\<rparr>]\<rparr>"

subsection \<open>The scan\<close>

lemma find_free_Some: "find_free p i n = Some k \<Longrightarrow> use_count p k = 1"
  by (induction p i n rule: find_free.induct) (auto split: if_splits)

lemma find_free_None: "find_free p i n = None \<Longrightarrow> i \<le> j \<Longrightarrow> j < i + n \<Longrightarrow> use_count p (probe p j) \<noteq> 1"
proof (induction n arbitrary: i)
  case 0
  then show ?case by simp
next
  case (Suc n)
  then show ?case by (cases "j = i") (auto split: if_splits)
qed

lemma probe_value:
  assumes "unat (buffer_takes p) + length (samples_buffer_pool p) < 2 ^ 64"
    and "i < length (samples_buffer_pool p)"
  shows "probe p i = (unat (buffer_takes p) + i) mod length (samples_buffer_pool p)"
proof -
  have "unat (of_nat (length (samples_buffer_pool p)) :: u64) = length (samples_buffer_pool p)"
    using assms(1) by (simp add: unsigned_of_nat take_bit_nat_eq_self)
  moreover have "unat (buffer_takes p + of_nat i) = unat (buffer_takes p) + i"
    using assms by (simp add: unat_word_ariths unsigned_of_nat take_bit_nat_eq_self)
  ultimately show ?thesis
    by (simp add: probe_def unat_mod)
qed

lemma residue_reached:
  fixes t total k :: nat
  assumes "k < total"
  obtains i where "i < total" "(t + i) mod total = k"
proof -
  let ?i = "(k + total - t mod total) mod total"
  have "t mod total < total"
    using assms by simp
  then have le: "t mod total + (k + total - t mod total) = k + total"
    by linarith
  have "(t + ?i) mod total = (t mod total + (k + total - t mod total)) mod total"
    by (simp add: mod_simps)
  also have "\<dots> = (k + total) mod total"
    by (simp only: le)
  also have "\<dots> = k"
    using assms by simp
  finally show ?thesis
    using assms by (intro that [of ?i]) simp_all
qed

lemma find_free_complete:
  assumes "unat (buffer_takes p) + length (samples_buffer_pool p) < 2 ^ 64"
    and "find_free p 0 (length (samples_buffer_pool p)) = None"
    and "k < length (samples_buffer_pool p)"
  shows "use_count p k \<noteq> 1"
proof -
  obtain i where i: "i < length (samples_buffer_pool p)"
    "(unat (buffer_takes p) + i) mod length (samples_buffer_pool p) = k"
    using assms(3) by (rule residue_reached)
  then show ?thesis
    using find_free_None [OF assms(2), of i] probe_value [OF assms(1) i(1)] by simp
qed

lemmas pool_eval = get_buffer_def new_pool_def Let_def probe_def use_count_def new_buffer_def
  reset_buffer_def

subsection \<open>What a caller relies on\<close>

text \<open>
  The interface of the pool: taking a slot leaves everybody else's references alone, and the slot
  taken had no reference outside the pool. Every client of the pool is proved against these laws.
\<close>

datatype pool_op = Take | Copy nat | Release nat

text \<open>The slots handed out by a run of pool operations, in order.\<close>

fun handed_out ::
  "('p \<Rightarrow> nat \<times> 'p) \<Rightarrow> (nat \<Rightarrow> 'p \<Rightarrow> 'p) \<Rightarrow> (nat \<Rightarrow> 'p \<Rightarrow> 'p) \<Rightarrow>
   pool_op list \<Rightarrow> 'p \<Rightarrow> nat list" where
  "handed_out take_slot copy_slot release_slot [] p = []"
| "handed_out take_slot copy_slot release_slot (Take # ops) p =
     fst (take_slot p) # handed_out take_slot copy_slot release_slot ops (snd (take_slot p))"
| "handed_out take_slot copy_slot release_slot (Copy k # ops) p =
     handed_out take_slot copy_slot release_slot ops (copy_slot k p)"
| "handed_out take_slot copy_slot release_slot (Release k # ops) p =
     handed_out take_slot copy_slot release_slot ops (release_slot k p)"

locale exclusive_pool =
  fixes take_slot :: "'p \<Rightarrow> nat \<times> 'p"
    and copy_slot :: "nat \<Rightarrow> 'p \<Rightarrow> 'p"
    and release_slot :: "nat \<Rightarrow> 'p \<Rightarrow> 'p"
    and holders :: "'p \<Rightarrow> nat \<Rightarrow> nat"
  assumes take_unheld: "take_slot p = (k, q) \<Longrightarrow> holders p k = 0"
    and take_held: "take_slot p = (k, q) \<Longrightarrow> holders q k = 1"
    and take_frame: "take_slot p = (k, q) \<Longrightarrow> j \<noteq> k \<Longrightarrow> holders q j = holders p j"
    and copy_frame: "holders p j \<le> holders (copy_slot k p) j"
    and release_frame: "j \<noteq> k \<Longrightarrow> holders (release_slot k p) j = holders p j"
begin

lemma take_keeps:
  assumes "0 < holders p j"
  shows "fst (take_slot p) \<noteq> j" and "holders (snd (take_slot p)) j = holders p j"
proof -
  obtain k q where kq: "take_slot p = (k, q)" by (cases "take_slot p")
  with assms take_unheld [OF kq] have "j \<noteq> k" by auto
  with kq take_frame [OF kq] show "fst (take_slot p) \<noteq> j" "holders (snd (take_slot p)) j = holders p j"
    by auto
qed

lemma held_not_retaken:
  "0 < holders p j \<Longrightarrow> Release j \<notin> set ops \<Longrightarrow>
   j \<notin> set (handed_out take_slot copy_slot release_slot ops p)"
proof (induction ops arbitrary: p)
  case (Cons x ops)
  then show ?case
  proof (cases x)
    case Take
    with Cons take_keeps [OF Cons.prems(1)] show ?thesis by auto
  next
    case (Copy k)
    with Cons copy_frame [of p j k] show ?thesis by auto
  next
    case (Release k)
    with Cons release_frame [of j k p] show ?thesis by auto
  qed
qed simp

end

definition holders :: "buffer_pool \<Rightarrow> nat \<Rightarrow> nat" where
  "holders p k = use_count p k - 1"

lemma find_free_lt: "find_free p i n = Some k \<Longrightarrow> k < length (samples_buffer_pool p)"
  by (drule find_free_Some) (simp add: use_count_def split: if_splits)

lemma get_buffer_cases:
  assumes "get_buffer p = (k, q)"
  obtains (reused) "find_free p 0 (length (samples_buffer_pool p)) = Some k"
      "k < length (samples_buffer_pool p)" "use_count p k = 1"
      "samples_buffer_pool q = (samples_buffer_pool p)
         [k := \<lparr>slot_buffer = reset_buffer (buffer_of p k), slot_refs = 1\<rparr>]"
  | (grown) "find_free p 0 (length (samples_buffer_pool p)) = None"
      "k = length (samples_buffer_pool p)"
      "samples_buffer_pool q = samples_buffer_pool p @
         [\<lparr>slot_buffer = new_buffer (pool_max_triggers_per_read p) (pool_samples_per_trigger p),
           slot_refs = 1\<rparr>]"
  using assms
  by (auto simp: get_buffer_def Let_def buffer_of_def
      intro: that find_free_Some find_free_lt split: option.splits)

lemma get_buffer_positions:
  assumes "get_buffer p = (k, q)"
  shows "acquired_index (buffer_of q k) = 0" "processed_index (buffer_of q k) = 0"
    "buf_offset (buffer_of q k) = 0" "k < length (samples_buffer_pool q)"
  using assms
  by (cases rule: get_buffer_cases;
      simp add: buffer_of_def reset_buffer_def new_buffer_def nth_append)+

interpretation pool: exclusive_pool get_buffer copy_ref drop_ref holders
proof
  fix p k q
  assume g: "get_buffer p = (k, q)"
  then show "holders p k = 0"
    by (cases rule: get_buffer_cases) (auto simp: holders_def use_count_def)
  from g show "holders q k = 1"
    by (cases rule: get_buffer_cases) (auto simp: holders_def use_count_def)
  fix j
  assume "j \<noteq> k"
  with g show "holders q j = holders p j"
    by (cases rule: get_buffer_cases) (auto simp: holders_def use_count_def nth_append)
next
  fix p j k
  show "holders p j \<le> holders (copy_ref k p) j"
    by (auto simp: holders_def use_count_def copy_ref_def nth_list_update)
next
  fix j k p
  assume "j \<noteq> (k :: nat)"
  then show "holders (drop_ref k p) j = holders p j"
    by (auto simp: holders_def use_count_def drop_ref_def nth_list_update)
qed

section \<open>Properties of the pool\<close>

text \<open>C40: a buffer somebody still holds is never handed out: whatever takes, copies and releases
  follow, as long as the holder does not release slot \<open>j\<close>, no later \<open>get_buffer\<close>
  returns it.\<close>

theorem held_buffer_is_exclusive:
  assumes "0 < holders p j" and "Release j \<notin> set ops"
  shows "j \<notin> set (handed_out get_buffer copy_ref drop_ref ops p)"
  using assms by (rule pool.held_not_retaken)

theorem held_buffer_is_exclusive_witness:
  "(0::nat) \<notin> set (handed_out get_buffer copy_ref drop_ref [Take, Release 1, Take, Take]
     (snd (get_buffer (new_pool 1 2 2 2))))"
  by (rule held_buffer_is_exclusive) code_simp+

text \<open>\<open>get_buffer\<close> returns a buffer with all three positions at zero, held by the caller
  alone, and leaves the contents and the reference counts of all other slots as they were.\<close>

theorem get_buffer_fresh:
  assumes "get_buffer p = (k, q)"
  shows "use_count q k = 2 \<and> acquired_index (buffer_of q k) = 0 \<and>
    processed_index (buffer_of q k) = 0 \<and> buf_offset (buffer_of q k) = 0 \<and>
    (\<forall>j < length (samples_buffer_pool p). j \<noteq> k \<longrightarrow> samples_buffer_pool q ! j = samples_buffer_pool p ! j)"
  using assms
  by (cases rule: get_buffer_cases)
    (auto simp: use_count_def buffer_of_def reset_buffer_def new_buffer_def nth_append)

theorem get_buffer_fresh_witness:
  "use_count (snd (get_buffer (new_pool 1 2 1 1))) 0 = 2"
proof -
  have "get_buffer (new_pool 1 2 1 1) = (0, snd (get_buffer (new_pool 1 2 1 1)))"
    by (simp add: prod_eq_iff) code_simp
  from get_buffer_fresh [OF this] show ?thesis ..
qed

text \<open>the pool allocates a new buffer only when every buffer it has is held outside the pool.\<close>

theorem pool_grows_only_when_exhausted:
  assumes "unat (buffer_takes p) + length (samples_buffer_pool p) < 2 ^ 64"
    and "get_buffer p = (k, q)"
    and "length (samples_buffer_pool q) \<noteq> length (samples_buffer_pool p)"
  shows "\<forall>j < length (samples_buffer_pool p). 2 \<le> use_count p j"
  using assms(2)
proof (cases rule: get_buffer_cases)
  case reused
  with assms(3) show ?thesis by simp
next
  case grown
  show ?thesis
  proof (intro allI impI)
    fix j
    assume "j < length (samples_buffer_pool p)"
    with find_free_complete [OF assms(1) grown(1) this] show "2 \<le> use_count p j"
      by (simp add: use_count_def)
  qed
qed

theorem pool_grows_only_when_exhausted_witness:
  "2 \<le> use_count (snd (get_buffer (new_pool 1 1 1 1))) 0"
proof -
  let ?p = "snd (get_buffer (new_pool 1 1 1 1))"
  have "unat (buffer_takes ?p) + length (samples_buffer_pool ?p) < 2 ^ 64"
    by (simp add: pool_eval)
  moreover have "get_buffer ?p = (1, snd (get_buffer ?p))"
    by (simp add: prod_eq_iff) code_simp
  moreover have "length (samples_buffer_pool (snd (get_buffer ?p))) \<noteq> length (samples_buffer_pool ?p)"
    by code_simp
  ultimately have "\<forall>j < length (samples_buffer_pool ?p). 2 \<le> use_count ?p j"
    by (rule pool_grows_only_when_exhausted)
  moreover have "0 < length (samples_buffer_pool ?p)"
    by code_simp
  ultimately show ?thesis by blast
qed

definition buffers_in_use :: "buffer_pool \<Rightarrow> nat" where
  "buffers_in_use p = length (filter (\<lambda>s. 1 \<le> slot_refs s) (samples_buffer_pool p))"

lemma available_fold:
  "foldl (\<lambda>count s. if slot_refs s \<ge> 1 then count - 1 else count) (c :: u64) xs =
     c - of_nat (length (filter (\<lambda>s. 1 \<le> slot_refs s) xs))"
  by (induction xs arbitrary: c) (simp_all add: algebra_simps)

text \<open>the count of available buffers is the configured maximum less the buffers in use while
  that many are not exceeded; once more are in use it wraps to a value near \<open>2 ^ 64\<close>, since
  nothing keeps the pool below the maximum.\<close>

theorem available_buffers_count:
  "unat (get_available_buffers p) =
     (if buffers_in_use p mod 2 ^ 64 \<le> unat (buffer_max_count p)
      then unat (buffer_max_count p) - buffers_in_use p mod 2 ^ 64
      else unat (buffer_max_count p) + 2 ^ 64 - buffers_in_use p mod 2 ^ 64)"
  unfolding get_available_buffers_def available_fold buffers_in_use_def
  by (simp add: unat_sub_if' unsigned_of_nat take_bit_eq_mod)

text \<open>The maximum bounds nothing: a pool whose buffers are all held grows whatever
  \<open>buffer_max_count\<close> says.\<close>

theorem pool_ignores_maximum:
  assumes "\<And>j. j < length (samples_buffer_pool p) \<Longrightarrow> 2 \<le> use_count p j"
  shows "length (samples_buffer_pool (snd (get_buffer p))) = Suc (length (samples_buffer_pool p))"
proof -
  have "get_buffer p = (fst (get_buffer p), snd (get_buffer p))" by simp
  then show ?thesis
  proof (cases rule: get_buffer_cases)
    case reused
    with assms show ?thesis by fastforce
  next
    case grown
    then show ?thesis by simp
  qed
qed

end
