(* ===== verification/Acquired_Data.thy ===== *)
theory Acquired_Data
  imports Acquisition_Buffer
begin

text \<open>
  The data classes between acquisition and storage: \<open>AcquiredData\<close> with its gates and
  triggers (libaqmd3), and \<open>UimfFrameParameters\<close>, \<open>EncodedResult\<close>,
  \<open>UimfFrame\<close> (UIMFWriter). A gate descriptor counts in blocks of eight samples; the
  two index functions are the unsigned arithmetic of the class, including the 32-bit subtraction
  inside \<open>get_stop_sample_index\<close>.
\<close>

section \<open>AcquiredData\<close>

record gate_data =
  gate_start_block_index :: u64
  gate_start_sample_pos :: u32
  gate_stop_block_index :: u64
  gate_stop_sample_pos :: u32
  element_count :: u32

definition processing_block_size :: u64 where
  "processing_block_size = 8"

definition get_start_sample_index :: "gate_data \<Rightarrow> u64" where
  "get_start_sample_index g =
     (gate_start_block_index g - 1) * processing_block_size + ucast (gate_start_sample_pos g)"

definition get_stop_sample_index :: "gate_data \<Rightarrow> u64" where
  "get_stop_sample_index g =
     (gate_stop_block_index g - 1) * processing_block_size -
     ucast (8 - gate_stop_sample_pos g :: u32)"

text \<open>
  The sub-sample position is the C++ \<open>double\<close> initialised from an integer quotient, so
  its value is that integer.
\<close>

record trigger_data =
  trig_timestamp :: u64
  trig_subsample_pos :: int
  trig_index :: u32
  trig_gates :: "gate_data list"

definition new_trigger_data :: "u64 \<Rightarrow> u32 \<Rightarrow> int \<Rightarrow> trigger_data" where
  "new_trigger_data ts idx sub =
     \<lparr>trig_timestamp = ts, trig_subsample_pos = sub, trig_index = idx, trig_gates = []\<rparr>"

record acquired_data =
  samples_slot :: nat
  stamps :: "trigger_data list"
  samples_count :: u64

definition range_shift_constant :: i32 where
  "range_shift_constant = 32768"

section \<open>UIMF frames\<close>

record uimf_frame_parameters =
  start_trigger :: u64
  nbr_samples :: u64
  nbr_accumulations :: u64
  frame_length :: u64
  frame_number :: u32
  offset_bins :: u32
  file_name :: string

record encoded_result =
  er_timestamp :: u64
  encoded_spectra :: "i32 list"
  non_zero_count :: i32
  er_scan :: i32
  er_tic :: i64
  er_bpi :: i64
  index_max_intensity :: i32

record uimf_frame =
  frame_parameters :: uimf_frame_parameters
  encoded_data :: "encoded_result list"

definition get_frame_duration_seconds :: "uimf_frame \<Rightarrow> 'd \<Rightarrow> int" where
  "get_frame_duration_seconds f ts_sample_period_s = - 1"

section \<open>Reading an encoded spectrum\<close>

text \<open>
  The encoding of a row of \<open>Frame_Scans\<close>: a negative element skips that many bins, any
  other element is the intensity of the bin it lands on. \<open>decode_spectrum\<close> is the
  reader every consumer of the encoding agrees on.
\<close>

fun decode_spectrum :: "int \<Rightarrow> i32 list \<Rightarrow> (int \<times> i32) list" where
  "decode_spectrum k [] = []"
| "decode_spectrum k (v # vs) =
     (if v <s 0 then decode_spectrum (k - sint v) vs else (k, v) # decode_spectrum (k + 1) vs)"

fun end_bin :: "int \<Rightarrow> i32 list \<Rightarrow> int" where
  "end_bin k [] = k"
| "end_bin k (v # vs) = (if v <s 0 then end_bin (k - sint v) vs else end_bin (k + 1) vs)"

lemma decode_append:
  "decode_spectrum k (xs @ ys) = decode_spectrum k xs @ decode_spectrum (end_bin k xs) ys"
  by (induction xs arbitrary: k) auto

lemma end_bin_append [simp]: "end_bin k (xs @ ys) = end_bin (end_bin k xs) ys"
  by (induction xs arbitrary: k) auto

lemma sless_zero_iff [simp]: "(v :: i32) <s 0 \<longleftrightarrow> sint v < 0"
  by (simp add: word_sless_alt)

definition enumerate_bins :: "int \<Rightarrow> i32 list \<Rightarrow> (int \<times> i32) list" where
  "enumerate_bins k vs = map (\<lambda>j. (k + int j, vs ! j)) [0 ..< length vs]"

lemma enumerate_bins_Nil [simp]: "enumerate_bins k [] = []"
  by (simp add: enumerate_bins_def)

lemma enumerate_bins_Cons [simp]:
  "enumerate_bins k (v # vs) = (k, v) # enumerate_bins (k + 1) vs"
  unfolding enumerate_bins_def
  by (simp add: upt_conv_Cons map_Suc_upt [symmetric] del: upt_Suc)

lemma decode_nonneg:
  assumes "\<And>v. v \<in> set vs \<Longrightarrow> 0 \<le> sint v"
  shows "decode_spectrum k vs = enumerate_bins k vs"
  using assms by (induction vs arbitrary: k) (auto simp: not_less [symmetric])

lemma end_bin_nonneg:
  assumes "\<And>v. v \<in> set vs \<Longrightarrow> 0 \<le> sint v"
  shows "end_bin k vs = k + int (length vs)"
  using assms by (induction vs arbitrary: k) (auto simp: not_less [symmetric])

section \<open>Gates the encoder can place\<close>

text \<open>
  A gate is in order when its blocks are numbered from one, its end position is inside the last
  block, it holds at least one sample and it starts no earlier than \<open>lo\<close>, where the
  gate before it stopped. Bins stay below \<open>2 ^ 30\<close>, far above any record the card can
  produce, so that neither the 32-bit run lengths nor the reserved size overflow.
\<close>

definition max_bin :: int where
  "max_bin = 1073741824"

definition gate_in_order :: "int \<Rightarrow> gate_data \<Rightarrow> bool" where
  "gate_in_order lo g \<longleftrightarrow>
     1 \<le> uint (gate_start_block_index g) \<and> 1 \<le> uint (gate_stop_block_index g) \<and>
     uint (gate_start_sample_pos g) \<le> 8 \<and> uint (gate_stop_sample_pos g) \<le> 8 \<and>
     lo \<le> uint (get_start_sample_index g) \<and>
     get_start_sample_index g < get_stop_sample_index g \<and>
     uint (get_stop_sample_index g) < max_bin"

fun gates_in_order :: "int \<Rightarrow> gate_data list \<Rightarrow> bool" where
  "gates_in_order lo [] = True"
| "gates_in_order lo (g # gs) =
     (gate_in_order lo g \<and> gates_in_order (uint (get_stop_sample_index g)) gs)"

definition gate_length :: "gate_data \<Rightarrow> nat" where
  "gate_length g = unat (get_stop_sample_index g - get_start_sample_index g)"

end
