(* ===== verification/Frame_Encoding.thy ===== *)
theory Frame_Encoding
  imports Acquired_Data
begin

text \<open>
  \<open>UimfAcquisitionRecord::process\<close> and \<open>to_frame\<close>: the turning of
  gated samples into encoded spectra. The loops over triggers, gates and samples are the nested
  recursions \<open>process_stamps\<close>, \<open>gates_loop\<close> and
  \<open>sample_loop\<close>; every variable of the C++ function is a field of the accumulator at
  its own width. A read outside the samples buffer is \<open>Undefined\<close>, and a reserve of
  more than the vector's maximum size throws.
\<close>

section \<open>The record\<close>

record uimf_acquisition_record =
  rec_parameters :: uimf_frame_parameters
  acquiredData :: acquired_data
  start_scan_index :: u64

section \<open>Samples\<close>

record scan_acc =
  encoded_samples :: "i32 list"
  acc_tic :: u64
  acc_bpi :: i64
  acc_index_max :: i32
  acc_non_zero :: i32
  acc_zero :: i32

definition new_scan_acc :: scan_acc where
  "new_scan_acc = \<lparr>encoded_samples = [], acc_tic = 0, acc_bpi = 0, acc_index_max = 0,
     acc_non_zero = 0, acc_zero = 0\<rparr>"

text \<open>Two 16-bit samples share an element: the even one is its low half, the odd one its high half.\<close>

definition unpack_sample :: "int \<Rightarrow> i32 \<Rightarrow> i32" where
  "unpack_sample i w =
     (if even i then signed_drop_bit 16 (push_bit 16 w) + range_shift_constant
      else signed_drop_bit 16 w + range_shift_constant)"

definition c_half :: "int \<Rightarrow> int" where
  "c_half i = (if i < 0 then - ((- i) div 2) else i div 2)"

definition fetch_sample :: "acq_buffer \<Rightarrow> int \<Rightarrow> int \<Rightarrow> i32 result" where
  "fetch_sample b ptr i =
     (if i \<le> 2147483647
      then bindR (read_at b (ptr + c_half i)) (\<lambda>w. Inr (unpack_sample i w))
      else Inl (Undefined ''int overflow''))"

definition store_sample :: "i32 \<Rightarrow> scan_acc \<Rightarrow> scan_acc" where
  "store_sample val acc =
     (let acc1 = (if acc_bpi acc <s scast val
                  then acc\<lparr>acc_bpi := scast val,
                           acc_index_max := acc_non_zero acc + acc_zero acc\<rparr>
                  else acc)
      in acc1\<lparr>encoded_samples := encoded_samples acc1 @ [val],
              acc_non_zero := acc_non_zero acc1 + 1,
              acc_tic := acc_tic acc1 + scast val\<rparr>)"

fun sample_loop :: "acq_buffer \<Rightarrow> int \<Rightarrow> int \<Rightarrow> nat \<Rightarrow> scan_acc \<Rightarrow> scan_acc result" where
  "sample_loop b ptr i 0 acc = Inr acc"
| "sample_loop b ptr i (Suc n) acc =
     bindR (fetch_sample b ptr i) (\<lambda>val. sample_loop b ptr (i + 1) n (store_sample val acc))"

section \<open>Gates\<close>

definition push_gap :: "i32 \<Rightarrow> scan_acc \<Rightarrow> scan_acc" where
  "push_gap gate_zero_count acc =
     acc\<lparr>encoded_samples := encoded_samples acc @
           (if gate_zero_count = 32768 then [- 32767, - 1]
            else if 0 <s gate_zero_count then [- 1 * gate_zero_count] else []),
         acc_zero := acc_zero acc + gate_zero_count\<rparr>"

definition gate_zero_count :: "u32 \<Rightarrow> gate_data option \<Rightarrow> gate_data \<Rightarrow> i32" where
  "gate_zero_count offset prev g =
     (case prev of
        None \<Rightarrow> ucast (get_start_sample_index g + ucast offset)
      | Some prev_gate \<Rightarrow> ucast (get_start_sample_index g - get_stop_sample_index prev_gate))"

definition gate_samples :: "gate_data \<Rightarrow> i64" where
  "gate_samples g = get_stop_sample_index g - get_start_sample_index g"

text \<open>
  The sample loop starts at the \<open>int\<close> made of the 32-bit start position and runs while
  it is below that position plus the sample count, compared as signed 64-bit values.
\<close>

definition gate_step ::
  "acq_buffer \<Rightarrow> u32 \<Rightarrow> gate_data option \<Rightarrow> gate_data \<Rightarrow> i32 \<times> scan_acc \<Rightarrow> (i32 \<times> scan_acc) result" where
  "gate_step b off_bins prev g st =
     (let offset = fst st; acc = snd st; elements = element_count g; samples = gate_samples g in
      if get_stop_sample_index g \<le> get_start_sample_index g then Inr (offset + elements, acc)
      else
        let acc1 = push_gap (gate_zero_count off_bins prev g) acc;
            ptr = get_raw_unprocessed b + sint offset;
            i0 = sint (gate_start_sample_pos g :: i32);
            bound = sint (ucast (gate_start_sample_pos g) + samples)
        in bindR (sample_loop b ptr i0 (nat (bound - i0)) acc1)
             (\<lambda>acc2. Inr (offset + elements, acc2)))"

fun gates_loop ::
  "acq_buffer \<Rightarrow> u32 \<Rightarrow> gate_data option \<Rightarrow> gate_data list \<Rightarrow> i32 \<times> scan_acc \<Rightarrow> (i32 \<times> scan_acc) result" where
  "gates_loop b off_bins prev [] st = Inr st"
| "gates_loop b off_bins prev (g # gs) st =
     bindR (gate_step b off_bins prev g st) (gates_loop b off_bins (Some g) gs)"

definition reserve_step :: "i32 \<Rightarrow> gate_data \<Rightarrow> i32" where
  "reserve_step reserve g =
     (if 0 <s gate_samples g then ucast (scast reserve + gate_samples g :: i64) else reserve)"

definition max_vector_size :: u64 where
  "max_vector_size = 4611686018427387903"

definition check_reserve :: "gate_data list \<Rightarrow> unit result" where
  "check_reserve gs =
     (let n = foldl reserve_step 0 gs + of_nat (length gs) in
      if scast n \<le> max_vector_size then Inr () else Inl Length_error)"

section \<open>Triggers\<close>

definition make_result :: "u64 \<Rightarrow> nat \<Rightarrow> trigger_data \<Rightarrow> scan_acc \<Rightarrow> encoded_result" where
  "make_result first_scan trig_no trig acc =
     \<lparr>er_timestamp = trig_timestamp trig, encoded_spectra = encoded_samples acc,
      non_zero_count = acc_non_zero acc, er_scan = ucast (first_scan + of_nat trig_no),
      er_tic = acc_tic acc, er_bpi = acc_bpi acc, index_max_intensity = acc_index_max acc\<rparr>"

fun process_stamps ::
  "acq_buffer \<Rightarrow> u32 \<Rightarrow> u64 \<Rightarrow> nat \<Rightarrow> trigger_data list \<Rightarrow> i32 \<Rightarrow> encoded_result list result" where
  "process_stamps b off_bins first_scan trig_no [] offset = Inr []"
| "process_stamps b off_bins first_scan trig_no (trig # trigs) offset =
     bindR (check_reserve (trig_gates trig)) (\<lambda>_.
     bindR (gates_loop b off_bins None (trig_gates trig) (offset, new_scan_acc)) (\<lambda>(offset', acc).
     bindR (process_stamps b off_bins first_scan (Suc trig_no) trigs offset') (\<lambda>results.
     Inr (make_result first_scan trig_no trig acc # results))))"

definition process :: "acq_buffer \<Rightarrow> uimf_acquisition_record \<Rightarrow> encoded_result list result" where
  "process b r =
     process_stamps b (offset_bins (rec_parameters r)) (start_scan_index r) 0
       (stamps (acquiredData r)) 0"

definition to_frame :: "acq_buffer \<Rightarrow> uimf_acquisition_record \<Rightarrow> uimf_frame result" where
  "to_frame b r =
     bindR (process b r) (\<lambda>dat. Inr \<lparr>frame_parameters = rec_parameters r, encoded_data = dat\<rparr>)"

section \<open>Sample values\<close>

lemma sint_shifted: "sint (signed_drop_bit 16 v + 32768 :: i32) = sint (signed_drop_bit 16 v) + 32768"
  and sint_drop_16: "- 32768 \<le> sint (signed_drop_bit 16 v)" "sint (signed_drop_bit 16 (v :: i32)) \<le> 32767"
proof -
  show r: "- 32768 \<le> sint (signed_drop_bit 16 v)" "sint (signed_drop_bit 16 v) \<le> 32767"
    using sint32_range [of v]
    by (simp_all add: sint_signed_drop_bit_eq drop_bit_eq_div)
  then show "sint (signed_drop_bit 16 v + 32768 :: i32) = sint (signed_drop_bit 16 v) + 32768"
    by (simp add: sint_word_add)
qed

lemma sint_unpack: "0 \<le> sint (unpack_sample i w)" "sint (unpack_sample i w) \<le> 65535"
  using sint_drop_16 [of w] sint_drop_16 [of "push_bit 16 w"]
  by (auto simp: unpack_sample_def range_shift_constant_def sint_shifted)

lemma fetch_sample_range:
  "fetch_sample b ptr i = Inr v \<Longrightarrow> 0 \<le> sint v \<and> sint v \<le> 65535"
  by (auto simp: fetch_sample_def bindR_Inr_iff sint_unpack split: if_splits)

section \<open>What every returned scan satisfies\<close>

definition spectrum_values :: "i32 list \<Rightarrow> i32 list" where
  "spectrum_values s = filter (\<lambda>v. 0 \<le> sint v) s"

lemma spectrum_values_append [simp]:
  "spectrum_values (xs @ ys) = spectrum_values xs @ spectrum_values ys"
  by (simp add: spectrum_values_def)

lemma spectrum_values_single:
  "0 \<le> sint v \<Longrightarrow> spectrum_values [v] = [v]" "sint v < 0 \<Longrightarrow> spectrum_values [v] = []"
  by (simp_all add: spectrum_values_def)

lemma decode_snd: "map snd (decode_spectrum k s) = spectrum_values s"
  by (induction s arbitrary: k) (auto simp: spectrum_values_def)

definition scan_inv :: "scan_acc \<Rightarrow> bool" where
  "scan_inv acc \<longleftrightarrow>
     (\<forall>v \<in> set (encoded_samples acc). v \<noteq> - 32768 \<and> sint v \<le> 65535 \<and> sint v \<le> sint (acc_bpi acc)) \<and>
     acc_non_zero acc = of_nat (length (spectrum_values (encoded_samples acc))) \<and>
     acc_tic acc = (\<Sum>v\<leftarrow>spectrum_values (encoded_samples acc). scast v) \<and>
     0 \<le> sint (acc_bpi acc) \<and>
     (acc_bpi acc = 0 \<or> (\<exists>v \<in> set (encoded_samples acc). sint v = sint (acc_bpi acc)))"

lemma scan_inv_new: "scan_inv new_scan_acc"
  by (simp add: scan_inv_def new_scan_acc_def spectrum_values_def)

lemma sless_scast: "acc_bpi acc <s (scast (v :: i32) :: i64) \<longleftrightarrow> sint (acc_bpi acc) < sint v"
  by (simp add: word_sless_alt)

lemma not_min_run: "0 \<le> sint (v :: i32) \<Longrightarrow> v \<noteq> - 32768"
  by auto

lemma scan_inv_store:
  assumes "scan_inv acc" and "0 \<le> sint v" "sint v \<le> 65535"
  shows "scan_inv (store_sample v acc)"
proof (cases "sint (acc_bpi acc) < sint v")
  case True
  with assms show ?thesis
    by (auto simp: scan_inv_def store_sample_def Let_def sless_scast spectrum_values_single
        not_min_run algebra_simps)
next
  case False
  with assms show ?thesis
    by (auto simp: scan_inv_def store_sample_def Let_def sless_scast spectrum_values_single
        not_min_run algebra_simps)
qed

lemma scan_inv_gap: "scan_inv acc \<Longrightarrow> scan_inv (push_gap g acc)"
proof -
  assume inv: "scan_inv acc"
  show ?thesis
  proof (cases "g \<noteq> 32768 \<and> 0 <s g")
    case True
    then have pos: "0 < sint g" "g \<noteq> 32768" by (simp_all add: word_sless_alt)
    then have neg: "sint (- g) = - sint g" by (simp add: sint32_minus)
    have "- g \<noteq> - 32768" using pos(2) by (metis minus_minus)
    with inv True pos neg show ?thesis
      by (auto simp: scan_inv_def push_gap_def spectrum_values_single)
  next
    case False
    with inv show ?thesis
      by (auto simp: scan_inv_def push_gap_def spectrum_values_def)
  qed
qed

lemma scan_inv_sample_loop:
  "sample_loop b ptr i n acc = Inr acc' \<Longrightarrow> scan_inv acc \<Longrightarrow> scan_inv acc'"
  by (induction b ptr i n acc rule: sample_loop.induct)
    (auto simp: bindR_Inr_iff dest: fetch_sample_range intro: scan_inv_store)

lemma scan_inv_gate_step:
  "gate_step b off_bins prev g st = Inr st' \<Longrightarrow> scan_inv (snd st) \<Longrightarrow> scan_inv (snd st')"
  by (auto simp: gate_step_def Let_def bindR_Inr_iff split: if_splits
      intro: scan_inv_sample_loop scan_inv_gap)

lemma scan_inv_gates_loop:
  "gates_loop b off_bins prev gs st = Inr st' \<Longrightarrow> scan_inv (snd st) \<Longrightarrow> scan_inv (snd st')"
  by (induction gs arbitrary: prev st) (auto simp: bindR_Inr_iff dest: scan_inv_gate_step)

text \<open>A summary of one returned scan, on the result itself.\<close>

definition scan_ok :: "encoded_result \<Rightarrow> bool" where
  "scan_ok er \<longleftrightarrow>
     - 32768 \<notin> set (encoded_spectra er) \<and>
     (\<forall>v \<in> set (encoded_spectra er). sint v \<le> 65535 \<and> sint v \<le> sint (er_bpi er)) \<and>
     non_zero_count er = of_nat (length (spectrum_values (encoded_spectra er))) \<and>
     er_tic er = (\<Sum>v\<leftarrow>spectrum_values (encoded_spectra er). scast v) \<and>
     (er_bpi er = 0 \<or> (\<exists>v \<in> set (encoded_spectra er). sint v = sint (er_bpi er)))"

lemma process_stamps_ok:
  "process_stamps b off_bins first n trigs offset = Inr rs \<Longrightarrow>
   list_all2 (\<lambda>trig er. er_timestamp er = trig_timestamp trig \<and> scan_ok er) trigs rs \<and>
   map er_scan rs = map (\<lambda>i. ucast (first + of_nat i)) [n ..< n + length trigs]"
proof (induction trigs arbitrary: n offset rs)
  case Nil
  then show ?case by simp
next
  case (Cons trig trigs)
  then obtain offset' acc rs' where
    loop: "gates_loop b off_bins None (trig_gates trig) (offset, new_scan_acc) = Inr (offset', acc)"
    and rest: "process_stamps b off_bins first (Suc n) trigs offset' = Inr rs'"
    and rs: "rs = make_result first n trig acc # rs'"
    by (auto simp: bindR_Inr_iff)
  have "scan_inv acc"
    using scan_inv_gates_loop [OF loop] by (simp add: scan_inv_new)
  then have "scan_ok (make_result first n trig acc)"
    by (auto simp: scan_inv_def scan_ok_def make_result_def)
  with Cons.IH [OF rest] rs show ?case
    by (simp add: make_result_def upt_conv_Cons del: upt_Suc)
qed

section \<open>Where the samples land\<close>

text \<open>
  The specification the encoding implements: sample \<open>k\<close> of a gate is the half-word
  \<open>start_pos + k\<close> of the gate's region of the buffer, and it belongs to bin
  \<open>start index + offset_bins + k\<close>. The region of a gate starts where the element counts
  of all gates before it, in this and in earlier triggers, add up to.
\<close>

definition sample_value :: "acq_buffer \<Rightarrow> int \<Rightarrow> int \<Rightarrow> i32" where
  "sample_value b ptr i = unpack_sample i (buf_data b ! nat (ptr + i div 2))"

definition gate_bins :: "acq_buffer \<Rightarrow> u32 \<Rightarrow> int \<Rightarrow> gate_data \<Rightarrow> (int \<times> i32) list" where
  "gate_bins b off_bins ptr g =
     map (\<lambda>j. (uint (get_start_sample_index g) + uint off_bins + int j,
               sample_value b ptr (uint (gate_start_sample_pos g) + int j)))
       [0 ..< gate_length g]"

fun trigger_bins :: "acq_buffer \<Rightarrow> u32 \<Rightarrow> int \<Rightarrow> gate_data list \<Rightarrow> (int \<times> i32) list" where
  "trigger_bins b off_bins ptr [] = []"
| "trigger_bins b off_bins ptr (g # gs) =
     gate_bins b off_bins ptr g @ trigger_bins b off_bins (ptr + uint (element_count g)) gs"

definition trigger_elements :: "gate_data list \<Rightarrow> int" where
  "trigger_elements gs = (\<Sum>g\<leftarrow>gs. uint (element_count g))"

fun all_bins :: "acq_buffer \<Rightarrow> u32 \<Rightarrow> int \<Rightarrow> trigger_data list \<Rightarrow> (int \<times> i32) list list" where
  "all_bins b off_bins ptr [] = []"
| "all_bins b off_bins ptr (t # ts) =
     trigger_bins b off_bins ptr (trig_gates t) #
     all_bins b off_bins (ptr + trigger_elements (trig_gates t)) ts"

text \<open>The buffer holds every element the gates speak of, and each gate's samples fit its elements.\<close>

definition gate_fits :: "gate_data \<Rightarrow> bool" where
  "gate_fits g \<longleftrightarrow> uint (gate_start_sample_pos g) + int (gate_length g) \<le> 2 * uint (element_count g)"

definition trigger_sound :: "u32 \<Rightarrow> trigger_data \<Rightarrow> bool" where
  "trigger_sound off_bins t \<longleftrightarrow>
     gates_in_order 0 (trig_gates t) \<and> (\<forall>g \<in> set (trig_gates t). gate_fits g)"

definition buffer_holds :: "acq_buffer \<Rightarrow> trigger_data list \<Rightarrow> bool" where
  "buffer_holds b ts \<longleftrightarrow>
     0 \<le> get_raw_unprocessed b \<and> int (length (buf_data b)) < 2147483648 \<and>
     get_raw_unprocessed b + (\<Sum>t\<leftarrow>ts. trigger_elements (trig_gates t)) \<le> int (length (buf_data b))"

lemma fetch_sample_value:
  assumes "0 \<le> i" "i \<le> 2147483647" "0 \<le> ptr" "ptr + i div 2 < int (length (buf_data b))"
  shows "fetch_sample b ptr i = Inr (sample_value b ptr i)"
  using assms by (simp add: fetch_sample_def read_at_def c_half_def sample_value_def)

lemma sample_loop_value:
  assumes "0 \<le> i" "i + int n \<le> 2147483648" "0 \<le> ptr"
    and "i + int n \<le> 2 * (int (length (buf_data b)) - ptr)"
  shows "sample_loop b ptr i n acc =
    Inr (fold store_sample (map (\<lambda>j. sample_value b ptr (i + int j)) [0 ..< n]) acc)"
  using assms
proof (induction n arbitrary: i acc)
  case 0
  then show ?case by simp
next
  case (Suc n)
  have here: "fetch_sample b ptr i = Inr (sample_value b ptr i)"
  proof (rule fetch_sample_value)
    show "ptr + i div 2 < int (length (buf_data b))"
      using Suc.prems(4) by simp
  qed (use Suc.prems in simp_all)
  have shift: "map (\<lambda>j. sample_value b ptr (i + int j)) [0 ..< Suc n] =
      sample_value b ptr i # map (\<lambda>j. sample_value b ptr (i + 1 + int j)) [0 ..< n]"
    by (simp add: upt_conv_Cons map_Suc_upt [symmetric] algebra_simps del: upt_Suc)
  have "sample_loop b ptr (i + 1) n (store_sample (sample_value b ptr i) acc) =
      Inr (fold store_sample (map (\<lambda>j. sample_value b ptr (i + 1 + int j)) [0 ..< n])
        (store_sample (sample_value b ptr i) acc))"
    by (rule Suc.IH) (use Suc.prems in linarith)+
  with here shift show ?case by simp
qed

lemma store_fold_samples:
  "encoded_samples (fold store_sample vs acc) = encoded_samples acc @ vs"
  "acc_zero (fold store_sample vs acc) = acc_zero acc"
  "acc_non_zero (fold store_sample vs acc) = acc_non_zero acc + of_nat (length vs)"
  by (induction vs arbitrary: acc) (auto simp: store_sample_def Let_def)

lemma push_gap_end:
  assumes "0 \<le> sint g"
  shows "end_bin k (encoded_samples (push_gap g acc)) = end_bin k (encoded_samples acc) + sint g"
    and "decode_spectrum k (encoded_samples (push_gap g acc)) = decode_spectrum k (encoded_samples acc)"
proof -
  have "sint (- g) = - sint g"
    using assms by (simp add: sint32_minus)
  moreover have "sint g = 0 \<Longrightarrow> g = 0"
    by (metis signed_word_eqI signed_0)
  moreover have "sint (- 32767 :: i32) = - 32767" "sint (- 1 :: i32) = - 1" "sint (32768 :: i32) = 32768"
    by simp_all
  ultimately show "end_bin k (encoded_samples (push_gap g acc)) = end_bin k (encoded_samples acc) + sint g"
    and "decode_spectrum k (encoded_samples (push_gap g acc)) = decode_spectrum k (encoded_samples acc)"
    using assms by (auto simp: push_gap_def decode_append word_sless_alt)
qed

section \<open>The base peak\<close>

definition bin_tracked :: "scan_acc \<Rightarrow> bool" where
  "bin_tracked acc \<longleftrightarrow> sint (acc_non_zero acc + acc_zero acc) = end_bin 0 (encoded_samples acc)"

definition peak_placed :: "scan_acc \<Rightarrow> bool" where
  "peak_placed acc \<longleftrightarrow>
     acc_bpi acc = 0 \<and> acc_index_max acc = 0 \<or>
     (\<exists>v. (sint (acc_index_max acc), v) \<in> set (decode_spectrum 0 (encoded_samples acc)) \<and>
          sint v = sint (acc_bpi acc))"

lemma store_tracked:
  assumes "bin_tracked acc" "peak_placed acc" "0 \<le> sint v"
    and "0 \<le> end_bin 0 (encoded_samples acc)" "end_bin 0 (encoded_samples acc) < 2147483647"
  shows "bin_tracked (store_sample v acc) \<and> peak_placed (store_sample v acc)"
proof
  let ?k = "acc_non_zero acc + acc_zero acc"
  have k: "sint ?k = end_bin 0 (encoded_samples acc)"
    using assms(1) by (simp add: bin_tracked_def)
  have "sint (?k + 1) = sint ?k + 1"
    using assms(4,5) k by (simp add: sint32_add)
  moreover have "acc_non_zero acc + 1 + acc_zero acc = ?k + 1"
    by simp
  ultimately show "bin_tracked (store_sample v acc)"
    using assms(3) k by (simp add: bin_tracked_def store_sample_def Let_def ac_simps)
  show "peak_placed (store_sample v acc)"
  proof (cases "sint (acc_bpi acc) < sint v")
    case True
    with k assms(3) show ?thesis
      by (auto simp: peak_placed_def store_sample_def Let_def sless_scast decode_append)
  next
    case False
    with assms(2,3) show ?thesis
      by (auto simp: peak_placed_def store_sample_def Let_def sless_scast decode_append)
  qed
qed

lemma store_fold_tracked:
  assumes "bin_tracked acc" "peak_placed acc" "\<And>v. v \<in> set vs \<Longrightarrow> 0 \<le> sint v"
    and "0 \<le> end_bin 0 (encoded_samples acc)"
    and "end_bin 0 (encoded_samples acc) + int (length vs) \<le> 2147483647"
  shows "bin_tracked (fold store_sample vs acc) \<and> peak_placed (fold store_sample vs acc)"
  using assms
proof (induction vs arbitrary: acc)
  case Nil
  then show ?case by simp
next
  case (Cons v vs)
  have v: "0 \<le> sint v" using Cons.prems(3) by simp
  have step: "bin_tracked (store_sample v acc) \<and> peak_placed (store_sample v acc)"
    by (rule store_tracked) (use Cons.prems v in auto)
  have "end_bin 0 (encoded_samples (store_sample v acc)) = end_bin 0 (encoded_samples acc) + 1"
    using v by (simp add: store_sample_def Let_def)
  with step Cons.prems v have "bin_tracked (fold store_sample vs (store_sample v acc)) \<and>
      peak_placed (fold store_sample vs (store_sample v acc))"
    by (intro Cons.IH) auto
  then show ?case by simp
qed

lemma gap_tracked:
  assumes "bin_tracked acc" "peak_placed acc" "0 \<le> sint g"
    and "0 \<le> end_bin 0 (encoded_samples acc)" "end_bin 0 (encoded_samples acc) + sint g < 2147483648"
  shows "bin_tracked (push_gap g acc) \<and> peak_placed (push_gap g acc)"
proof -
  have "sint (acc_non_zero acc + acc_zero acc + g) = sint (acc_non_zero acc + acc_zero acc) + sint g"
    using assms by (simp add: bin_tracked_def sint32_add)
  then show ?thesis
    using assms push_gap_end [OF assms(3), of 0 acc]
    by (simp add: bin_tracked_def peak_placed_def)
      (simp add: push_gap_def add.assoc)
qed

section \<open>One gate\<close>

text \<open>
  The state between gates: \<open>offset\<close> elements of the buffer are consumed and the encoding
  has reached \<open>bin\<close>.
\<close>

definition scan_at :: "int \<Rightarrow> scan_acc \<Rightarrow> bool" where
  "scan_at bin acc \<longleftrightarrow>
     end_bin 0 (encoded_samples acc) = bin \<and> bin_tracked acc \<and> peak_placed acc"

definition bin_before :: "u32 \<Rightarrow> gate_data option \<Rightarrow> int" where
  "bin_before off_bins prev =
     (case prev of None \<Rightarrow> 0 | Some pg \<Rightarrow> uint (get_stop_sample_index pg) + uint off_bins)"

definition lowest_start :: "gate_data option \<Rightarrow> int" where
  "lowest_start prev = (case prev of None \<Rightarrow> 0 | Some pg \<Rightarrow> uint (get_stop_sample_index pg))"

lemma gate_in_order_sizes:
  assumes "gate_in_order lo g"
  shows "uint (get_start_sample_index g) + int (gate_length g) = uint (get_stop_sample_index g)"
    and "sint (gate_samples g) = int (gate_length g)"
    and "0 < gate_length g" and "sint (gate_start_sample_pos g :: i32) = uint (gate_start_sample_pos g)"
    and "sint (ucast (gate_start_sample_pos g) + gate_samples g) =
         uint (gate_start_sample_pos g) + int (gate_length g)"
proof -
  let ?a = "get_start_sample_index g" and ?b = "get_stop_sample_index g"
  have ord: "uint ?a < uint ?b" "uint ?b < 1073741824"
    using assms by (auto simp: gate_in_order_def max_bin_def word_less_def)
  then have diff: "uint (?b - ?a) = uint ?b - uint ?a"
    by (simp add: uint64_sub)
  have len: "int (gate_length g) = uint ?b - uint ?a"
    using diff by (simp add: gate_length_def)
  then show "uint ?a + int (gate_length g) = uint ?b" "0 < gate_length g"
    using ord by simp_all
  have samples: "uint (gate_samples g) = int (gate_length g)"
    using diff len by (simp add: gate_samples_def)
  moreover have small: "uint ?b - uint ?a < 1073741824"
    using ord uint64_range(1) [of ?a] by linarith
  ultimately show "sint (gate_samples g) = int (gate_length g)"
    using len by (simp add: sint64_uint)
  have pos: "uint (gate_start_sample_pos g) \<le> 8"
    using assms by (simp add: gate_in_order_def)
  then show "sint (gate_start_sample_pos g :: i32) = uint (gate_start_sample_pos g)"
    by (simp add: sint32_uint)
  have "uint (ucast (gate_start_sample_pos g) + gate_samples g) =
      uint (gate_start_sample_pos g) + int (gate_length g)"
    using pos samples small len by (simp add: uint64_add)
  then show "sint (ucast (gate_start_sample_pos g) + gate_samples g) =
      uint (gate_start_sample_pos g) + int (gate_length g)"
    using pos small len by (simp add: sint64_uint)
qed

lemma gate_gap_value:
  assumes "gate_in_order (lowest_start prev) g" "uint off_bins < max_bin"
  shows "sint (gate_zero_count off_bins prev g) =
    uint (get_start_sample_index g) + uint off_bins - bin_before off_bins prev"
proof (cases prev)
  case None
  have lt: "uint (get_start_sample_index g) < 1073741824"
    using assms(1) by (auto simp: gate_in_order_def max_bin_def word_less_def)
  then have "uint (get_start_sample_index g + ucast off_bins) =
      uint (get_start_sample_index g) + uint off_bins"
    using assms(2) by (simp add: uint64_add max_bin_def)
  with lt None assms(2) show ?thesis
    by (simp add: gate_zero_count_def bin_before_def sint_ucast_64_32 max_bin_def)
next
  case (Some pg)
  have lt: "uint (get_start_sample_index g) < 1073741824"
    and le: "uint (get_stop_sample_index pg) \<le> uint (get_start_sample_index g)"
    using assms(1) Some by (auto simp: gate_in_order_def max_bin_def word_less_def lowest_start_def)
  then have "uint (get_start_sample_index g - get_stop_sample_index pg) =
      uint (get_start_sample_index g) - uint (get_stop_sample_index pg)"
    by (simp add: uint64_sub)
  moreover have "uint (get_start_sample_index g) - uint (get_stop_sample_index pg) < 2147483648"
    using lt uint64_range(1) [of "get_stop_sample_index pg"] by linarith
  ultimately show ?thesis
    using Some by (simp add: gate_zero_count_def bin_before_def sint_ucast_64_32)
qed

lemma gate_step_places:
  assumes ord: "gate_in_order (lowest_start prev) g" and fits: "gate_fits g"
    and off: "uint off_bins < max_bin"
    and at: "scan_at (bin_before off_bins prev) acc"
    and ptr: "ptr = get_raw_unprocessed b + sint offset" "0 \<le> get_raw_unprocessed b" "0 \<le> sint offset"
    and room: "ptr + uint (element_count g) \<le> int (length (buf_data b))"
      "int (length (buf_data b)) < 2147483648"
  shows "\<exists>acc'. gate_step b off_bins prev g (offset, acc) = Inr (offset + element_count g, acc') \<and>
    scan_at (bin_before off_bins (Some g)) acc' \<and>
    decode_spectrum 0 (encoded_samples acc') =
      decode_spectrum 0 (encoded_samples acc) @ gate_bins b off_bins ptr g"
proof -
  let ?gap = "gate_zero_count off_bins prev g" and ?pos = "uint (gate_start_sample_pos g)"
  let ?vs = "map (\<lambda>j. sample_value b ptr (?pos + int j)) [0 ..< gate_length g]"
  let ?acc1 = "push_gap ?gap acc"
  note sizes = gate_in_order_sizes [OF ord]
  have gap: "sint ?gap = uint (get_start_sample_index g) + uint off_bins - bin_before off_bins prev"
    using ord off by (rule gate_gap_value)
  have before: "0 \<le> bin_before off_bins prev"
      "bin_before off_bins prev \<le> uint (get_start_sample_index g) + uint off_bins"
    using ord by (auto simp: bin_before_def lowest_start_def gate_in_order_def split: option.splits)
  then have gap_pos: "0 \<le> sint ?gap" using gap by simp
  have stop: "uint (get_stop_sample_index g) < 1073741824" "get_start_sample_index g < get_stop_sample_index g"
    using ord by (simp_all add: gate_in_order_def max_bin_def)
  have at1: "end_bin 0 (encoded_samples ?acc1) = uint (get_start_sample_index g) + uint off_bins"
    using push_gap_end(1) [OF gap_pos, of 0 acc] at gap by (simp add: scan_at_def)
  have track1: "bin_tracked ?acc1 \<and> peak_placed ?acc1"
    using at before gap gap_pos sizes(1) stop off
    by (intro gap_tracked) (auto simp: scan_at_def max_bin_def)
  have nonneg: "0 \<le> sint v" if "v \<in> set ?vs" for v
    using that by (auto simp: sample_value_def sint_unpack)
  have vs: "end_bin k ?vs = k + int (gate_length g)" "decode_spectrum k ?vs = enumerate_bins k ?vs" for k
    using end_bin_nonneg [of ?vs k, OF nonneg] decode_nonneg [of ?vs k, OF nonneg] by simp_all
  have fit: "?pos + int (gate_length g) \<le> 2 * uint (element_count g)" "?pos \<le> 8"
    using fits ord by (simp_all add: gate_fits_def gate_in_order_def)
  have "?pos + int (gate_length g) \<le> 2147483648"
    using fit(2) sizes(1) stop(1) uint64_range(1) [of "get_start_sample_index g"] by linarith
  then have loop: "sample_loop b ptr ?pos (gate_length g) ?acc1 = Inr (fold store_sample ?vs ?acc1)"
    using fit room ptr by (intro sample_loop_value) auto
  have step: "gate_step b off_bins prev g (offset, acc) =
      Inr (offset + element_count g, fold store_sample ?vs ?acc1)"
    using stop(2) loop sizes(4,5) ptr(1) by (simp add: gate_step_def Let_def not_le [symmetric])
  have lengths: "int (length ?vs) = int (gate_length g)" by simp
  have "end_bin 0 (encoded_samples (fold store_sample ?vs ?acc1)) = bin_before off_bins (Some g)"
    using at1 vs(1) sizes(1) by (simp add: store_fold_samples bin_before_def)
  moreover have "bin_tracked (fold store_sample ?vs ?acc1) \<and> peak_placed (fold store_sample ?vs ?acc1)"
    using track1 nonneg at1 sizes(1) stop(1) off lengths
    by (intro store_fold_tracked) (auto simp: max_bin_def)
  moreover have "decode_spectrum 0 (encoded_samples (fold store_sample ?vs ?acc1)) =
      decode_spectrum 0 (encoded_samples acc) @ gate_bins b off_bins ptr g"
    using push_gap_end(2) [OF gap_pos, of 0 acc] at1 vs(2)
    by (simp add: store_fold_samples decode_append enumerate_bins_def gate_bins_def)
  ultimately show ?thesis
    using step by (auto simp: scan_at_def)
qed

lemma offset_advance:
  assumes "0 \<le> sint (offset :: i32)" "sint offset + uint n < 2147483648"
  shows "sint (offset + n) = sint offset + uint n"
proof -
  have "sint n = uint n"
    using assms uint32_range(1) [of n] by (intro sint32_uint) linarith
  with assms uint32_range(1) [of n] show ?thesis
    using sint32_add [of offset n] by linarith
qed

lemma gates_loop_places:
  assumes "gates_in_order (lowest_start prev) gs" "\<forall>g \<in> set gs. gate_fits g"
    and "uint off_bins < max_bin" "scan_at (bin_before off_bins prev) acc"
    and "0 \<le> get_raw_unprocessed b" "0 \<le> sint offset"
    and "get_raw_unprocessed b + sint offset + trigger_elements gs \<le> int (length (buf_data b))"
      "int (length (buf_data b)) < 2147483648"
  shows "\<exists>offset' acc'. gates_loop b off_bins prev gs (offset, acc) = Inr (offset', acc') \<and>
    sint offset' = sint offset + trigger_elements gs \<and>
    peak_placed acc' \<and>
    decode_spectrum 0 (encoded_samples acc') = decode_spectrum 0 (encoded_samples acc) @
      trigger_bins b off_bins (get_raw_unprocessed b + sint offset) gs"
  using assms
proof (induction gs arbitrary: prev offset acc)
  case Nil
  then show ?case by (simp add: trigger_elements_def scan_at_def)
next
  case (Cons g gs)
  let ?ptr = "get_raw_unprocessed b + sint offset"
  have tail: "0 \<le> trigger_elements gs"
    by (auto simp: trigger_elements_def intro!: sum_list_nonneg)
  have room: "?ptr + uint (element_count g) + trigger_elements gs \<le> int (length (buf_data b))"
    using Cons.prems(7) by (simp add: trigger_elements_def)
  from Cons.prems room tail obtain acc1 where
    step: "gate_step b off_bins prev g (offset, acc) = Inr (offset + element_count g, acc1)"
    and at: "scan_at (bin_before off_bins (Some g)) acc1"
    and dec: "decode_spectrum 0 (encoded_samples acc1) =
      decode_spectrum 0 (encoded_samples acc) @ gate_bins b off_bins ?ptr g"
    using gate_step_places [of prev g off_bins acc ?ptr b offset] by fastforce
  have adv: "sint (offset + element_count g) = sint offset + uint (element_count g)"
    using Cons.prems(5-8) room tail by (intro offset_advance) linarith+
  have "\<exists>offset' acc'. gates_loop b off_bins (Some g) gs (offset + element_count g, acc1) = Inr (offset', acc') \<and>
    sint offset' = sint (offset + element_count g) + trigger_elements gs \<and>
    peak_placed acc' \<and>
    decode_spectrum 0 (encoded_samples acc') = decode_spectrum 0 (encoded_samples acc1) @
      trigger_bins b off_bins (get_raw_unprocessed b + sint (offset + element_count g)) gs"
    using Cons.prems at adv room uint32_range(1) [of "element_count g"]
    by (intro Cons.IH) (auto simp: lowest_start_def)
  then show ?case
    using step dec adv by (auto simp: trigger_elements_def algebra_simps)
qed

section \<open>All triggers of a record\<close>

lemma reserve_fold:
  assumes "gates_in_order lo gs" "0 \<le> lo" "lo < max_bin" "0 \<le> sint r" "sint r \<le> lo"
  shows "sint (foldl reserve_step r gs) = sint r + int (sum_list (map gate_length gs)) \<and>
    lo + int (sum_list (map gate_length gs)) < max_bin \<and>
    length gs \<le> sum_list (map gate_length gs)"
  using assms
proof (induction gs arbitrary: lo r)
  case Nil
  then show ?case by simp
next
  case (Cons g gs)
  have ord: "gate_in_order lo g" and rest: "gates_in_order (uint (get_stop_sample_index g)) gs"
    using Cons.prems(1) by simp_all
  note sizes = gate_in_order_sizes [OF ord]
  have lim: "uint (get_stop_sample_index g) < max_bin" "lo \<le> uint (get_start_sample_index g)"
    using ord by (simp_all add: gate_in_order_def)
  have add: "sint (scast r + gate_samples g :: i64) = sint r + int (gate_length g)"
    using sizes(1,2) lim Cons.prems(4,5)
    by (simp add: sint_word_add max_bin_def)
  then have "uint (scast r + gate_samples g :: i64) = sint r + int (gate_length g)"
    using Cons.prems(4) by (simp add: uint_of_nonneg_sint)
  then have step: "sint (reserve_step r g) = sint r + int (gate_length g)"
    using sizes lim Cons.prems(4,5)
    by (simp add: reserve_step_def word_sless_alt sint_ucast_64_32 max_bin_def)
  have "sint (foldl reserve_step (reserve_step r g) gs) =
      sint (reserve_step r g) + int (sum_list (map gate_length gs)) \<and>
    uint (get_stop_sample_index g) + int (sum_list (map gate_length gs)) < max_bin \<and>
    length gs \<le> sum_list (map gate_length gs)"
    using rest lim step sizes(1) Cons.prems by (intro Cons.IH) auto
  with step sizes(1,3) lim(2) show ?case by simp
qed

lemma check_reserve_in_order:
  assumes "gates_in_order 0 gs"
  shows "check_reserve gs = Inr ()"
proof -
  let ?s = "int (sum_list (map gate_length gs))"
  have f: "sint (foldl reserve_step 0 gs) = ?s" "?s < max_bin" "length gs \<le> sum_list (map gate_length gs)"
    using reserve_fold [OF assms, of 0] by (simp_all add: max_bin_def)
  have len: "int (length gs) < 1073741824"
    using f(2,3) by (simp add: max_bin_def)
  then have "sint (of_nat (length gs) :: i32) = int (length gs)"
    by (simp add: signed_of_nat)
  then have "sint (foldl reserve_step 0 gs + of_nat (length gs) :: i32) = ?s + int (length gs)"
    using f len by (simp add: sint_word_add max_bin_def)
  then show ?thesis
    using f len by (simp add: check_reserve_def Let_def word_le_def uint_scast_32_64 max_vector_size_def max_bin_def)
qed

lemma scan_at_new: "scan_at 0 new_scan_acc"
  by (simp add: scan_at_def new_scan_acc_def bin_tracked_def peak_placed_def)

definition peak_ok :: "encoded_result \<Rightarrow> bool" where
  "peak_ok er \<longleftrightarrow>
     er_bpi er = 0 \<and> index_max_intensity er = 0 \<or>
     (\<exists>v. (sint (index_max_intensity er), v) \<in> set (decode_spectrum 0 (encoded_spectra er)) \<and>
          sint v = sint (er_bpi er))"

lemma process_stamps_places:
  assumes "\<forall>t \<in> set ts. trigger_sound off_bins t" "uint off_bins < max_bin"
    and "0 \<le> get_raw_unprocessed b" "0 \<le> sint offset"
    and "get_raw_unprocessed b + sint offset + (\<Sum>t\<leftarrow>ts. trigger_elements (trig_gates t)) \<le>
      int (length (buf_data b))"
    and "int (length (buf_data b)) < 2147483648"
  shows "\<exists>rs. process_stamps b off_bins first n ts offset = Inr rs \<and>
    map (\<lambda>er. decode_spectrum 0 (encoded_spectra er)) rs =
      all_bins b off_bins (get_raw_unprocessed b + sint offset) ts \<and>
    (\<forall>er \<in> set rs. peak_ok er)"
  using assms
proof (induction ts arbitrary: n offset)
  case Nil
  then show ?case by simp
next
  case (Cons t ts)
  have elems: "0 \<le> (\<Sum>t\<leftarrow>ts. trigger_elements (trig_gates t))"
    by (auto simp: trigger_elements_def intro!: sum_list_nonneg)
  have sound: "gates_in_order 0 (trig_gates t)" "\<forall>g \<in> set (trig_gates t). gate_fits g"
    using Cons.prems(1) by (simp_all add: trigger_sound_def)
  have room: "get_raw_unprocessed b + sint offset + trigger_elements (trig_gates t) \<le> int (length (buf_data b))"
    using Cons.prems(5) elems by simp
  obtain offset' acc' where loop:
      "gates_loop b off_bins None (trig_gates t) (offset, new_scan_acc) = Inr (offset', acc')"
    and offset': "sint offset' = sint offset + trigger_elements (trig_gates t)"
    and peak: "peak_placed acc'"
    and dec: "decode_spectrum 0 (encoded_samples acc') =
      trigger_bins b off_bins (get_raw_unprocessed b + sint offset) (trig_gates t)"
    using gates_loop_places [of None "trig_gates t" off_bins new_scan_acc b offset]
      sound Cons.prems(2-4,6) room scan_at_new
    by (auto simp: lowest_start_def bin_before_def new_scan_acc_def)
  have "0 \<le> trigger_elements (trig_gates t)"
    by (auto simp: trigger_elements_def intro!: sum_list_nonneg)
  then have "\<exists>rs. process_stamps b off_bins first (Suc n) ts offset' = Inr rs \<and>
    map (\<lambda>er. decode_spectrum 0 (encoded_spectra er)) rs =
      all_bins b off_bins (get_raw_unprocessed b + sint offset') ts \<and>
    (\<forall>er \<in> set rs. peak_ok er)"
    using Cons.prems offset' by (intro Cons.IH) (auto simp: algebra_simps)
  with loop offset' dec peak check_reserve_in_order [OF sound(1)] show ?case
    by (auto simp: make_result_def peak_ok_def peak_placed_def algebra_simps)
qed

section \<open>Properties\<close>

text \<open>C5: for gates in order whose elements are in the buffer, \<open>process\<close> returns, and
  decoding each scan's encoded spectrum gives exactly the samples of its gates, each at the bin
  \<open>start index + offset_bins + k\<close>: nothing is lost, moved or read from another gate's
  elements.\<close>

theorem process_places_every_sample:
  assumes "\<forall>t \<in> set (stamps (acquiredData r)). trigger_sound (offset_bins (rec_parameters r)) t"
    and "uint (offset_bins (rec_parameters r)) < max_bin"
    and "buffer_holds b (stamps (acquiredData r))"
  shows "\<exists>rs. process b r = Inr rs \<and>
    map (\<lambda>er. decode_spectrum 0 (encoded_spectra er)) rs =
      all_bins b (offset_bins (rec_parameters r)) (get_raw_unprocessed b) (stamps (acquiredData r))"
  using process_stamps_places [OF assms(1,2), of b 0 "start_scan_index r" 0] assms(3)
  by (auto simp: process_def buffer_holds_def)

definition sample_gate :: gate_data where
  "sample_gate = \<lparr>gate_start_block_index = 1, gate_start_sample_pos = 2,
     gate_stop_block_index = 2, gate_stop_sample_pos = 4, element_count = 16\<rparr>"

definition sample_buffer :: acq_buffer where
  "sample_buffer = \<lparr>buf_data = [0, 327681, 65535, 3, 0, 0, 0, 0, 0, 0, 0, 0, 0, 0, 0, 0, 0, 0],
     acquired_index = 16, processed_index = 0, buf_offset = 0,
     buf_max_triggers_per_read = 1, buf_samples_per_trigger = 32\<rparr>"

definition sample_record :: uimf_acquisition_record where
  "sample_record =
     \<lparr>rec_parameters = \<lparr>start_trigger = 0, nbr_samples = 0, nbr_accumulations = 0,
        frame_length = 1, frame_number = 1, offset_bins = 100, file_name = []\<rparr>,
      acquiredData = \<lparr>samples_slot = 0,
        stamps = [\<lparr>trig_timestamp = 7, trig_subsample_pos = 0, trig_index = 1,
                   trig_gates = [sample_gate]\<rparr>],
        samples_count = 32\<rparr>,
      start_scan_index = 5\<rparr>"

lemmas sample_defs = sample_gate_def sample_buffer_def sample_record_def

lemmas index_defs = get_start_sample_index_def get_stop_sample_index_def processing_block_size_def

lemma sample_record_sound:
  "\<forall>t \<in> set (stamps (acquiredData sample_record)).
     trigger_sound (offset_bins (rec_parameters sample_record)) t"
  "uint (offset_bins (rec_parameters sample_record)) < max_bin"
  "buffer_holds sample_buffer (stamps (acquiredData sample_record))"
  by (simp_all add: sample_defs trigger_sound_def gate_in_order_def gate_fits_def gate_length_def
      index_defs max_bin_def buffer_holds_def trigger_elements_def get_raw_unprocessed_def)

theorem process_places_every_sample_witness:
  "\<exists>rs. process sample_buffer sample_record = Inr rs \<and>
    map (\<lambda>er. decode_spectrum 0 (encoded_spectra er)) rs = [[(102, 32769), (103, 32773)]]"
  using process_places_every_sample [OF sample_record_sound]
  by (simp add: sample_defs gate_bins_def gate_length_def index_defs get_raw_unprocessed_def
      sample_value_def unpack_sample_def range_shift_constant_def upt_rec)

text \<open>C39: whatever the gates are, each scan \<open>process\<close> returns has no run length of
  -32768 and no value above 65535; its non-zero count, its total ion current and its base peak are
  the number, the sum and the maximum of the intensities it encodes; the scans keep their triggers'
  timestamps and are numbered from the record's first scan.\<close>

theorem process_summaries:
  assumes "process b r = Inr rs"
  shows "list_all2 (\<lambda>trig er. er_timestamp er = trig_timestamp trig \<and> scan_ok er)
      (stamps (acquiredData r)) rs \<and>
    map er_scan rs =
      map (\<lambda>i. ucast (start_scan_index r + of_nat i)) [0 ..< length (stamps (acquiredData r))]"
  using process_stamps_ok [of b "offset_bins (rec_parameters r)" "start_scan_index r" 0
      "stamps (acquiredData r)" 0 rs] assms
  by (simp add: process_def)

theorem process_summaries_witness:
  "\<exists>rs. process sample_buffer sample_record = Inr rs \<and> map er_scan rs = [5]"
proof -
  obtain rs where rs: "process sample_buffer sample_record = Inr rs"
    using process_stamps_places [OF sample_record_sound(1,2), of sample_buffer 0 5 0]
      sample_record_sound(3)
    by (auto simp: process_def buffer_holds_def sample_record_def)
  from process_summaries [OF rs] rs show ?thesis
    by (auto simp: sample_record_def)
qed

text \<open>for gates in order, \<open>index_max_intensity\<close> of every scan is the bin at which
  decoding the scan finds a sample of the base-peak intensity (and 0 when no sample exceeds
  zero).\<close>

theorem process_base_peak_bin:
  assumes "\<forall>t \<in> set (stamps (acquiredData r)). trigger_sound (offset_bins (rec_parameters r)) t"
    and "uint (offset_bins (rec_parameters r)) < max_bin"
    and "buffer_holds b (stamps (acquiredData r))"
    and "process b r = Inr rs" and "er \<in> set rs"
  shows "er_bpi er = 0 \<and> index_max_intensity er = 0 \<or>
    (\<exists>v. (sint (index_max_intensity er), v) \<in> set (decode_spectrum 0 (encoded_spectra er)) \<and>
         sint v = sint (er_bpi er))"
  using process_stamps_places [OF assms(1,2), of b 0 "start_scan_index r" 0] assms(3-5)
  by (auto simp: process_def buffer_holds_def peak_ok_def)

theorem process_base_peak_bin_witness:
  "\<exists>rs. process sample_buffer sample_record = Inr rs \<and>
    (\<forall>er \<in> set rs. er_bpi er = 0 \<and> index_max_intensity er = 0 \<or>
      (\<exists>v. (sint (index_max_intensity er), v) \<in> set (decode_spectrum 0 (encoded_spectra er)) \<and>
           sint v = sint (er_bpi er)))"
proof -
  obtain rs where rs: "process sample_buffer sample_record = Inr rs"
    using process_stamps_places [OF sample_record_sound(1,2), of sample_buffer 0 5 0]
      sample_record_sound(3)
    by (auto simp: process_def buffer_holds_def sample_record_def)
  with process_base_peak_bin [OF sample_record_sound rs] show ?thesis by blast
qed

text \<open>
  A gate of no samples is skipped, but the next gate measures its gap from the skipped gate's stop
  index. When the skipped gate is the trigger's first, the post-trigger offset is never written: the
  scan below has its only two samples at bins 2 and 3 where \<open>offset_bins = 100\<close> asks for
  102 and 103.
\<close>

definition empty_gate :: gate_data where
  "empty_gate = \<lparr>gate_start_block_index = 1, gate_start_sample_pos = 0,
     gate_stop_block_index = 1, gate_stop_sample_pos = 8, element_count = 0\<rparr>"

theorem empty_first_gate_loses_offset:
  "(case process_stamps sample_buffer 100 0 0
      [\<lparr>trig_timestamp = 7, trig_subsample_pos = 0, trig_index = 1,
        trig_gates = [empty_gate, sample_gate]\<rparr>] 0 of
      Inl e \<Rightarrow> [] | Inr rs \<Rightarrow> map (\<lambda>er. decode_spectrum 0 (encoded_spectra er)) rs) =
   [[(2, 32769), (3, 32773)]]"
  by code_simp

end
