(* ===== verification/Zmq_Subscriber.thy ===== *)
theory Zmq_Subscriber
  imports Acquired_Data
begin

text \<open>
  \<open>ZmqAcquiredDataSubscriber\<close>: the summing of a batch of scans into one spectrum for the
  data topic, and the two reports it makes on the status topic. The serialisation of a
  \<open>Message\<close> followed by \<open>snappy::Compress\<close> is the parameter
  \<open>encode\<close>; what the subscriber sends through the publisher is the list of its
  publications, subject and body.
\<close>

section \<open>Messages\<close>

record message =
  msg_mz :: "i32 list"
  msg_tic :: "u32 list"
  msg_time_stamps :: "u64 list"

definition empty_message :: message where
  "empty_message = \<lparr>msg_mz = [], msg_tic = [], msg_time_stamps = []\<rparr>"

type_synonym publication = "string \<times> string"

record zmq_subscriber =
  data_vector :: "i32 list"
  processed :: u64
  first_sample_floor :: i32

definition new_zmq_subscriber :: "u32 \<Rightarrow> i32 \<Rightarrow> zmq_subscriber" where
  "new_zmq_subscriber sample_count sample_floor =
     \<lparr>data_vector = replicate (unat sample_count) 0, processed = 0, first_sample_floor = sample_floor\<rparr>"

definition zmq_one_line :: "string \<Rightarrow> string" where
  "zmq_one_line text = map (\<lambda>c. if line_breaking c then CHR '' '' else c) text"

definition publish_error :: "string \<Rightarrow> publication list" where
  "publish_error text = [(''status'', ''error data: '' @ zmq_one_line text)]"

section \<open>The alignment check\<close>

text \<open>One pass over a spectrum: \<open>fresh\<close> (\<open>opening\<close> in the source) is set at its start and after each run length.\<close>

fun alignment_scan :: "i32 \<Rightarrow> i32 list \<Rightarrow> bool \<Rightarrow> u64 \<times> u64 \<Rightarrow> u64 \<times> u64" where
  "alignment_scan sample_floor [] fresh counts = counts"
| "alignment_scan sample_floor (v # vs) fresh (gates, below) =
     (if v <s 0 then alignment_scan sample_floor vs True (gates, below)
      else if fresh
        then alignment_scan sample_floor vs False
          (gates + 1, if v <s sample_floor then below + 1 else below)
        else alignment_scan sample_floor vs fresh (gates, below))"

definition alignment_counts :: "i32 \<Rightarrow> encoded_result list \<Rightarrow> u64 \<times> u64" where
  "alignment_counts sample_floor ers =
     foldl (\<lambda>counts er. alignment_scan sample_floor (encoded_spectra er) True counts) (0, 0) ers"

definition check_alignment :: "zmq_subscriber \<Rightarrow> uimf_frame \<Rightarrow> publication list" where
  "check_alignment s item =
     (let (gates, below) = alignment_counts (first_sample_floor s) (encoded_data item) in
      if below = 0 then []
      else publish_error
        (''samples misaligned ('' @ nat_to_string (unat below) @ '' of '' @ nat_to_string (unat gates)
         @ '' gates) in frame '' @ nat_to_string (unat (frame_number (frame_parameters item)))))"

section \<open>The sum\<close>

text \<open>
  The position is an \<open>int\<close> and is compared with the vector's size as an unsigned 64-bit
  value. Only a run length is checked; a value is stored wherever the position is, and storing
  outside the vector is undefined. The sum is taken in place, so an error carries the vector as the
  values before it left it.
\<close>

definition oob_error :: "i32 \<Rightarrow> exn" where
  "oob_error index = Out_of_range (''index oob error -> index: '' @ int_to_string (sint index))"

fun add_spectrum :: "i32 list \<Rightarrow> i32 \<Rightarrow> i32 list \<Rightarrow> (exn \<times> i32 list) + i32 list" where
  "add_spectrum [] index data = Inr data"
| "add_spectrum (v # vs) index data =
     (if v <s 0 then
        let index' = index + (- 1 * v) in
        if (of_nat (length data) :: u64) \<le> scast index' then Inl (oob_error index', data)
        else add_spectrum vs index' data
      else
        let k = unat (scast index :: u64) in
        if k < length data then add_spectrum vs (index + 1) (data[k := data ! k + v])
        else Inl (Undefined ''data_vector write'', data))"

text \<open>
  The loop over the batch also keeps the scan it is at, which the handler of an exception reads.
\<close>

fun add_results ::
  "encoded_result list \<Rightarrow> message \<Rightarrow> i32 list
     \<Rightarrow> (exn \<times> encoded_result \<times> i32 list) + (message \<times> i32 list)" where
  "add_results [] msg data = Inr (msg, data)"
| "add_results (er # ers) msg data =
     (let msg' = msg\<lparr>msg_tic := msg_tic msg @ [ucast (er_tic er)],
                     msg_time_stamps := msg_time_stamps msg @ [er_timestamp er]\<rparr> in
      case add_spectrum (encoded_spectra er) 0 data of
        Inl (e, data') \<Rightarrow> Inl (e, er, data')
      | Inr data' \<Rightarrow> add_results ers msg' data')"

definition refused_where :: "encoded_result \<Rightarrow> uimf_frame \<Rightarrow> string" where
  "refused_where er item =
     '' in scan '' @ int_to_string (sint (er_scan er)) @ '' of frame ''
     @ nat_to_string (unat (frame_number (frame_parameters item)))"

definition zmq_on_notify ::
  "(message \<Rightarrow> string) \<Rightarrow> uimf_frame \<Rightarrow> zmq_subscriber \<Rightarrow> (publication list \<times> zmq_subscriber) result" where
  "zmq_on_notify encode item s =
     (let report = check_alignment s item;
          cleared = replicate (length (data_vector s)) 0 in
      case add_results (encoded_data item) empty_message cleared of
        Inr (msg, data) \<Rightarrow>
          Inr (report @ [(''data'', encode (msg\<lparr>msg_mz := data\<rparr>))],
               s\<lparr>data_vector := data, processed := processed s + 1\<rparr>)
      | Inl (Undefined u, er, data) \<Rightarrow> Inl (Undefined u)
      | Inl (e, er, data) \<Rightarrow>
          Inr (report @ publish_error (what e @ refused_where er item),
               s\<lparr>data_vector := data\<rparr>))"

section \<open>The first value of every gate\<close>

text \<open>
  The specification of the check: the gates of a spectrum are its maximal runs of intensities, and
  \<open>opening_values\<close> lists the first intensity of each.
\<close>

fun opening_values :: "bool \<Rightarrow> i32 list \<Rightarrow> i32 list" where
  "opening_values fresh [] = []"
| "opening_values fresh (v # vs) =
     (if sint v < 0 then opening_values True vs
      else if fresh then v # opening_values False vs else opening_values False vs)"

definition batch_openings :: "encoded_result list \<Rightarrow> i32 list" where
  "batch_openings ers = concat (map (\<lambda>er. opening_values True (encoded_spectra er)) ers)"

definition below_floor :: "i32 \<Rightarrow> i32 list \<Rightarrow> i32 list" where
  "below_floor sample_floor vs = filter (\<lambda>v. sint v < sint sample_floor) vs"

lemma alignment_scan_counts:
  "alignment_scan fl vs fresh (g, b) =
     (g + of_nat (length (opening_values fresh vs)),
      b + of_nat (length (below_floor fl (opening_values fresh vs))))"
  by (induction vs arbitrary: fresh g b) (auto simp: below_floor_def word_sless_alt)

lemma alignment_fold:
  "foldl (\<lambda>counts er. alignment_scan fl (encoded_spectra er) True counts) (g, b) ers =
     (g + of_nat (length (batch_openings ers)), b + of_nat (length (below_floor fl (batch_openings ers))))"
  by (induction ers arbitrary: g b)
    (auto simp: alignment_scan_counts batch_openings_def below_floor_def)

lemma alignment_counts_openings:
  "alignment_counts fl ers =
     (of_nat (length (batch_openings ers)), of_nat (length (below_floor fl (batch_openings ers))))"
  by (simp add: alignment_counts_def alignment_fold)

section \<open>The sum of a batch\<close>

text \<open>A spectrum stays inside \<open>n\<close> bins: every run length ends, and every value lands, below \<open>n\<close>.\<close>

fun spectrum_inside :: "nat \<Rightarrow> int \<Rightarrow> i32 list \<Rightarrow> bool" where
  "spectrum_inside n k [] = True"
| "spectrum_inside n k (v # vs) =
     (if sint v < 0 then k - sint v < int n \<and> spectrum_inside n (k - sint v) vs
      else k < int n \<and> spectrum_inside n (k + 1) vs)"

definition column_sum :: "(int \<times> i32) list \<Rightarrow> nat \<Rightarrow> i32" where
  "column_sum bins k = (\<Sum>kv\<leftarrow>filter (\<lambda>kv. fst kv = int k) bins. snd kv)"

definition add_columns :: "(int \<times> i32) list \<Rightarrow> i32 list \<Rightarrow> i32 list" where
  "add_columns bins data = map (\<lambda>k. data ! k + column_sum bins k) [0 ..< length data]"

lemma add_columns_Nil [simp]: "add_columns [] data = data"
  by (simp add: add_columns_def column_sum_def map_nth)

lemma length_add_columns [simp]: "length (add_columns bins data) = length data"
  by (simp add: add_columns_def)

lemma add_columns_Cons:
  "k < length data \<Longrightarrow>
   add_columns ((int k, v) # bins) data = add_columns bins (data[k := data ! k + v])"
  by (rule nth_equalityI) (auto simp: add_columns_def column_sum_def nth_list_update add.assoc)

lemma add_columns_append:
  "add_columns (xs @ ys) data = add_columns ys (add_columns xs data)"
  by (rule nth_equalityI) (auto simp: add_columns_def column_sum_def add.assoc)

lemma scast_index:
  assumes "0 \<le> k" "k < int n" "n < 2147483648" "sint (index :: i32) = k"
  shows "unat (scast index :: u64) = nat k"
    and "\<not> (of_nat n :: u64) \<le> scast index"
proof -
  have u: "uint (scast index :: u64) = k"
    using assms by (simp add: uint_scast_32_64)
  then show "unat (scast index :: u64) = nat k"
    by (metis unat_eq_nat_uint)
  show "\<not> (of_nat n :: u64) \<le> scast index"
    using u assms by (simp add: word_le_def unsigned_of_nat take_bit_nat_eq_self)
qed

text \<open>
  Adding a prefix that stays inside leaves the position at the bin the prefix ends on, whatever
  follows it.
\<close>

lemma add_spectrum_prefix:
  assumes "spectrum_inside (length data) k vs" "0 \<le> k" "k \<le> int (length data)"
    and "sint index = k" "length data < 2147483647"
  shows "\<exists>index'. sint index' = end_bin k vs \<and> 0 \<le> end_bin k vs \<and> end_bin k vs \<le> int (length data) \<and>
    add_spectrum (vs @ ys) index data = add_spectrum ys index' (add_columns (decode_spectrum k vs) data)"
  using assms
proof (induction vs arbitrary: k index data)
  case Nil
  then show ?case by auto
next
  case (Cons v vs)
  show ?case
  proof (cases "sint v < 0")
    case True
    have range: "0 \<le> k - sint v" "k - sint v < int (length data)"
      using Cons.prems True by simp_all
    have "sint (- v) = - sint v"
      using range Cons.prems by (intro sint32_minus) simp
    then have idx: "sint (index - v) = k - sint v"
      using range Cons.prems sint32_add [of index "- v"] by simp
    from scast_index(2) [OF range _ idx] Cons.prems True range
      Cons.IH [of data "k - sint v" "index - v"] idx
    show ?thesis by (simp add: Let_def)
  next
    case False
    have range: "k < int (length data)" and tail: "spectrum_inside (length data) (k + 1) vs"
      using Cons.prems False by simp_all
    have idx: "sint (index + 1) = k + 1"
      using Cons.prems by (simp add: sint32_add)
    have k: "unat (scast index :: u64) = nat k"
      using scast_index(1) [of k "length data" index] Cons.prems range by simp
    obtain m where m: "k = int m"
      using Cons.prems(2) by (metis nonneg_int_cases)
    from Cons.IH [of "data[m := data ! m + v]" "k + 1" "index + 1"] Cons.prems tail idx range k m False
    show ?thesis by (simp add: Let_def add_columns_Cons)
  qed
qed

lemma add_spectrum_inside:
  assumes "spectrum_inside (length data) k vs" "0 \<le> k" "k \<le> int (length data)"
    and "sint index = k" "length data < 2147483647"
  shows "add_spectrum vs index data = Inr (add_columns (decode_spectrum k vs) data)"
  using add_spectrum_prefix [OF assms, of "[]"] by auto

definition batch_bins :: "encoded_result list \<Rightarrow> (int \<times> i32) list" where
  "batch_bins ers = concat (map (\<lambda>er. decode_spectrum 0 (encoded_spectra er)) ers)"

definition batch_inside :: "nat \<Rightarrow> encoded_result list \<Rightarrow> bool" where
  "batch_inside n ers \<longleftrightarrow> (\<forall>er \<in> set ers. spectrum_inside n 0 (encoded_spectra er))"

lemma add_results_inside:
  assumes "batch_inside (length data) ers" "length data < 2147483647"
  shows "add_results ers msg data =
    Inr (msg\<lparr>msg_tic := msg_tic msg @ map (\<lambda>er. ucast (er_tic er)) ers,
             msg_time_stamps := msg_time_stamps msg @ map er_timestamp ers\<rparr>,
         add_columns (batch_bins ers) data)"
  using assms
proof (induction ers arbitrary: msg data)
  case Nil
  then show ?case by (simp add: batch_bins_def)
next
  case (Cons er ers)
  have "add_spectrum (encoded_spectra er) 0 data =
      Inr (add_columns (decode_spectrum 0 (encoded_spectra er)) data)"
    using Cons.prems by (intro add_spectrum_inside) (auto simp: batch_inside_def)
  with Cons show ?case
    by (simp add: Let_def batch_bins_def add_columns_append batch_inside_def)
qed

section \<open>Properties\<close>

text \<open>the subscriber reports misaligned samples exactly when some gate of the batch, that is some
  maximal run of intensities, opens below the floor, and the counts of the report are the number of
  those gates and of all gates (for batches of fewer than \<open>2 ^ 64\<close> gates).\<close>

theorem alignment_report_iff:
  assumes "length (batch_openings (encoded_data item)) < 2 ^ 64"
  shows "(check_alignment s item = [] \<longleftrightarrow>
      (\<forall>v \<in> set (batch_openings (encoded_data item)). sint (first_sample_floor s) \<le> sint v)) \<and>
    (case alignment_counts (first_sample_floor s) (encoded_data item) of (gates, below) \<Rightarrow>
      unat gates = length (batch_openings (encoded_data item)) \<and>
      unat below = length (below_floor (first_sample_floor s) (batch_openings (encoded_data item))))"
proof -
  let ?os = "batch_openings (encoded_data item)" and ?fl = "first_sample_floor s"
  have "length (below_floor ?fl ?os) \<le> length ?os"
    by (simp add: below_floor_def)
  then have small: "length (below_floor ?fl ?os) < 2 ^ 64"
    using assms by (rule order_le_less_trans)
  have zero: "(of_nat (length (below_floor ?fl ?os)) :: u64) = 0 \<longleftrightarrow> below_floor ?fl ?os = []"
    using small by (auto simp: word_of_nat_eq_0_iff dvd_imp_le)
  then have "check_alignment s item = [] \<longleftrightarrow> (\<forall>v \<in> set ?os. sint ?fl \<le> sint v)"
    by (auto simp: check_alignment_def alignment_counts_openings publish_error_def
        below_floor_def filter_empty_conv not_less)
  with assms small show ?thesis
    by (simp add: alignment_counts_openings unsigned_of_nat take_bit_nat_eq_self)
qed

definition two_scans :: "encoded_result list" where
  "two_scans =
     [\<lparr>er_timestamp = 10, encoded_spectra = [- 1, 7, 8], non_zero_count = 2, er_scan = 3,
       er_tic = 15, er_bpi = 8, index_max_intensity = 2\<rparr>,
      \<lparr>er_timestamp = 11, encoded_spectra = [- 2, 5, - 1, 4], non_zero_count = 2, er_scan = 4,
       er_tic = 9, er_bpi = 5, index_max_intensity = 2\<rparr>]"

definition sample_frame :: "encoded_result list \<Rightarrow> uimf_frame" where
  "sample_frame ers =
     \<lparr>frame_parameters = \<lparr>start_trigger = 0, nbr_samples = 0, nbr_accumulations = 0,
        frame_length = 2, frame_number = 9, offset_bins = 0, file_name = []\<rparr>,
      encoded_data = ers\<rparr>"

lemmas sample_frame_defs = sample_frame_def two_scans_def

theorem alignment_report_iff_witness:
  "check_alignment (new_zmq_subscriber 5 6) (sample_frame two_scans) \<noteq> []"
proof -
  have openings: "batch_openings (encoded_data (sample_frame two_scans)) = [7, 5, 4]"
    by (simp add: batch_openings_def sample_frame_defs)
  then show ?thesis
    using alignment_report_iff [of "sample_frame two_scans" "new_zmq_subscriber 5 6"]
    by (simp add: new_zmq_subscriber_def)
qed

lemma add_columns_zeros:
  "add_columns bins (replicate n 0) = map (column_sum bins) [0 ..< n]"
  by (rule nth_equalityI) (simp_all add: add_columns_def)

lemma zmq_publishes_sums:
  assumes "batch_inside (length (data_vector s)) (encoded_data item)"
    and "length (data_vector s) < 2147483647"
  shows "zmq_on_notify encode item s =
    Inr (check_alignment s item @
      [(''data'', encode
         \<lparr>msg_mz = map (column_sum (batch_bins (encoded_data item))) [0 ..< length (data_vector s)],
          msg_tic = map (\<lambda>er. ucast (er_tic er)) (encoded_data item),
          msg_time_stamps = map er_timestamp (encoded_data item)\<rparr>)],
      s\<lparr>data_vector := map (column_sum (batch_bins (encoded_data item))) [0 ..< length (data_vector s)],
        processed := processed s + 1\<rparr>)"
  using add_results_inside [of "replicate (length (data_vector s)) 0" "encoded_data item"] assms
  by (simp add: zmq_on_notify_def Let_def empty_message_def add_columns_zeros)

text \<open>a batch whose spectra stay inside the vector is published as exactly one data message whose
  \<open>mz\<close> is, bin by bin, the sum of the intensities every scan decodes to there, with one
  \<open>tic\<close> and one time stamp per scan in order, whatever the vector held before.\<close>

theorem zmq_publishes_column_sums:
  assumes "batch_inside (length (data_vector s)) (encoded_data item)"
    and "length (data_vector s) < 2147483647"
  shows "zmq_on_notify encode item s =
    Inr (check_alignment s item @
      [(''data'', encode
         \<lparr>msg_mz = map (column_sum (batch_bins (encoded_data item))) [0 ..< length (data_vector s)],
          msg_tic = map (\<lambda>er. ucast (er_tic er)) (encoded_data item),
          msg_time_stamps = map er_timestamp (encoded_data item)\<rparr>)],
      s\<lparr>data_vector := map (column_sum (batch_bins (encoded_data item))) [0 ..< length (data_vector s)],
        processed := processed s + 1\<rparr>)"
  using assms by (rule zmq_publishes_sums)

theorem zmq_publishes_column_sums_witness:
  "zmq_on_notify (\<lambda>m. ''m'') (sample_frame two_scans) (new_zmq_subscriber 5 3) =
    Inr ([(''data'', ''m'')],
      \<lparr>data_vector = [0, 7, 13, 0, 4], processed = 1, first_sample_floor = 3\<rparr>)"
proof -
  let ?s = "new_zmq_subscriber 5 3" and ?f = "sample_frame two_scans"
  have "batch_inside (length (data_vector ?s)) (encoded_data ?f)"
      "length (data_vector ?s) < 2147483647"
    by (simp_all add: new_zmq_subscriber_def batch_inside_def sample_frame_defs)
  from zmq_publishes_column_sums [OF this, of "\<lambda>m. ''m''"] show ?thesis
    by (simp add: new_zmq_subscriber_def sample_frame_defs check_alignment_def alignment_counts_def
        batch_bins_def column_sum_def upt_rec)
qed

text \<open>
  A run length that ends past the vector ends the loop over the batch there, with the error of that
  scan and the sums of everything before it.
\<close>

lemma add_spectrum_overrun:
  assumes "spectrum_inside (length data) 0 xs" "length data < 2147483647" "sint v < 0"
    and "int (length data) \<le> end_bin 0 xs - sint v" "end_bin 0 xs - sint v < 2147483648"
  shows "add_spectrum (xs @ v # ys) 0 data =
    Inl (Out_of_range (''index oob error -> index: '' @ int_to_string (end_bin 0 xs - sint v)),
         add_columns (decode_spectrum 0 xs) data)"
proof -
  obtain index where index: "sint index = end_bin 0 xs" "0 \<le> end_bin 0 xs"
    "add_spectrum (xs @ v # ys) 0 data =
      add_spectrum (v # ys) index (add_columns (decode_spectrum 0 xs) data)"
    using add_spectrum_prefix [of data 0 xs 0 "v # ys"] assms by auto
  have "sint (- v) = - sint v"
    using assms(5) index(2) by (intro sint32_minus) linarith
  then have idx: "sint (index - v) = end_bin 0 xs - sint v"
    using sint32_add [of index "- v"] index assms(3,5) by simp
  then have "uint (scast (index - v) :: u64) = end_bin 0 xs - sint v"
    using uint_scast_32_64 [of "index - v"] index(2) assms(3) by simp
  then have "(of_nat (length data) :: u64) \<le> scast (index - v)"
    using assms(2,4) by (simp add: word_le_def unsigned_of_nat take_bit_nat_eq_self)
  with index idx assms(3) show ?thesis
    by (simp add: Let_def oob_error_def)
qed

lemma add_results_overrun:
  assumes "batch_inside (length data) good" "length data < 2147483647"
    and "encoded_spectra er = xs @ v # ys" "spectrum_inside (length data) 0 xs" "sint v < 0"
    and "int (length data) \<le> end_bin 0 xs - sint v" "end_bin 0 xs - sint v < 2147483648"
  shows "add_results (good @ er # rest) msg data =
    Inl (Out_of_range (''index oob error -> index: '' @ int_to_string (end_bin 0 xs - sint v)), er,
         add_columns (batch_bins good @ decode_spectrum 0 xs) data)"
  using assms
proof (induction good arbitrary: msg data)
  case Nil
  then show ?case by (simp add: Let_def add_spectrum_overrun batch_bins_def)
next
  case (Cons g good)
  have "add_spectrum (encoded_spectra g) 0 data =
      Inr (add_columns (decode_spectrum 0 (encoded_spectra g)) data)"
    using Cons.prems by (intro add_spectrum_inside) (auto simp: batch_inside_def)
  with Cons show ?case
    by (simp add: Let_def batch_inside_def batch_bins_def add_columns_append)
qed

text \<open>C38: a run length that ends past the vector ends the batch: nothing is published on the data
  topic, exactly one \<open>error data:\<close> line naming the scan and the frame is added to the
  status topic, the batch does not count as processed, and the vector is left with the sums of the
  scans before the refused one and of the values before the run length, which the next batch
  clears.\<close>

theorem zmq_refuses_run_past_end:
  assumes "encoded_data item = good @ er # rest" and "batch_inside n good"
    and "n = length (data_vector s)" "n < 2147483647"
    and "encoded_spectra er = xs @ v # ys" "spectrum_inside n 0 xs" "sint v < 0"
    and "int n \<le> end_bin 0 xs - sint v" "end_bin 0 xs - sint v < 2147483648"
  shows "zmq_on_notify encode item s =
    Inr (check_alignment s item @
      publish_error (''index oob error -> index: '' @ int_to_string (end_bin 0 xs - sint v)
        @ refused_where er item),
      s\<lparr>data_vector := map (column_sum (batch_bins good @ decode_spectrum 0 xs)) [0 ..< n]\<rparr>)"
  using add_results_overrun [of "replicate n 0" good er xs v ys rest] assms
  by (simp add: zmq_on_notify_def Let_def add_columns_zeros)

definition overrun_scan :: "i32 list \<Rightarrow> encoded_result" where
  "overrun_scan spectrum =
     \<lparr>er_timestamp = 12, encoded_spectra = spectrum, non_zero_count = 1, er_scan = 6,
      er_tic = 1, er_bpi = 1, index_max_intensity = 0\<rparr>"

theorem zmq_refuses_run_past_end_witness:
  "zmq_on_notify (\<lambda>m. ''m'') (sample_frame [overrun_scan [1, - 4, 2]]) (new_zmq_subscriber 5 1) =
    Inr ([(''status'', ''error data: index oob error -> index: 5 in scan 6 of frame 9'')],
      \<lparr>data_vector = [1, 0, 0, 0, 0], processed = 0, first_sample_floor = 1\<rparr>)"
proof -
  let ?s = "new_zmq_subscriber 5 1" and ?f = "sample_frame [overrun_scan [1, - 4, 2]]"
  have digits: "nat_to_string 5 = ''5''" "nat_to_string 6 = ''6''" "nat_to_string 9 = ''9''"
    by code_simp+
  have "zmq_on_notify (\<lambda>m. ''m'') ?f ?s =
    Inr (check_alignment ?s ?f @
      publish_error (''index oob error -> index: '' @ int_to_string (end_bin 0 [1] - sint (- 4 :: i32))
        @ refused_where (overrun_scan [1, - 4, 2]) ?f),
      ?s\<lparr>data_vector := map (column_sum (batch_bins [] @ decode_spectrum 0 [1])) [0 ..< 5]\<rparr>)"
    by (rule zmq_refuses_run_past_end [where good = "[]" and rest = "[]" and ys = "[2]"])
      (simp_all add: sample_frame_def overrun_scan_def batch_inside_def new_zmq_subscriber_def)
  then show ?thesis
    by (simp add: new_zmq_subscriber_def sample_frame_def overrun_scan_def check_alignment_def
        alignment_counts_def publish_error_def refused_where_def int_to_string_def digits
        zmq_one_line_def line_breaking_def word_sless_alt batch_bins_def column_sum_def upt_rec)
qed

text \<open>
  Only run lengths are checked. An intensity that follows the last bin of the vector is stored one
  past its end: the update is undefined.
\<close>

theorem zmq_value_past_end_undefined:
  assumes "length (data_vector s) < 2147483647" "encoded_data item = [er]"
    and "encoded_spectra er = xs @ v # ys" "spectrum_inside (length (data_vector s)) 0 xs"
    and "end_bin 0 xs = int (length (data_vector s))" "0 \<le> sint v"
  shows "zmq_on_notify encode item s = Inl (Undefined ''data_vector write'')"
proof -
  let ?data = "replicate (length (data_vector s)) (0 :: i32)"
  obtain index where index: "sint index = end_bin 0 xs"
    "add_spectrum (xs @ v # ys) 0 ?data =
      add_spectrum (v # ys) index (add_columns (decode_spectrum 0 xs) ?data)"
    using add_spectrum_prefix [of ?data 0 xs 0 "v # ys"] assms by auto
  then have "uint (scast index :: u64) = int (length (data_vector s))"
    using assms(5) by (simp add: uint_scast_32_64)
  then have "unat (scast index :: u64) = length (data_vector s)"
    by (metis nat_int unat_eq_nat_uint)
  with index assms show ?thesis
    by (simp add: zmq_on_notify_def Let_def)
qed

end
