(* ===== verification/Stream_Fetch.thy ===== *)
theory Stream_Fetch
  imports Acquired_Data
begin

text \<open>
  What the streaming contexts see of the card: the severity of a driver status
  (\<open>Digitizer::check_error\<close>), the two helpers that turn one into an exception
  (helpers.cpp, helpers.h), and a stream fetch. The driver itself is not part of the repository:
  what it answers is a list of replies, consumed one by one, each with the status, the elements
  written, the three counts of \<open>AqMD3_StreamFetchDataInt32\<close> and whether the clock had
  passed the caller's deadline when the call returned. A call that has no reply left has not
  returned.
\<close>

section \<open>Driver status\<close>

datatype error_type = No_error | Driver_warning | Driver_error

text \<open>\<open>ec\<close> and \<open>msg\<close> are what \<open>AqMD3_GetError\<close> stores.\<close>

definition check_error :: "i32 \<Rightarrow> i32 \<Rightarrow> string \<Rightarrow> string \<times> error_type" where
  "check_error status ec msg =
     (if 0 <s status
      then (''Error Code: '' @ int_to_string (sint ec) @ ''Error Message: '' @ msg, Driver_warning)
      else if status <s 0
      then (''Error Code: '' @ int_to_string (sint ec) @ ''Error Message: '' @ msg, Driver_error)
      else ('''', No_error))"

definition check_and_throw_on_error :: "string \<times> error_type \<Rightarrow> unit result" where
  "check_and_throw_on_error err =
     (if snd err = Driver_error
      then Inl (Runtime_error (''Error during call to digitizer. '' @ fst err)) else Inr ())"

definition check_and_throw_value :: "string \<times> error_type \<times> 'a \<Rightarrow> 'a result" where
  "check_and_throw_value err =
     (if fst (snd err) = Driver_error
      then Inl (Runtime_error (''Error during call to digitizer. '' @ fst err))
      else Inr (snd (snd err)))"

definition check_fetch_alignment :: "string \<Rightarrow> i64 \<Rightarrow> unit result" where
  "check_fetch_alignment stream elements =
     (if sint elements \<le> 0 \<or> sint elements mod 16 \<noteq> 0
      then Inl (Runtime_error (''refusing to fetch '' @ int_to_string (sint elements) @ '' elements from ''
        @ stream @ '': nbrElementsToFetch must be a strict positive multiple of 16''))
      else Inr ())"

section \<open>Fetches\<close>

record fetch_reply =
  reply_status :: i32
  reply_code :: i32
  reply_message :: string
  reply_data :: "i32 list"
  reply_available :: i64
  reply_actual :: i64
  reply_first :: i64
  reply_late :: bool

record fetch_request =
  req_stream :: string
  req_elements :: i64
  req_size :: i64

definition reply_error :: "fetch_reply \<Rightarrow> string \<times> error_type" where
  "reply_error r = check_error (reply_status r) (reply_code r) (reply_message r)"

text \<open>How a call that talks to the card ends, as far as the replies seen go.\<close>

datatype 'a ending = Done 'a | Threw exn | Waiting

section \<open>Hexadecimal\<close>

definition hex_char :: "nat \<Rightarrow> char" where
  "hex_char d = (if d < 10 then char_of (48 + d) else char_of (87 + d))"

fun hex_digits :: "nat \<Rightarrow> u32 \<Rightarrow> string" where
  "hex_digits 0 w = []"
| "hex_digits (Suc n) w = hex_digits n (drop_bit 4 w) @ [hex_char (unat (w AND 15))]"

definition hunk_hex :: "i32 list \<Rightarrow> string" where
  "hunk_hex hunk =
     concat (map (\<lambda>i. (if i = 0 then '''' else if i mod 4 \<noteq> 0 then '' '' else '' | '')
       @ hex_digits 8 (hunk ! i)) [0 ..< 16])"

section \<open>What a sound driver promises\<close>

text \<open>
  A reply is sound for a buffer of \<open>cap\<close> elements when the call succeeded in time and
  the valid elements, \<open>reply_actual\<close> of them from \<open>reply_first\<close> on, lie
  in what was written, which lies in the buffer.
\<close>

definition sound_reply :: "nat \<Rightarrow> fetch_reply \<Rightarrow> bool" where
  "sound_reply cap r \<longleftrightarrow>
     0 \<le> sint (reply_status r) \<and> \<not> reply_late r \<and> 0 \<le> sint (reply_first r) \<and>
     0 \<le> sint (reply_actual r) \<and> sint (reply_actual r) mod 16 = 0 \<and>
     sint (reply_first r) + sint (reply_actual r) \<le> int (length (reply_data r)) \<and>
     length (reply_data r) \<le> cap"

definition valid_elements :: "fetch_reply \<Rightarrow> i32 list" where
  "valid_elements r = take (nat (sint (reply_actual r))) (drop (nat (sint (reply_first r))) (reply_data r))"

lemma length_valid_elements:
  "sound_reply cap r \<Longrightarrow> int (length (valid_elements r)) = sint (reply_actual r)"
  by (auto simp: sound_reply_def valid_elements_def)

lemma sound_reply_succeeds: "sound_reply cap r \<Longrightarrow> snd (reply_error r) \<noteq> Driver_error"
  by (simp add: sound_reply_def reply_error_def check_error_def word_sless_alt)

lemma sound_reply_small:
  assumes "sound_reply cap r" "cap < 2147483648"
  shows "sint (reply_first r) < 2147483648" "sint (reply_actual r) < 2147483648"
  using assms by (auto simp: sound_reply_def)

lemma check_fetch_alignment_ok:
  "check_fetch_alignment s e = Inr () \<longleftrightarrow> 0 < sint e \<and> sint e mod 16 = 0"
  by (auto simp: check_fetch_alignment_def)

lemma check_fetch_alignment_Inl:
  "check_fetch_alignment s e = Inl x \<Longrightarrow> sint e \<le> 0 \<or> sint e mod 16 \<noteq> 0"
  by (auto simp: check_fetch_alignment_def split: if_splits)

end
