(* ===== verification/Zero_Suppress.thy ===== *)
theory Zero_Suppress
  imports Stream_Fetch "HOL-Library.Signed_Division"
begin

text \<open>
  \<open>CstZs1Context\<close>: the walk over the markers stream that finds the triggers of a
  zero-suppressed acquisition and their gates, the fetches that feed it, and the fetch of the
  samples the gates announce. A marker hunk is sixteen 32-bit elements; the low byte of its first
  element says what it is. Diagnostic log lines are left out, the counters behind them are not.
\<close>

section \<open>State\<close>

record trigger_seen =
  seen_valid :: bool
  seen_timestamp :: u64
  seen_index :: u32

record zs1_context =
  markers_channel :: string
  samples_channel :: string
  markers_buffer :: acq_buffer
  last_trigger :: trigger_seen
  frame_last_trigger :: trigger_seen
  frame_first_trigger_checked :: bool
  frame_triggers :: u64
  frame_fetches :: u64
  frame_out_of_record :: u64
  last_walked_hunk :: "i32 list"
  last_walked_valid :: bool
  diagnostics :: bool

definition markers_hunk_size :: u64 where
  "markers_hunk_size = 16"

definition multiplier_max :: i32 where
  "multiplier_max = 8"

definition diagnostic_triggers :: u64 where
  "diagnostic_triggers = 2000"

definition out_of_record_reports :: u64 where
  "out_of_record_reports = 32"

definition no_trigger_seen :: trigger_seen where
  "no_trigger_seen = \<lparr>seen_valid = False, seen_timestamp = 0, seen_index = 0\<rparr>"

definition new_zs1_context :: "string \<Rightarrow> u64 \<Rightarrow> bool \<Rightarrow> zs1_context" where
  "new_zs1_context channel max_triggers diag =
     \<lparr>markers_channel = (if channel = ''Channel1'' then ''MarkersCh1'' else ''MarkersCh2''),
      samples_channel = (if channel = ''Channel1'' then ''StreamCh1'' else ''StreamCh2''),
      markers_buffer = new_buffer_of_size (max_triggers * markers_hunk_size * scast multiplier_max + 15),
      last_trigger = no_trigger_seen, frame_last_trigger = no_trigger_seen,
      frame_first_trigger_checked = False, frame_triggers = 0, frame_fetches = 0,
      frame_out_of_record = 0, last_walked_hunk = replicate 16 0, last_walked_valid = False,
      diagnostics = diag\<rparr>"

text \<open>\<open>begun\<close> and \<open>aborted\<close> are what the driver call of the base class returned.\<close>

definition zs1_start :: "string \<times> error_type \<Rightarrow> zs1_context \<Rightarrow> zs1_context result" where
  "zs1_start begun ctx =
     bindR (check_and_throw_on_error begun) (\<lambda>_.
       Inr (ctx\<lparr>frame_last_trigger := last_trigger ctx, frame_first_trigger_checked := False,
                frame_triggers := 0, frame_fetches := 0, frame_out_of_record := 0,
                last_walked_valid := False\<rparr>))"

definition zs1_stop :: "string \<times> error_type \<Rightarrow> zs1_context \<Rightarrow> zs1_context result" where
  "zs1_stop aborted ctx =
     bindR (check_and_throw_on_error aborted) (\<lambda>_.
       Inr (ctx\<lparr>markers_buffer := reset_buffer (markers_buffer ctx)\<rparr>))"

definition note_trigger :: "u64 \<Rightarrow> u32 \<Rightarrow> zs1_context \<Rightarrow> zs1_context \<times> exn option" where
  "note_trigger ts idx ctx =
     (if \<not> frame_first_trigger_checked ctx \<and> seen_valid (frame_last_trigger ctx) \<and>
         ts \<le> seen_timestamp (frame_last_trigger ctx)
      then (ctx\<lparr>frame_first_trigger_checked := True\<rparr>, Some (Frame_damaged ''markers replayed''))
      else
        let ctx' = ctx\<lparr>frame_first_trigger_checked := True, frame_triggers := frame_triggers ctx + 1\<rparr> in
        (if \<not> seen_valid (last_trigger ctx') \<or> seen_timestamp (last_trigger ctx') < ts
         then ctx'\<lparr>last_trigger := \<lparr>seen_valid = True, seen_timestamp = ts, seen_index = idx\<rparr>\<rparr>
         else ctx', None))"

definition note_gate :: "zs1_context \<Rightarrow> zs1_context" where
  "note_gate ctx = ctx\<lparr>frame_out_of_record := frame_out_of_record ctx + 1\<rparr>"

section \<open>Decoding a hunk\<close>

definition hunk_kind :: "i32 list \<Rightarrow> u32" where
  "hunk_kind seg = (seg ! 0) AND 0xFF"

text \<open>\<open>seg[2]\<close> is signed, so its conversion to 64 bits sign-extends.\<close>

definition trigger_timestamp :: "i32 list \<Rightarrow> u64" where
  "trigger_timestamp seg =
     (let low = scast (seg ! 1) :: u64; high = scast (seg ! 2) :: u64 in
      push_bit 24 high OR (drop_bit 8 low AND 0xFFFFFF))"

definition trigger_number :: "i32 list \<Rightarrow> u32" where
  "trigger_number seg = drop_bit 8 (seg ! 0)"

definition trigger_subsample :: "i32 list \<Rightarrow> int" where
  "trigger_subsample seg = sint (- 1 * ((seg ! 1) AND 0xFF)) sdiv 256"

definition block_index :: "u32 \<Rightarrow> u32 \<Rightarrow> u64" where
  "block_index lo hi = push_bit 8 (ucast (hi AND 0xFFFFFF) :: u64) OR ucast (drop_bit 24 lo AND 0xFF)"

definition block_sample_index :: "u32 \<Rightarrow> u32" where
  "block_sample_index hi = drop_bit 24 hi AND 0xFF"

text \<open>
  The number of elements of a gate, rounded up to a multiple of sixteen. It is taken before the end
  index of a gate that wraps is adjusted.
\<close>

definition gate_elements :: "u64 \<Rightarrow> u64 \<Rightarrow> u64" where
  "gate_elements start_block end_block =
     (let f = (end_block - start_block) * 4 in
      if f mod 16 \<noteq> 0 then (f div 16 + 1) * 16 else f)"

definition adjusted_end :: "u64 \<Rightarrow> u64 \<Rightarrow> u64" where
  "adjusted_end start_block end_block =
     (if end_block < start_block then end_block + 4294967295 else end_block)"

text \<open>The four words at \<open>l_ptr\<close> of a gate sub-block.\<close>

definition decode_gate :: "i32 list \<Rightarrow> gate_data \<times> u64" where
  "decode_gate l =
     (let sb = block_index (l ! 0) (l ! 1); eb = block_index (l ! 2) (l ! 3);
          f = gate_elements sb eb in
      (\<lparr>gate_start_block_index = sb, gate_start_sample_pos = block_sample_index (l ! 1),
        gate_stop_block_index = adjusted_end sb eb, gate_stop_sample_pos = block_sample_index (l ! 3),
        element_count = ucast f\<rparr>, f))"

section \<open>The walk\<close>

text \<open>The locals of one \<open>acquire\<close>, the context and the samples buffer it works on, and
  the requests it has made.\<close>

record zs1_run =
  run_ctx :: zs1_context
  run_samples_buffer :: acq_buffer
  markers_to_acquire :: i32
  active_multiplier :: i32
  trig_count :: i32
  gate_count :: i32
  to_acquire :: u64
  run_stamps :: "trigger_data list"
  orphan_gates :: u64
  orphan_elements :: u64
  orphan_at :: i32
  orphan_hunk :: "i32 list"
  available_elements_markers :: i64
  actual_elements_markers :: i64
  run_requests :: "fetch_request list"

definition map_markers :: "(acq_buffer \<Rightarrow> acq_buffer) \<Rightarrow> zs1_run \<Rightarrow> zs1_run" where
  "map_markers f st =
     st\<lparr>run_ctx := (run_ctx st)\<lparr>markers_buffer := f (markers_buffer (run_ctx st))\<rparr>\<rparr>"

definition map_samples :: "(acq_buffer \<Rightarrow> acq_buffer) \<Rightarrow> zs1_run \<Rightarrow> zs1_run" where
  "map_samples f st = st\<lparr>run_samples_buffer := f (run_samples_buffer st)\<rparr>"

definition orphans :: "zs1_run \<Rightarrow> string" where
  "orphans st =
     nat_to_string (unat (orphan_gates st)) @ '' gates before this acquire's first trigger, '' @
     nat_to_string (unat (orphan_elements st)) @ '' sample elements, the first at element '' @
     int_to_string (sint (orphan_at st)) @ '' in hunk '' @ hunk_hex (orphan_hunk st)"

definition add_gate :: "gate_data \<Rightarrow> trigger_data list \<Rightarrow> trigger_data list" where
  "add_gate g ts = butlast ts @ [(last ts)\<lparr>trig_gates := trig_gates (last ts) @ [g]\<rparr>]"

definition gate_sub_block :: "i32 list \<Rightarrow> nat \<Rightarrow> zs1_run \<Rightarrow> zs1_run" where
  "gate_sub_block seg i st =
     (let l = drop (4 * i) seg in
      if (l ! 0) AND 0xFF = 4 then
        let (g, f) = decode_gate l in
        if run_stamps st = [] then
          (let first = (if orphan_gates st = 0
             then st\<lparr>orphan_at := get_processed (markers_buffer (run_ctx st)), orphan_hunk := seg\<rparr>
             else st) in
           first\<lparr>orphan_gates := orphan_gates st + 1, orphan_elements := orphan_elements st + f\<rparr>)
        else
          (let record_samples = buf_samples_per_trigger (run_samples_buffer st);
               noted = (if record_samples < get_start_sample_index g \<or>
                           record_samples < get_stop_sample_index g
                        then st\<lparr>run_ctx := note_gate (run_ctx st)\<rparr> else st) in
           noted\<lparr>run_stamps := add_gate g (run_stamps st), gate_count := gate_count st + 1,
                 to_acquire := to_acquire st + f\<rparr>)
      else st)"

datatype walk = Onward zs1_run | Reached zs1_run | Stopped exn zs1_run

definition unexpected_header :: "i32 list \<Rightarrow> zs1_run \<Rightarrow> exn" where
  "unexpected_header seg st =
     Runtime_error (''markers: unexpected header 0x'' @ hex_digits 2 (hunk_kind seg) @ '' at element '' @
       int_to_string (sint (get_processed (markers_buffer (run_ctx st)))) @ '' of '' @
       int_to_string (sint (get_acquired (markers_buffer (run_ctx st)))) @ '' fetched, trigger '' @
       int_to_string (sint (trig_count st)) @ '' of this acquire, hunk '' @ hunk_hex seg @
       (if orphan_gates st \<noteq> 0 then ''; '' @ orphans st else ''''))"

definition walk_hunk :: "u64 \<Rightarrow> i32 list \<Rightarrow> zs1_run \<Rightarrow> walk" where
  "walk_hunk n seg st =
     (if hunk_kind seg = 1 then
        let st1 = st\<lparr>trig_count := trig_count st + 1\<rparr> in
        if n + 1 \<le> scast (trig_count st1) then Reached st1
        else
          let ts = trigger_timestamp seg; idx = trigger_number seg;
              st2 = st1\<lparr>run_stamps := run_stamps st1 @ [new_trigger_data ts idx (trigger_subsample seg)]\<rparr> in
          (case note_trigger ts idx (run_ctx st2) of
             (ctx, Some e) \<Rightarrow> Stopped e (st2\<lparr>run_ctx := ctx\<rparr>)
           | (ctx, None) \<Rightarrow> Onward (map_markers (advance_processed 16) (st2\<lparr>run_ctx := ctx\<rparr>)))
      else if hunk_kind seg = 4 \<or> hunk_kind seg = 0x0a then
        Onward (map_markers (advance_processed 16) (fold (gate_sub_block seg) [0, 1, 2, 3] st))
      else if hunk_kind seg = 8 then Stopped (Runtime_error ''dummy gate error'') st
      else Stopped (unexpected_header seg st) st)"

text \<open>
  The hunk at the position of the next unprocessed element; a hunk that is not inside the buffer is
  not readable.
\<close>

definition read_hunk :: "acq_buffer \<Rightarrow> i32 list result" where
  "read_hunk b =
     (let k = get_raw_unprocessed b in
      if 0 \<le> k \<and> nat k + 16 \<le> length (buf_data b) then Inr (take 16 (drop (nat k) (buf_data b)))
      else Inl (Undefined ''marker read''))"

fun walk_hunks :: "u64 \<Rightarrow> nat \<Rightarrow> zs1_run \<Rightarrow> walk" where
  "walk_hunks n 0 st = Onward st"
| "walk_hunks n (Suc k) st =
     (case read_hunk (markers_buffer (run_ctx st)) of
        Inl e \<Rightarrow> Stopped e st
      | Inr seg \<Rightarrow>
          (case walk_hunk n seg st of
             Onward st' \<Rightarrow> walk_hunks n k st'
           | Reached st' \<Rightarrow> Reached st'
           | Stopped e st' \<Rightarrow> Stopped e st'))"

definition walk_fetched :: "u64 \<Rightarrow> zs1_run \<Rightarrow> walk" where
  "walk_fetched n st = walk_hunks n (nat (sint (actual_elements_markers st) div 16)) st"

section \<open>The markers fetch\<close>

definition prepare_fetch :: "zs1_run \<Rightarrow> zs1_run result" where
  "prepare_fetch st =
     (let ctx = run_ctx st; b = markers_buffer ctx;
          zeroed = st\<lparr>available_elements_markers := 0, actual_elements_markers := 0\<rparr>;
          k = get_raw_unprocessed b - 16 in
      if diagnostics ctx \<and> frame_triggers ctx < diagnostic_triggers \<and> 16 \<le> sint (get_processed b)
      then
        (if 0 \<le> k \<and> nat k + 16 \<le> length (buf_data b)
         then Inr (zeroed\<lparr>run_ctx := ctx\<lparr>last_walked_hunk := take 16 (drop (nat k) (buf_data b)),
                last_walked_valid := True, markers_buffer := reset_buffer b\<rparr>\<rparr>)
         else Inl (Undefined ''marker read''))
      else Inr (zeroed\<lparr>run_ctx := ctx\<lparr>markers_buffer := reset_buffer b\<rparr>\<rparr>))"

definition markers_request :: "zs1_run \<Rightarrow> zs1_run result" where
  "markers_request st =
     bindR (check_fetch_alignment (markers_channel (run_ctx st)) (scast (markers_to_acquire st))) (\<lambda>_.
       Inr (st\<lparr>run_requests := run_requests st @
         [\<lparr>req_stream = markers_channel (run_ctx st), req_elements = scast (markers_to_acquire st),
           req_size = get_size (markers_buffer (run_ctx st))\<rparr>]\<rparr>))"

definition timeout_text :: "zs1_run \<Rightarrow> string" where
  "timeout_text st =
     ''timeout in acquisition.'' @ [CHR 0x0A] @ ''timeout conditions:'' @ [CHR 0x0A, CHR 0x0A] @
     ''markers_buffer.get_size(): '' @ nat_to_string (unat (get_size (markers_buffer (run_ctx st)))) @ [CHR 0x0A] @
     [CHR 0x09] @ ''markers_buffer.get_acquired(): '' @
       int_to_string (sint (get_acquired (markers_buffer (run_ctx st)))) @ [CHR 0x0A] @
     [CHR 0x09] @ ''markers_to_acquire: '' @ int_to_string (sint (markers_to_acquire st)) @ [CHR 0x0A] @
     [CHR 0x09] @ ''available_elements_markers: '' @ int_to_string (sint (available_elements_markers st)) @ [CHR 0x0A] @
     [CHR 0x09] @ ''actual_elements_markers: '' @ int_to_string (sint (actual_elements_markers st)) @
       [CHR 0x0A, CHR 0x0A] @
     [CHR 0x09] @ ''trig_count: '' @ int_to_string (sint (trig_count st)) @ [CHR 0x0A] @
     (if orphan_gates st \<noteq> 0 then [CHR 0x09] @ orphans st @ [CHR 0x0A] else '''')"

text \<open>The reply of a fetch: the elements land in the buffer, the counts in the locals.\<close>

definition take_reply :: "bool \<Rightarrow> fetch_reply \<Rightarrow> zs1_run \<Rightarrow> zs1_run \<times> exn option" where
  "take_reply use_timeout r st =
     (case write_at (get_raw_unaquired (markers_buffer (run_ctx st))) (reply_data r)
             (markers_buffer (run_ctx st)) of
        Inl e \<Rightarrow> (st, Some e)
      | Inr b \<Rightarrow>
          (let st' = map_markers (\<lambda>_. b) (st\<lparr>available_elements_markers := reply_available r,
                       actual_elements_markers := reply_actual r\<rparr>) in
           if snd (reply_error r) = Driver_error
           then (st', Some (Runtime_error (fst (reply_error r))))
           else if use_timeout \<and> reply_late r then (st', Some (Runtime_error (timeout_text st')))
           else (st', None)))"

definition after_fetch :: "u64 \<Rightarrow> fetch_reply \<Rightarrow> zs1_run \<Rightarrow> zs1_run" where
  "after_fetch n r st =
     (let grown = (if scast (markers_to_acquire st) <s available_elements_markers st \<and>
                      active_multiplier st <s multiplier_max
            then st\<lparr>active_multiplier := active_multiplier st + 1,
                    markers_to_acquire := ucast (n * markers_hunk_size * scast (active_multiplier st + 1))\<rparr>
            else st);
          taken = map_markers (advance_acquired (ucast (reply_actual r)) \<circ>
                    advance_offset (ucast (reply_first r))) grown in
      taken\<lparr>run_ctx := (run_ctx taken)\<lparr>frame_fetches := frame_fetches (run_ctx taken) + 1\<rparr>\<rparr>)"

text \<open>
  The outer loop from the point where a fetch is due. A reply with no elements asks again; any
  other is walked.
\<close>

fun run_markers :: "u64 \<Rightarrow> bool \<Rightarrow> fetch_reply list \<Rightarrow> zs1_run \<Rightarrow> zs1_run \<times> fetch_reply list ending" where
  "run_markers n use_timeout [] st =
     (case markers_request st of Inl e \<Rightarrow> (st, Threw e) | Inr st' \<Rightarrow> (st', Waiting))"
| "run_markers n use_timeout (r # rs) st =
     (case markers_request st of
        Inl e \<Rightarrow> (st, Threw e)
      | Inr st1 \<Rightarrow>
          (case take_reply use_timeout r st1 of
             (st2, Some e) \<Rightarrow> (st2, Threw e)
           | (st2, None) \<Rightarrow>
               if actual_elements_markers st2 = 0 then run_markers n use_timeout rs st2
               else
                 (case walk_fetched n (after_fetch n r st2) of
                    Stopped e st3 \<Rightarrow> (st3, Threw e)
                  | Reached st3 \<Rightarrow> (st3, Done rs)
                  | Onward st3 \<Rightarrow>
                      if scast (trig_count st3) \<le> n then
                        (case prepare_fetch st3 of
                           Inl e \<Rightarrow> (st3, Threw e)
                         | Inr st4 \<Rightarrow> run_markers n use_timeout rs st4)
                      else (st3, Done rs))))"

definition walk_then_fetch :: "u64 \<Rightarrow> bool \<Rightarrow> fetch_reply list \<Rightarrow> zs1_run \<Rightarrow> zs1_run \<times> fetch_reply list ending" where
  "walk_then_fetch n use_timeout rs st =
     (case walk_fetched n st of
        Stopped e st1 \<Rightarrow> (st1, Threw e)
      | Reached st1 \<Rightarrow> (st1, Done rs)
      | Onward st1 \<Rightarrow>
          if scast (trig_count st1) \<le> n then
            (case prepare_fetch st1 of
               Inl e \<Rightarrow> (st1, Threw e)
             | Inr st2 \<Rightarrow> run_markers n use_timeout rs st2)
          else (st1, Done rs))"

section \<open>The samples fetch\<close>

definition outstanding :: "u64 \<Rightarrow> zs1_run \<Rightarrow> i64" where
  "outstanding fetched st = to_acquire st - fetched"

definition samples_request :: "u64 \<Rightarrow> zs1_run \<Rightarrow> zs1_run result" where
  "samples_request fetched st =
     bindR (check_fetch_alignment (samples_channel (run_ctx st)) (outstanding fetched st)) (\<lambda>_.
       Inr (st\<lparr>run_requests := run_requests st @
         [\<lparr>req_stream = samples_channel (run_ctx st), req_elements = outstanding fetched st,
           req_size = scast (get_available (run_samples_buffer st))\<rparr>]\<rparr>))"

definition take_samples :: "fetch_reply \<Rightarrow> zs1_run \<Rightarrow> zs1_run result" where
  "take_samples r st =
     bindR (write_at (get_raw_unaquired (run_samples_buffer st)) (reply_data r) (run_samples_buffer st)) (\<lambda>b.
       if snd (reply_error r) = Driver_error then Inl (Runtime_error (fst (reply_error r)))
       else Inr (map_samples (\<lambda>_. advance_acquired (ucast (reply_actual r))
                   (advance_offset (ucast (reply_first r)) b)) st))"

fun run_samples :: "u64 \<Rightarrow> fetch_reply list \<Rightarrow> zs1_run \<Rightarrow> zs1_run \<times> fetch_reply list ending" where
  "run_samples fetched [] st =
     (if fetched < to_acquire st then
        (case samples_request fetched st of Inl e \<Rightarrow> (st, Threw e) | Inr st' \<Rightarrow> (st', Waiting))
      else (st, Done []))"
| "run_samples fetched (r # rs) st =
     (if fetched < to_acquire st then
        (case samples_request fetched st of
           Inl e \<Rightarrow> (st, Threw e)
         | Inr st1 \<Rightarrow>
             (case take_samples r st1 of
                Inl e \<Rightarrow> (st1, Threw e)
              | Inr st2 \<Rightarrow> run_samples (fetched + reply_actual r) rs st2))
      else (st, Done (r # rs)))"

section \<open>acquire\<close>

definition new_run :: "u64 \<Rightarrow> zs1_context \<Rightarrow> acq_buffer \<Rightarrow> zs1_run" where
  "new_run n ctx b =
     \<lparr>run_ctx = ctx, run_samples_buffer = b, markers_to_acquire = ucast (n * markers_hunk_size),
      active_multiplier = 1, trig_count = 0, gate_count = 0, to_acquire = 0, run_stamps = [],
      orphan_gates = 0, orphan_elements = 0, orphan_at = 0, orphan_hunk = replicate 16 0,
      available_elements_markers = 0,
      actual_elements_markers = scast (get_unprocessed (markers_buffer ctx)), run_requests = []\<rparr>"

definition acquire_run :: "u64 \<Rightarrow> bool \<Rightarrow> fetch_reply list \<Rightarrow> zs1_context \<Rightarrow> acq_buffer \<Rightarrow>
    zs1_run \<times> fetch_reply list ending" where
  "acquire_run n use_timeout rs ctx b =
     (let st = new_run n ctx b in
      if sint (actual_elements_markers st) mod 16 \<noteq> 0
      then (st, Threw (Runtime_error ''actual_elements_markers % 16 != 0 at start of acquire''))
      else
        (case walk_then_fetch n use_timeout rs st of
           (st1, Done rs1) \<Rightarrow> run_samples 0 rs1 st1
         | (st1, e) \<Rightarrow> (st1, e)))"

text \<open>
  The whole call on the pool: the buffer taken is released again when the call throws, and is held
  by the \<open>AcquiredData\<close> it returns otherwise.
\<close>

definition zs1_acquire :: "u64 \<Rightarrow> bool \<Rightarrow> fetch_reply list \<Rightarrow> zs1_context \<Rightarrow> buffer_pool \<Rightarrow>
    (zs1_context \<times> buffer_pool \<times> fetch_request list) \<times> (acquired_data \<times> fetch_reply list) ending" where
  "zs1_acquire n use_timeout rs ctx p =
     (let (k, p1) = get_buffer p in
      case acquire_run n use_timeout rs ctx (buffer_of p1 k) of
        (st, ending) \<Rightarrow>
          let p2 = set_buffer k (run_samples_buffer st) p1 in
          (case ending of
             Done rs' \<Rightarrow>
               ((run_ctx st, p2, run_requests st),
                Done (\<lparr>samples_slot = k, stamps = run_stamps st,
                       samples_count = buf_samples_per_trigger (run_samples_buffer st)\<rparr>, rs'))
           | Threw e \<Rightarrow> ((run_ctx st, drop_ref k p2, run_requests st), Threw e)
           | Waiting \<Rightarrow> ((run_ctx st, p2, run_requests st), Waiting)))"

end
