(* ===== verification/Marker_Stream.thy ===== *)
theory Marker_Stream
  imports Zero_Suppress
begin

text \<open>
  The markers stream as a list of hunks, and what \<open>CstZs1Context::acquire\<close> computes from
  it, independently of buffers, positions and fetches: \<open>feed\<close> collects the triggers with
  their gates and stops in front of the trigger after the last one asked for. The walk over the
  markers buffer refines it.
\<close>

section \<open>The abstract walk\<close>

type_synonym collected = "trigger_data list \<times> u64"

definition hunk_trigger :: "i32 list \<Rightarrow> trigger_data" where
  "hunk_trigger seg = new_trigger_data (trigger_timestamp seg) (trigger_number seg) (trigger_subsample seg)"

definition hunk_gates :: "i32 list \<Rightarrow> (gate_data \<times> u64) list" where
  "hunk_gates seg =
     map decode_gate (filter (\<lambda>l. (l ! 0) AND 0xFF = 4) (map (\<lambda>i. drop (4 * i) seg) [0, 1, 2, 3]))"

definition is_trigger_hunk :: "i32 list \<Rightarrow> bool" where
  "is_trigger_hunk seg \<longleftrightarrow> hunk_kind seg = 1"

definition is_gate_hunk :: "i32 list \<Rightarrow> bool" where
  "is_gate_hunk seg \<longleftrightarrow> hunk_kind seg = 4 \<or> hunk_kind seg = 0x0a"

definition collect_gate :: "gate_data \<times> u64 \<Rightarrow> collected \<Rightarrow> collected" where
  "collect_gate gf c = (if fst c = [] then c else (add_gate (fst gf) (fst c), snd c + snd gf))"

datatype feeding = More collected | Complete collected "i32 list list" | Bad

fun feed :: "nat \<Rightarrow> i32 list list \<Rightarrow> collected \<Rightarrow> feeding" where
  "feed n [] c = More c"
| "feed n (h # hs) c =
     (if is_trigger_hunk h then
        if length (fst c) = n then Complete c (h # hs)
        else feed n hs (fst c @ [hunk_trigger h], snd c)
      else if is_gate_hunk h then feed n hs (fold collect_gate (hunk_gates h) c)
      else Bad)"

lemma feed_append:
  "feed n (xs @ ys) c =
     (case feed n xs c of More c' \<Rightarrow> feed n ys c' | Complete c' rest \<Rightarrow> Complete c' (rest @ ys) | Bad \<Rightarrow> Bad)"
  by (induction xs arbitrary: c) auto

lemma add_gate_length [simp]: "ts \<noteq> [] \<Longrightarrow> length (add_gate g ts) = length ts"
  by (simp add: add_gate_def)

lemma add_gate_Nil_iff [simp]: "add_gate g ts \<noteq> []"
  by (simp add: add_gate_def)

lemma collect_gates_length [simp]: "length (fst (fold collect_gate gfs c)) = length (fst c)"
  by (induction gfs arbitrary: c) (auto simp: collect_gate_def)

lemma collect_gates_Nil: "fst c = [] \<Longrightarrow> fold collect_gate gfs c = c"
  by (induction gfs) (auto simp: collect_gate_def)

section \<open>Cutting a stream into hunks\<close>

function hunks_of :: "i32 list \<Rightarrow> i32 list list" where
  "hunks_of xs = (if length xs < 16 then [] else take 16 xs # hunks_of (drop 16 xs))"
  by pat_completeness auto
termination by (relation "measure length") auto

declare hunks_of.simps [simp del]

lemma hunks_of_Nil [simp]: "hunks_of [] = []"
  by (simp add: hunks_of.simps)

lemma hunks_of_step: "16 \<le> length xs \<Longrightarrow> hunks_of xs = take 16 xs # hunks_of (drop 16 xs)"
  by (subst hunks_of.simps) simp

lemma length_hunks_of: "length (hunks_of xs) = length xs div 16"
  by (induction xs rule: hunks_of.induct) (subst hunks_of.simps, auto simp: le_div_geq)

lemma length_of_hunk: "h \<in> set (hunks_of xs) \<Longrightarrow> length h = 16"
  by (induction xs rule: hunks_of.induct)
    (subst (asm) (2) hunks_of.simps, auto split: if_splits)

section \<open>The markers buffer\<close>

text \<open>A buffer in order: its positions are inside the vector, and whole hunks are unprocessed.\<close>

definition buffer_ok :: "acq_buffer \<Rightarrow> bool" where
  "buffer_ok b \<longleftrightarrow>
     0 \<le> sint (buf_offset b) \<and> 0 \<le> sint (processed_index b) \<and>
     sint (processed_index b) \<le> sint (acquired_index b) \<and>
     sint (buf_offset b) + sint (acquired_index b) \<le> int (length (buf_data b)) \<and>
     length (buf_data b) < 2147483648"

definition unprocessed :: "acq_buffer \<Rightarrow> i32 list" where
  "unprocessed b =
     take (nat (sint (acquired_index b) - sint (processed_index b)))
       (drop (nat (sint (buf_offset b) + sint (processed_index b))) (buf_data b))"

lemma length_unprocessed:
  "buffer_ok b \<Longrightarrow> int (length (unprocessed b)) = sint (acquired_index b) - sint (processed_index b)"
  by (auto simp: buffer_ok_def unprocessed_def)

lemma raw_unprocessed:
  "buffer_ok b \<Longrightarrow> get_raw_unprocessed b = sint (processed_index b) + sint (buf_offset b)"
  by (auto simp: buffer_ok_def get_raw_unprocessed_def sint32_add)

lemma read_next_hunk:
  assumes "buffer_ok b" "16 \<le> length (unprocessed b)"
  shows "read_hunk b = Inr (take 16 (unprocessed b))"
proof -
  have "16 \<le> sint (acquired_index b) - sint (processed_index b)"
    using length_unprocessed [OF assms(1)] assms(2) by simp
  then show ?thesis
    using assms(1) raw_unprocessed [OF assms(1)]
    by (auto simp: buffer_ok_def read_hunk_def Let_def unprocessed_def min_def ac_simps)
qed

lemma advance_hunk:
  assumes "buffer_ok b" "16 \<le> length (unprocessed b)"
  shows "buffer_ok (advance_processed 16 b)"
    and "unprocessed (advance_processed 16 b) = drop 16 (unprocessed b)"
proof -
  have *: "16 \<le> sint (acquired_index b) - sint (processed_index b)"
    using length_unprocessed [OF assms(1)] assms(2) by simp
  have p: "sint (processed_index b + 16) = sint (processed_index b) + 16"
    using * assms(1) sint32_range [of "acquired_index b"]
    by (subst sint32_add) (auto simp: buffer_ok_def)
  show "buffer_ok (advance_processed 16 b)"
    using * p assms(1) by (auto simp: buffer_ok_def advance_processed_def)
  have "nat (sint (buf_offset b) + (sint (processed_index b) + 16)) =
      nat (sint (buf_offset b) + sint (processed_index b)) + 16"
      "nat (sint (acquired_index b) - (sint (processed_index b) + 16)) =
      nat (sint (acquired_index b) - sint (processed_index b)) - 16"
    using * assms(1) by (auto simp: buffer_ok_def)
  then show "unprocessed (advance_processed 16 b) = drop 16 (unprocessed b)"
    using p by (simp add: unprocessed_def advance_processed_def drop_take ac_simps)
qed

section \<open>The walk refines the abstract one\<close>

text \<open>
  A run holds what has been collected: the triggers with their gates, the element total and the
  trigger count. \<open>kept\<close> is what no step of the walk touches.
\<close>

definition holds :: "nat \<Rightarrow> zs1_run \<Rightarrow> collected \<Rightarrow> bool" where
  "holds n st c \<longleftrightarrow>
     run_stamps st = fst c \<and> to_acquire st = snd c \<and> sint (trig_count st) = int (length (fst c)) \<and>
     length (fst c) \<le> n"

definition kept :: "zs1_run \<Rightarrow> (string \<times> string \<times> bool) \<times> (i32 list \<times> i32 \<times> i32) \<times> acq_buffer \<times>
    (i32 \<times> i32) \<times> fetch_request list" where
  "kept st =
     ((markers_channel (run_ctx st), samples_channel (run_ctx st), diagnostics (run_ctx st)),
      (buf_data (markers_buffer (run_ctx st)), acquired_index (markers_buffer (run_ctx st)),
       buf_offset (markers_buffer (run_ctx st))),
      run_samples_buffer st, (markers_to_acquire st, active_multiplier st), run_requests st)"

text \<open>The replay check looks at one trigger only, the first of a frame.\<close>

definition first_trigger :: "i32 list list \<Rightarrow> i32 list option" where
  "first_trigger hs = List.find is_trigger_hunk hs"

definition not_replayed :: "zs1_context \<Rightarrow> i32 list list \<Rightarrow> bool" where
  "not_replayed ctx hs \<longleftrightarrow>
     frame_first_trigger_checked ctx \<or> \<not> seen_valid (frame_last_trigger ctx) \<or>
     (case first_trigger hs of None \<Rightarrow> True
      | Some h \<Rightarrow> seen_timestamp (frame_last_trigger ctx) < trigger_timestamp h)"

definition ctx_markers :: "zs1_run \<Rightarrow> acq_buffer" where
  "ctx_markers st = markers_buffer (run_ctx st)"

definition same_but_gates :: "zs1_run \<Rightarrow> zs1_run \<Rightarrow> bool" where
  "same_but_gates st st' \<longleftrightarrow>
     kept st' = kept st \<and> trig_count st' = trig_count st \<and> ctx_markers st' = ctx_markers st \<and>
     frame_first_trigger_checked (run_ctx st') = frame_first_trigger_checked (run_ctx st) \<and>
     frame_last_trigger (run_ctx st') = frame_last_trigger (run_ctx st) \<and>
     last_trigger (run_ctx st') = last_trigger (run_ctx st)"

lemma same_but_gates_refl [simp]: "same_but_gates st st"
  by (simp add: same_but_gates_def)

lemma same_but_gates_trans: "same_but_gates a b \<Longrightarrow> same_but_gates b c \<Longrightarrow> same_but_gates a c"
  by (simp add: same_but_gates_def)

lemma gate_sub_block_refines:
  assumes "run_stamps st = fst c" "to_acquire st = snd c"
  shows "same_but_gates st (gate_sub_block seg i st)"
    and "run_stamps (gate_sub_block seg i st) =
      fst (if (drop (4 * i) seg ! 0) AND 0xFF = 4 then collect_gate (decode_gate (drop (4 * i) seg)) c else c)"
    and "to_acquire (gate_sub_block seg i st) =
      snd (if (drop (4 * i) seg ! 0) AND 0xFF = 4 then collect_gate (decode_gate (drop (4 * i) seg)) c else c)"
  using assms
  by (auto simp: gate_sub_block_def same_but_gates_def kept_def ctx_markers_def collect_gate_def
      Let_def note_gate_def split: prod.splits)

lemma gate_sub_blocks_refine:
  assumes "run_stamps st = fst c" "to_acquire st = snd c"
  shows "same_but_gates st (fold (gate_sub_block seg) is st) \<and>
    run_stamps (fold (gate_sub_block seg) is st) =
      fst (fold collect_gate (map decode_gate (filter (\<lambda>l. (l ! 0) AND 0xFF = 4) (map (\<lambda>i. drop (4 * i) seg) is))) c) \<and>
    to_acquire (fold (gate_sub_block seg) is st) =
      snd (fold collect_gate (map decode_gate (filter (\<lambda>l. (l ! 0) AND 0xFF = 4) (map (\<lambda>i. drop (4 * i) seg) is))) c)"
  using assms
proof (induction "is" arbitrary: st c)
  case Nil
  then show ?case by simp
next
  case (Cons i "is")
  let ?l = "drop (4 * i) seg"
  note step = gate_sub_block_refines [OF Cons.prems, of seg i]
  show ?case
    using Cons.IH [OF step(2) step(3)] step(1)
    by (auto intro: same_but_gates_trans)
qed

lemma note_trigger_accepts:
  assumes "frame_first_trigger_checked ctx \<or> \<not> seen_valid (frame_last_trigger ctx) \<or>
    seen_timestamp (frame_last_trigger ctx) < ts"
  obtains ctx' where "note_trigger ts idx ctx = (ctx', None)" "frame_first_trigger_checked ctx'"
    "markers_buffer ctx' = markers_buffer ctx" "markers_channel ctx' = markers_channel ctx"
    "samples_channel ctx' = samples_channel ctx" "diagnostics ctx' = diagnostics ctx"
  by (rule that [of "fst (note_trigger ts idx ctx)"]) (use assms in \<open>auto simp: note_trigger_def Let_def\<close>)

definition unprocessed_hunks :: "zs1_run \<Rightarrow> i32 list list" where
  "unprocessed_hunks st = hunks_of (unprocessed (ctx_markers st))"

text \<open>One hunk.\<close>

lemma walk_trigger_hunk:
  assumes "is_trigger_hunk h" "holds n st c" "length (fst c) < n" "n < 2147483647"
    and "not_replayed (run_ctx st) (h # hs)" "unat nw = n"
  obtains st' where "walk_hunk nw h st = Onward st'" "holds n st' (fst c @ [hunk_trigger h], snd c)"
    "kept st' = kept st" "frame_first_trigger_checked (run_ctx st')"
    "ctx_markers st' = advance_processed 16 (ctx_markers st)"
proof -
  have count: "sint (trig_count st + 1) = int (length (fst c)) + 1"
    using assms(2,3,4) by (subst sint32_add) (auto simp: holds_def)
  then have "uint (scast (trig_count st + 1) :: u64) = int (length (fst c)) + 1"
    by (simp add: uint_scast_32_64)
  moreover have nw: "uint nw = int n"
    using assms(6) by (simp add: uint_nat)
  then have "uint (nw + 1) = int n + 1"
    using assms(4) by (subst uint64_add) auto
  ultimately have cont: "\<not> nw + 1 \<le> scast (trig_count st + 1)"
    using assms(3) by (simp add: word_le_def)
  let ?st2 = "st\<lparr>trig_count := trig_count st + 1,
    run_stamps := run_stamps st @ [new_trigger_data (trigger_timestamp h) (trigger_number h) (trigger_subsample h)]\<rparr>"
  obtain ctx' where ctx': "note_trigger (trigger_timestamp h) (trigger_number h) (run_ctx st) = (ctx', None)"
    "frame_first_trigger_checked ctx'" "markers_buffer ctx' = markers_buffer (run_ctx st)"
    "markers_channel ctx' = markers_channel (run_ctx st)"
    "samples_channel ctx' = samples_channel (run_ctx st)" "diagnostics ctx' = diagnostics (run_ctx st)"
    using assms(1,5)
    by (elim note_trigger_accepts [rotated]) (auto simp: not_replayed_def first_trigger_def)
  show ?thesis
  proof (rule that)
    show "walk_hunk nw h st = Onward (map_markers (advance_processed 16) (?st2\<lparr>run_ctx := ctx'\<rparr>))"
      using assms(1) cont ctx' by (simp add: walk_hunk_def is_trigger_hunk_def Let_def)
  qed (use assms count ctx' in \<open>simp_all add: holds_def kept_def map_markers_def ctx_markers_def
      hunk_trigger_def advance_processed_def\<close>)
qed

lemma walk_last_trigger_hunk:
  assumes "is_trigger_hunk h" "holds n st c" "length (fst c) = n" "n < 2147483647" "unat nw = n"
  shows "walk_hunk nw h st = Reached (st\<lparr>trig_count := trig_count st + 1\<rparr>)"
proof -
  have count: "sint (trig_count st + 1) = int n + 1"
    using assms(2,3,4) by (subst sint32_add) (auto simp: holds_def)
  then have "uint (scast (trig_count st + 1) :: u64) = int n + 1"
    by (simp add: uint_scast_32_64)
  moreover have "uint nw = int n"
    using assms(5) by (simp add: uint_nat)
  then have "uint (nw + 1) = int n + 1"
    using assms(4) by (subst uint64_add) auto
  ultimately show ?thesis
    using assms(1) by (simp add: walk_hunk_def is_trigger_hunk_def Let_def word_le_def)
qed

lemma walk_gate_hunk:
  assumes "is_gate_hunk h" "\<not> is_trigger_hunk h" "holds n st c"
  obtains st' where "walk_hunk nw h st = Onward st'" "holds n st' (fold collect_gate (hunk_gates h) c)"
    "kept st' = kept st" "ctx_markers st' = advance_processed 16 (ctx_markers st)"
    "frame_first_trigger_checked (run_ctx st') = frame_first_trigger_checked (run_ctx st)"
    "frame_last_trigger (run_ctx st') = frame_last_trigger (run_ctx st)"
proof -
  let ?st1 = "fold (gate_sub_block h) [0, 1, 2, 3] st"
  have step: "same_but_gates st ?st1"
    "run_stamps ?st1 = fst (fold collect_gate (hunk_gates h) c)"
    "to_acquire ?st1 = snd (fold collect_gate (hunk_gates h) c)"
    using gate_sub_blocks_refine [of st c h "[0, 1, 2, 3]"] assms(3)
    unfolding holds_def hunk_gates_def by blast+
  show ?thesis
  proof (rule that)
    show "walk_hunk nw h st = Onward (map_markers (advance_processed 16) ?st1)"
      using assms(1,2) by (simp add: walk_hunk_def is_trigger_hunk_def is_gate_hunk_def)
  qed (use assms(3) step in \<open>auto simp: holds_def kept_def map_markers_def ctx_markers_def
      same_but_gates_def advance_processed_def\<close>)
qed

text \<open>
  All hunks of a fetch. What the run holds afterwards is what \<open>feed\<close> computes, and
  when the last trigger is reached, the hunks from it on stay unprocessed.
\<close>

definition run_ok :: "nat \<Rightarrow> zs1_run \<Rightarrow> bool" where
  "run_ok n st \<longleftrightarrow> buffer_ok (ctx_markers st) \<and> length (unprocessed (ctx_markers st)) mod 16 = 0 \<and> n < 2147483647"

lemma unprocessed_hunks_step:
  assumes "run_ok n st" "unprocessed_hunks st = h # hs"
  shows "read_hunk (ctx_markers st) = Inr h"
    and "ctx_markers st' = advance_processed 16 (ctx_markers st) \<Longrightarrow> run_ok n st' \<and> unprocessed_hunks st' = hs"
proof -
  let ?u = "unprocessed (ctx_markers st)"
  have long: "16 \<le> length ?u"
    using assms(2) by (auto simp: unprocessed_hunks_def hunks_of.simps [of ?u] split: if_splits)
  have cut: "h = take 16 ?u" "hs = hunks_of (drop 16 ?u)"
    using assms(2) hunks_of_step [OF long] by (auto simp: unprocessed_hunks_def)
  have ok: "buffer_ok (ctx_markers st)"
    using assms(1) by (simp add: run_ok_def)
  show "read_hunk (ctx_markers st) = Inr h"
    using read_next_hunk [OF ok long] cut by simp
  assume "ctx_markers st' = advance_processed 16 (ctx_markers st)"
  moreover have "(length ?u - 16) mod 16 = 0"
    using assms(1) long by (simp add: run_ok_def le_mod_geq)
  ultimately show "run_ok n st' \<and> unprocessed_hunks st' = hs"
    using advance_hunk [OF ok long] cut assms(1) by (simp add: run_ok_def unprocessed_hunks_def)
qed

lemma not_replayed_tail:
  "not_replayed ctx (h # hs) \<Longrightarrow> \<not> is_trigger_hunk h \<Longrightarrow>
   frame_first_trigger_checked ctx' = frame_first_trigger_checked ctx \<Longrightarrow>
   frame_last_trigger ctx' = frame_last_trigger ctx \<Longrightarrow> not_replayed ctx' hs"
  by (auto simp: not_replayed_def first_trigger_def split: option.splits)

lemma not_replayed_checked: "frame_first_trigger_checked ctx \<Longrightarrow> not_replayed ctx hs"
  by (simp add: not_replayed_def)

lemma walk_hunks_refines:
  assumes "holds n st c" "run_ok n st" "unat nw = n" "not_replayed (run_ctx st) (unprocessed_hunks st @ later)"
    and "k = length (unprocessed_hunks st)"
  shows "(\<forall>c'. feed n (unprocessed_hunks st) c = More c' \<longrightarrow>
      (\<exists>st'. walk_hunks nw k st = Onward st' \<and> holds n st' c' \<and> run_ok n st' \<and>
        unprocessed_hunks st' = [] \<and> kept st' = kept st \<and> not_replayed (run_ctx st') later)) \<and>
    (\<forall>c' rest. feed n (unprocessed_hunks st) c = Complete c' rest \<longrightarrow>
      (\<exists>st'. walk_hunks nw k st = Reached st' \<and> run_stamps st' = fst c' \<and> to_acquire st' = snd c' \<and>
        run_ok n st' \<and> unprocessed_hunks st' = rest \<and> kept st' = kept st))"
  using assms
proof (induction k arbitrary: st c)
  case 0
  then show ?case by auto
next
  case (Suc k)
  obtain h hs where hs: "unprocessed_hunks st = h # hs"
    using Suc.prems(5) by (cases "unprocessed_hunks st") auto
  have k: "k = length hs"
    using Suc.prems(5) hs by simp
  have n: "n < 2147483647"
    using Suc.prems(2) by (simp add: run_ok_def)
  note step = unprocessed_hunks_step [OF Suc.prems(2) hs]
  have read: "read_hunk (markers_buffer (run_ctx st)) = Inr h"
    using step(1) by (simp add: ctx_markers_def)
  show ?case
  proof (cases "is_trigger_hunk h")
    case trig: True
    show ?thesis
    proof (cases "length (fst c) = n")
      case True
      note last = walk_last_trigger_hunk [OF trig Suc.prems(1) True n Suc.prems(3)]
      have "run_ok n (st\<lparr>trig_count := trig_count st + 1\<rparr>)"
        "unprocessed_hunks (st\<lparr>trig_count := trig_count st + 1\<rparr>) = h # hs"
        "kept (st\<lparr>trig_count := trig_count st + 1\<rparr>) = kept st"
        using Suc.prems(2) hs
        by (simp_all add: run_ok_def unprocessed_hunks_def ctx_markers_def kept_def)
      with trig True last hs read Suc.prems(1) show ?thesis
        by (auto simp: holds_def)
    next
      case False
      then have less: "length (fst c) < n"
        using Suc.prems(1) by (simp add: holds_def)
      have fresh: "not_replayed (run_ctx st) (h # hs @ later)"
        using Suc.prems(4) hs by simp
      obtain st' where st': "walk_hunk nw h st = Onward st'"
        "holds n st' (fst c @ [hunk_trigger h], snd c)"
        "kept st' = kept st" "frame_first_trigger_checked (run_ctx st')"
        "ctx_markers st' = advance_processed 16 (ctx_markers st)"
        by (rule walk_trigger_hunk [OF trig Suc.prems(1) less n fresh Suc.prems(3)])
      note next_hunks = step(2) [OF st'(5)]
      have "not_replayed (run_ctx st') (unprocessed_hunks st' @ later)"
        using st'(4) by (rule not_replayed_checked)
      note fresh' = this
      have k': "k = length (unprocessed_hunks st')"
        using k next_hunks by simp
      have unfold: "walk_hunks nw (Suc k) st = walk_hunks nw k st'"
        "feed n (unprocessed_hunks st) c = feed n (unprocessed_hunks st') (fst c @ [hunk_trigger h], snd c)"
        using read st'(1) hs next_hunks trig False by simp_all
      show ?thesis
        using Suc.IH [OF st'(2) conjunct1 [OF next_hunks] Suc.prems(3) fresh' k']
        unfolding unfold st'(3) .
    qed
  next
    case nontrig: False
    show ?thesis
    proof (cases "is_gate_hunk h")
      case True
      obtain st' where st': "walk_hunk nw h st = Onward st'"
        "holds n st' (fold collect_gate (hunk_gates h) c)" "kept st' = kept st"
        "ctx_markers st' = advance_processed 16 (ctx_markers st)"
        "frame_first_trigger_checked (run_ctx st') = frame_first_trigger_checked (run_ctx st)"
        "frame_last_trigger (run_ctx st') = frame_last_trigger (run_ctx st)"
        by (rule walk_gate_hunk [OF True nontrig Suc.prems(1)])
      note next_hunks = step(2) [OF st'(4)]
      have "not_replayed (run_ctx st') (unprocessed_hunks st' @ later)"
        by (rule not_replayed_tail [of "run_ctx st" h])
          (use Suc.prems(4) hs nontrig st'(5,6) next_hunks in simp_all)
      note fresh' = this
      have k': "k = length (unprocessed_hunks st')"
        using k next_hunks by simp
      have unfold: "walk_hunks nw (Suc k) st = walk_hunks nw k st'"
        "feed n (unprocessed_hunks st) c = feed n (unprocessed_hunks st') (fold collect_gate (hunk_gates h) c)"
        using read st'(1) hs next_hunks nontrig True by simp_all
      show ?thesis
        using Suc.IH [OF st'(2) conjunct1 [OF next_hunks] Suc.prems(3) fresh' k']
        unfolding unfold st'(3) .
    next
      case False
      with nontrig hs show ?thesis by simp
    qed
  qed
qed

end
