(* ===== verification/Marker_Fetch.thy ===== *)
theory Marker_Fetch
  imports Marker_Stream
begin

text \<open>
  The fetch loops of \<open>CstZs1Context::acquire\<close>: every markers request is one the driver
  accepts and the buffer can take, and, for replies a sound driver gives, how the stream was cut
  into fetches does not matter.
\<close>

section \<open>The size of a request\<close>

definition multiplier_ok :: "nat \<Rightarrow> zs1_run \<Rightarrow> bool" where
  "multiplier_ok n st \<longleftrightarrow>
     1 \<le> n \<and> n * 128 < 2147483632 \<and> 1 \<le> sint (active_multiplier st) \<and> sint (active_multiplier st) \<le> 8 \<and>
     sint (markers_to_acquire st) = int n * 16 * sint (active_multiplier st)"

lemma scaled_request:
  assumes "unat nw = n" "n * 128 < 2147483632" "1 \<le> sint m" "sint m \<le> 8"
  shows "sint (ucast (nw * markers_hunk_size * scast (m :: i32)) :: i32) = int n * 16 * sint m"
proof -
  have nw: "uint nw = int n"
    using assms(1) by (simp add: uint_nat)
  have m: "uint (scast m :: u64) = sint m"
    using assms(3) by (simp add: uint_scast_32_64)
  have "uint (nw * markers_hunk_size) = int n * 16"
    using assms(2) nw by (subst uint64_mult) (auto simp: markers_hunk_size_def)
  moreover have "int n * 16 * sint m \<le> int n * 16 * 8"
    using assms(4) by (intro mult_left_mono) auto
  then have bound: "int n * 16 * sint m < 2147483648"
    using assms(2) by linarith
  ultimately have "uint (nw * markers_hunk_size * scast m) = int n * 16 * sint m"
    using m by (subst uint64_mult) auto
  with bound show ?thesis
    by (simp add: sint_ucast_64_32)
qed

lemma multiplier_ok_bounds:
  assumes "multiplier_ok n st"
  shows "0 < sint (markers_to_acquire st)" "sint (markers_to_acquire st) mod 16 = 0"
    "sint (markers_to_acquire st) \<le> 128 * int n"
proof -
  have "int n * 16 * sint (active_multiplier st) \<le> int n * 16 * 8"
    using assms by (intro mult_left_mono) (auto simp: multiplier_ok_def)
  then show "sint (markers_to_acquire st) \<le> 128 * int n"
    using assms by (simp add: multiplier_ok_def)
qed (use assms in \<open>auto simp: multiplier_ok_def mult.assoc\<close>)

lemma multiplier_ok_after_fetch:
  assumes "multiplier_ok n st" "unat nw = n"
  shows "multiplier_ok n (after_fetch nw r st)"
proof (cases "scast (markers_to_acquire st) <s available_elements_markers st \<and> active_multiplier st <s multiplier_max")
  case True
  then have less: "sint (active_multiplier st) < 8"
    by (simp add: word_sless_alt multiplier_max_def)
  then have grown: "sint (active_multiplier st + 1) = sint (active_multiplier st) + 1"
    using assms(1) by (subst sint32_add) (auto simp: multiplier_ok_def)
  with less scaled_request [OF assms(2), of "active_multiplier st + 1"] assms(1) True show ?thesis
    by (simp add: multiplier_ok_def after_fetch_def Let_def map_markers_def)
next
  case False
  with assms(1) show ?thesis
    by (simp add: multiplier_ok_def after_fetch_def Let_def map_markers_def del: de_Morgan_conj)
qed

lemma multiplier_ok_new_run:
  "unat nw = n \<Longrightarrow> 1 \<le> n \<Longrightarrow> n * 128 < 2147483632 \<Longrightarrow> multiplier_ok n (new_run nw ctx b)"
  using scaled_request [of nw n 1] by (simp add: multiplier_ok_def new_run_def)

text \<open>What a request may look like: aligned, and on the markers stream small enough for the buffer
  with the fifteen elements of slack the driver wants.\<close>

definition good_request :: "nat \<Rightarrow> string \<Rightarrow> fetch_request \<Rightarrow> bool" where
  "good_request n markers q \<longleftrightarrow>
     0 < sint (req_elements q) \<and> sint (req_elements q) mod 16 = 0 \<and>
     (req_stream q = markers \<longrightarrow>
        sint (req_elements q) \<le> 128 * int n \<and> sint (req_elements q) + 15 \<le> sint (req_size q))"

definition requests_fit :: "nat \<Rightarrow> zs1_run \<Rightarrow> bool" where
  "requests_fit n st \<longleftrightarrow>
     multiplier_ok n st \<and> markers_channel (run_ctx st) \<noteq> samples_channel (run_ctx st) \<and>
     128 * n + 15 \<le> length (buf_data (ctx_markers st)) \<and> length (buf_data (ctx_markers st)) < 2147483648 \<and>
     (\<forall>q \<in> set (run_requests st). good_request n (markers_channel (run_ctx st)) q)"

lemma requests_fit_kept: "requests_fit n st \<Longrightarrow> kept st' = kept st \<Longrightarrow> requests_fit n st'"
  by (simp add: requests_fit_def kept_def multiplier_ok_def ctx_markers_def)

lemma kept_note_trigger:
  "note_trigger ts idx ctx = (ctx', e) \<Longrightarrow>
   markers_channel ctx' = markers_channel ctx \<and> samples_channel ctx' = samples_channel ctx \<and>
   diagnostics ctx' = diagnostics ctx \<and> markers_buffer ctx' = markers_buffer ctx"
  by (auto simp: note_trigger_def Let_def split: if_splits)

lemma kept_gate_sub_block [simp]: "kept (gate_sub_block seg i st) = kept st"
  by (auto simp: gate_sub_block_def kept_def Let_def note_gate_def split: prod.splits)

lemma kept_gate_sub_blocks [simp]: "kept (fold (gate_sub_block seg) is st) = kept st"
  by (induction "is" arbitrary: st) auto

fun walk_state :: "walk \<Rightarrow> zs1_run" where
  "walk_state (Onward st) = st"
| "walk_state (Reached st) = st"
| "walk_state (Stopped e st) = st"

lemma kept_advance [simp]: "kept (map_markers (advance_processed 16) st) = kept st"
  by (simp add: kept_def map_markers_def advance_processed_def)

lemma kept_walk_hunk: "kept (walk_state (walk_hunk nw seg st)) = kept st"
proof -
  let ?st2 = "st\<lparr>trig_count := trig_count st + 1,
    run_stamps := run_stamps st @ [new_trigger_data (trigger_timestamp seg) (trigger_number seg) (trigger_subsample seg)]\<rparr>"
  obtain ctx e where noted: "note_trigger (trigger_timestamp seg) (trigger_number seg) (run_ctx st) = (ctx, e)"
    by (cases "note_trigger (trigger_timestamp seg) (trigger_number seg) (run_ctx st)")
  then have "kept (?st2\<lparr>run_ctx := ctx\<rparr>) = kept st"
    using kept_note_trigger [OF noted] by (simp add: kept_def)
  moreover have "kept (st\<lparr>trig_count := trig_count st + 1\<rparr>) = kept st"
    by (simp add: kept_def)
  ultimately show ?thesis
    using noted by (cases e) (simp_all add: walk_hunk_def Let_def)
qed

lemma kept_walk_hunks: "kept (walk_state (walk_hunks nw k st)) = kept st"
proof (induction k arbitrary: st)
  case (Suc k)
  show ?case
  proof (cases "read_hunk (markers_buffer (run_ctx st))")
    case (Inr seg)
    with Suc kept_walk_hunk [of nw seg st] show ?thesis
      by (cases "walk_hunk nw seg st") auto
  qed simp
qed simp

lemma requests_fit_prepare: "requests_fit n st \<Longrightarrow> prepare_fetch st = Inr st' \<Longrightarrow> requests_fit n st'"
  by (auto simp: prepare_fetch_def requests_fit_def Let_def multiplier_ok_def ctx_markers_def
      reset_buffer_def split: if_splits)

lemma sint_get_size:
  "length (buf_data b) < 2147483648 \<Longrightarrow> sint (get_size b) = int (length (buf_data b))"
  by (simp add: get_size_def sint64_uint unsigned_of_nat take_bit_nat_eq_self)

lemma requests_fit_request:
  assumes "requests_fit n st"
  obtains st' where "markers_request st = Inr st'" "requests_fit n st'"
    "st' = st\<lparr>run_requests := run_requests st'\<rparr>"
proof -
  note b = multiplier_ok_bounds [of n st]
  have m: "multiplier_ok n st" using assms by (simp add: requests_fit_def)
  let ?q = "\<lparr>req_stream = markers_channel (run_ctx st), req_elements = scast (markers_to_acquire st),
           req_size = get_size (markers_buffer (run_ctx st))\<rparr>"
  have "check_fetch_alignment (markers_channel (run_ctx st)) (scast (markers_to_acquire st)) = Inr ()"
    using b(1,2) [OF m] by (simp add: check_fetch_alignment_ok)
  moreover have "good_request n (markers_channel (run_ctx st)) ?q"
    using b [OF m] assms by (simp add: good_request_def requests_fit_def sint_get_size ctx_markers_def)
  ultimately show ?thesis
    using assms
    by (intro that [of "st\<lparr>run_requests := run_requests st @ [?q]\<rparr>"])
      (auto simp: markers_request_def requests_fit_def multiplier_ok_def ctx_markers_def)
qed

lemma requests_fit_take_reply:
  "requests_fit n st \<Longrightarrow> take_reply ut r st = (st', e) \<Longrightarrow> requests_fit n st'"
  by (auto simp: take_reply_def requests_fit_def multiplier_ok_def ctx_markers_def map_markers_def Let_def
      length_write_at split: sum.splits if_splits)

lemma requests_fit_after_fetch:
  assumes "requests_fit n st" "unat nw = n"
  shows "requests_fit n (after_fetch nw r st)"
  using assms multiplier_ok_after_fetch [of n st nw r]
  by (auto simp: requests_fit_def after_fetch_def Let_def map_markers_def ctx_markers_def
      advance_acquired_def advance_offset_def)

text \<open>
  An invariant of the run that each step of the fetch loop keeps holds however the loop ends. The
  interface is the steps of the loop; two invariants of the requests made are interpreted on it.
\<close>

locale fetch_invariant =
  fixes inv :: "zs1_run \<Rightarrow> bool" and nw :: u64
  assumes request_inv: "inv st \<Longrightarrow> markers_request st = Inr st' \<Longrightarrow> inv st'"
    and reply_inv: "inv st \<Longrightarrow> take_reply ut r st = (st', e) \<Longrightarrow> inv st'"
    and fetched_inv: "inv st \<Longrightarrow> inv (after_fetch nw r st)"
    and walked_inv: "inv st \<Longrightarrow> kept st' = kept st \<Longrightarrow> inv st'"
    and prepared_inv: "inv st \<Longrightarrow> prepare_fetch st = Inr st' \<Longrightarrow> inv st'"
begin

lemma walk_inv: "inv st \<Longrightarrow> inv (walk_state (walk_fetched nw st))"
  unfolding walk_fetched_def by (erule walked_inv) (rule kept_walk_hunks)

lemma run_markers_inv: "inv st \<Longrightarrow> inv (fst (run_markers nw ut rs st))"
proof (induction rs arbitrary: st)
  case Nil
  then show ?case
    by (cases "markers_request st") (auto dest: request_inv)
next
  case (Cons r rs)
  show ?case
  proof (cases "markers_request st")
    case (Inl err)
    with Cons.prems show ?thesis by simp
  next
    case st1: (Inr st1)
    obtain st2 e where st2: "take_reply ut r st1 = (st2, e)"
      by (cases "take_reply ut r st1")
    have inv2: "inv st2"
      using reply_inv [OF request_inv [OF Cons.prems st1] st2] .
    then have inv3: "inv (walk_state (walk_fetched nw (after_fetch nw r st2)))"
      by (intro walk_inv fetched_inv)
    show ?thesis
    proof (cases "e = None \<and> actual_elements_markers st2 \<noteq> 0")
      case False
      with st1 st2 inv2 Cons.IH show ?thesis by (cases e) auto
    next
      case True
      show ?thesis
      proof (cases "walk_fetched nw (after_fetch nw r st2)")
        case (Onward st3)
        with True st1 st2 inv3 Cons.IH prepared_inv [of st3] show ?thesis
          by (cases "prepare_fetch st3") simp_all
      qed (use True st1 st2 inv3 in simp_all)
    qed
  qed
qed

lemma walk_then_fetch_inv: "inv st \<Longrightarrow> inv (fst (walk_then_fetch nw ut rs st))"
  using walk_inv [of st] prepared_inv run_markers_inv
  by (auto simp: walk_then_fetch_def split: walk.splits sum.splits)

end

interpretation fits: fetch_invariant "requests_fit (unat nw)" nw for nw
proof
  fix st st'
  assume "requests_fit (unat nw) st" "markers_request st = Inr st'"
  then show "requests_fit (unat nw) st'"
    using requests_fit_request [of "unat nw" st] by fastforce
qed (auto intro: requests_fit_take_reply requests_fit_after_fetch requests_fit_kept requests_fit_prepare)

text \<open>Up to the samples fetch, every request is one on the markers stream.\<close>

definition only_markers :: "zs1_context \<Rightarrow> zs1_run \<Rightarrow> bool" where
  "only_markers ctx st \<longleftrightarrow>
     markers_channel (run_ctx st) = markers_channel ctx \<and> samples_channel (run_ctx st) = samples_channel ctx \<and>
     (\<forall>q \<in> set (run_requests st). req_stream q = markers_channel ctx)"

interpretation marks: fetch_invariant "only_markers ctx" nw for ctx nw
proof
  fix st st' :: zs1_run and ut r e
  show "only_markers ctx st \<Longrightarrow> take_reply ut r st = (st', e) \<Longrightarrow> only_markers ctx st'"
    by (auto simp: take_reply_def only_markers_def map_markers_def Let_def split: sum.splits if_splits)
  show "only_markers ctx st \<Longrightarrow> kept st' = kept st \<Longrightarrow> only_markers ctx st'"
    by (simp add: only_markers_def kept_def)
  show "only_markers ctx st \<Longrightarrow> prepare_fetch st = Inr st' \<Longrightarrow> only_markers ctx st'"
    by (auto simp: prepare_fetch_def only_markers_def Let_def split: if_splits)
qed (auto simp: markers_request_def bindR_Inr_iff only_markers_def after_fetch_def Let_def map_markers_def)

section \<open>Sound replies\<close>

text \<open>The run has just reset its markers buffer for a fetch.\<close>

definition ready :: "nat \<Rightarrow> zs1_run \<Rightarrow> bool" where
  "ready cap st \<longleftrightarrow>
     acquired_index (ctx_markers st) = 0 \<and> processed_index (ctx_markers st) = 0 \<and>
     buf_offset (ctx_markers st) = 0 \<and> length (buf_data (ctx_markers st)) = cap \<and> cap < 2147483648"

text \<open>What has been collected, and what the replay check reads; no fetch touches it.\<close>

definition collection :: "zs1_run \<Rightarrow> (trigger_data list \<times> u64 \<times> i32 \<times> acq_buffer) \<times>
    (bool \<times> trigger_seen) \<times> (string \<times> string)" where
  "collection st =
     ((run_stamps st, to_acquire st, trig_count st, run_samples_buffer st),
      (frame_first_trigger_checked (run_ctx st), frame_last_trigger (run_ctx st)),
      (markers_channel (run_ctx st), samples_channel (run_ctx st)))"

lemma collection_holds: "collection st' = collection st \<Longrightarrow> holds n st c \<Longrightarrow> holds n st' c"
  by (simp add: collection_def holds_def)

lemma collection_not_replayed:
  "collection st' = collection st \<Longrightarrow> not_replayed (run_ctx st) hs \<Longrightarrow> not_replayed (run_ctx st') hs"
  by (auto simp: collection_def not_replayed_def split: option.splits)

definition reply_hunks :: "fetch_reply \<Rightarrow> i32 list list" where
  "reply_hunks r = hunks_of (valid_elements r)"

lemma reply_hunks_empty: "sound_reply cap r \<Longrightarrow> reply_actual r = 0 \<Longrightarrow> reply_hunks r = []"
  by (simp add: reply_hunks_def valid_elements_def)

lemma take_sound_reply:
  assumes "ready cap st" "sound_reply cap r"
  obtains st' where "take_reply ut r st = (st', None)" "collection st' = collection st"
    "actual_elements_markers st' = reply_actual r" "requests_fit n st \<Longrightarrow> requests_fit n st'"
    "ready cap st'" "take (length (reply_data r)) (buf_data (ctx_markers st')) = reply_data r"
proof -
  let ?b = "ctx_markers st"
  have pos: "get_raw_unaquired ?b = 0"
    using assms(1) by (simp add: get_raw_unaquired_def ready_def)
  let ?b' = "?b\<lparr>buf_data := reply_data r @ drop (length (reply_data r)) (buf_data ?b)\<rparr>"
  have fits: "length (reply_data r) \<le> length (buf_data ?b)"
    using assms by (simp add: ready_def sound_reply_def)
  then have w: "write_at (get_raw_unaquired ?b) (reply_data r) ?b = Inr ?b'"
    by (simp add: pos write_at_def)
  let ?st = "map_markers (\<lambda>_. ?b') (st\<lparr>available_elements_markers := reply_available r,
      actual_elements_markers := reply_actual r\<rparr>)"
  have t: "take_reply ut r st = (?st, None)"
    using w assms(2) sound_reply_succeeds [OF assms(2)]
    by (simp add: take_reply_def ctx_markers_def sound_reply_def Let_def)
  show ?thesis
  proof (rule that [OF t])
    show "requests_fit n ?st" if "requests_fit n st"
      using that t by (rule requests_fit_take_reply)
  qed (use assms(1) fits in \<open>auto simp: collection_def map_markers_def ready_def ctx_markers_def\<close>)
qed

lemma sint_ucast_small:
  "0 \<le> sint (a :: i64) \<Longrightarrow> sint a < 2147483648 \<Longrightarrow> sint (ucast a :: i32) = sint a"
  using sint_ucast_64_32 [of a] uint_of_nonneg_sint [of a] by simp

lemma after_sound_fetch:
  assumes "ready cap st" "sound_reply cap r" "n < 2147483647"
    and "take (length (reply_data r)) (buf_data (ctx_markers st)) = reply_data r"
    and "actual_elements_markers st = reply_actual r"
  shows "collection (after_fetch nw r st) = collection st" (is ?coll)
    and "run_ok n (after_fetch nw r st)"
    and "unprocessed_hunks (after_fetch nw r st) = reply_hunks r"
    and "nat (sint (actual_elements_markers (after_fetch nw r st)) div 16) = length (reply_hunks r)"
proof -
  let ?st = "after_fetch nw r st" and ?b = "ctx_markers (after_fetch nw r st)"
  show ?coll
    by (simp add: collection_def after_fetch_def Let_def map_markers_def)
  have b: "buf_data ?b = buf_data (ctx_markers st)" "processed_index ?b = 0"
    "buf_offset ?b = ucast (reply_first r)" "acquired_index ?b = ucast (reply_actual r)"
    using assms(1)
    by (auto simp: after_fetch_def Let_def map_markers_def ctx_markers_def ready_def
        advance_acquired_def advance_offset_def)
  have cap: "cap < 2147483648"
    using assms(1) by (simp add: ready_def)
  have s: "0 \<le> sint (reply_first r)" "0 \<le> sint (reply_actual r)" "sint (reply_actual r) mod 16 = 0"
    "sint (reply_first r) + sint (reply_actual r) \<le> int (length (reply_data r))"
    "length (reply_data r) \<le> cap"
    using assms(2) by (simp_all add: sound_reply_def)
  have r: "sint (buf_offset ?b) = sint (reply_first r)" "sint (acquired_index ?b) = sint (reply_actual r)"
    using b s sound_reply_small [OF assms(2) cap] by (simp_all add: sint_ucast_small)
  have len: "length (buf_data ?b) = cap"
    using b assms(1) by (simp add: ready_def)
  have ok: "buffer_ok ?b"
    using r b s len cap by (simp add: buffer_ok_def)
  have "nat (sint (reply_actual r)) \<le> length (reply_data r) - nat (sint (reply_first r))"
    using s(1,2,4) by linarith
  then have "take (nat (sint (reply_actual r))) (drop (nat (sint (reply_first r))) (buf_data ?b)) =
      take (nat (sint (reply_actual r))) (drop (nat (sint (reply_first r)))
        (take (length (reply_data r)) (buf_data (ctx_markers st))))"
    using s b by (simp add: drop_take min_def)
  then have u: "unprocessed ?b = valid_elements r"
    using r b assms(4) by (simp add: unprocessed_def valid_elements_def)
  then show "unprocessed_hunks ?st = reply_hunks r"
    by (simp add: unprocessed_hunks_def reply_hunks_def)
  have l: "int (length (valid_elements r)) = sint (reply_actual r)"
    using assms(2) by (rule length_valid_elements)
  then have "length (valid_elements r) mod 16 = 0"
    using s(3) by (metis of_nat_eq_0_iff zmod_int of_nat_numeral)
  with ok u assms(3) show "run_ok n ?st"
    by (simp add: run_ok_def)
  show "nat (sint (actual_elements_markers ?st) div 16) = length (reply_hunks r)"
  proof -
    have "actual_elements_markers ?st = reply_actual r"
      using assms(5) by (simp add: after_fetch_def Let_def map_markers_def)
    then show ?thesis
      using l by (simp add: reply_hunks_def length_hunks_of flip: l)
  qed
qed

lemma prepare_ready:
  assumes "run_ok n st" "requests_fit n st" "length (buf_data (ctx_markers st)) = cap"
  obtains st' where "prepare_fetch st = Inr st'" "ready cap st'" "collection st' = collection st"
    "requests_fit n st'"
proof -
  let ?b = "ctx_markers st"
  have ok: "buffer_ok ?b" and cap: "cap < 2147483648"
    using assms by (simp_all add: run_ok_def buffer_ok_def)
  have "0 \<le> get_raw_unprocessed ?b - 16 \<and> nat (get_raw_unprocessed ?b - 16) + 16 \<le> length (buf_data ?b)"
    if "16 \<le> sint (get_processed ?b)"
    using that ok raw_unprocessed [OF ok] by (auto simp: buffer_ok_def get_processed_def)
  then have "\<exists>st'. prepare_fetch st = Inr st'"
    by (simp add: prepare_fetch_def Let_def ctx_markers_def)
  then obtain st' where st': "prepare_fetch st = Inr st'" ..
  show ?thesis
  proof (rule that [OF st'])
    show "requests_fit n st'"
      using assms(2) st' by (rule requests_fit_prepare)
  qed (use st' assms(3) cap in \<open>auto simp: prepare_fetch_def Let_def ready_def collection_def
      ctx_markers_def reset_buffer_def split: if_splits\<close>)
qed

lemma request_keeps:
  assumes "markers_request st = Inr st'"
  shows "collection st' = collection st" "ready cap st' = ready cap st"
  using assms by (auto simp: markers_request_def bindR_Inr_iff collection_def ready_def ctx_markers_def)

lemma holds_continues:
  assumes "holds n st c" "unat (nw :: u64) = n"
  shows "scast (trig_count st) \<le> nw"
proof -
  have "uint (scast (trig_count st) :: u64) = int (length (fst c))"
    using assms(1) by (simp add: uint_scast_32_64 holds_def)
  moreover have "uint nw = int n"
    using assms(2) by (simp add: uint_nat)
  moreover have "length (fst c) \<le> n"
    using assms(1) by (simp add: holds_def)
  ultimately show ?thesis
    unfolding word_le_def by linarith
qed

text \<open>
  The fetches deliver a stream, cut anywhere at hunk boundaries. The loop reads replies until the
  trigger after the last one asked for is in the buffer, and what it has collected is what
  \<open>feed\<close> computes from the uncut stream.
\<close>

lemma run_markers_refines:
  assumes "holds n st c" "requests_fit n st" "ready cap st" "unat nw = n" "n < 2147483647"
    and "not_replayed (run_ctx st) (concat (map reply_hunks ms))"
    and "ms \<noteq> []" "\<forall>r \<in> set ms. sound_reply cap r"
    and "feed n (concat (map reply_hunks (butlast ms))) c = More c0"
    and "feed n (concat (map reply_hunks ms)) c = Complete c' rest"
  shows "\<exists>st'. run_markers nw ut (ms @ rs) st = (st', Done rs) \<and> run_stamps st' = fst c' \<and>
    to_acquire st' = snd c' \<and> unprocessed_hunks st' = rest \<and> run_ok n st' \<and>
    run_samples_buffer st' = run_samples_buffer st \<and> requests_fit n st' \<and>
    samples_channel (run_ctx st') = samples_channel (run_ctx st)"
  using assms
proof (induction ms arbitrary: st c)
  case Nil
  then show ?case by simp
next
  case (Cons r ms)
  have sound: "sound_reply cap r"
    using Cons.prems by simp
  obtain st1 where st1: "markers_request st = Inr st1" "requests_fit n st1"
    using requests_fit_request [OF Cons.prems(2)] by metis
  then have coll1: "collection st1 = collection st" and ready1: "ready cap st1"
    using Cons.prems(3) request_keeps by blast+
  obtain st2 where st2: "take_reply ut r st1 = (st2, None)" "collection st2 = collection st1"
    "actual_elements_markers st2 = reply_actual r" "requests_fit n st2" "ready cap st2"
    "take (length (reply_data r)) (buf_data (ctx_markers st2)) = reply_data r"
    using take_sound_reply [OF ready1 sound, of ut] st1(2) by metis
  have holds2: "holds n st2 c" and fresh2: "not_replayed (run_ctx st2) (concat (map reply_hunks (r # ms)))"
    using Cons.prems(1,6) coll1 st2(2) collection_holds collection_not_replayed by metis+
  show ?case
  proof (cases "reply_actual r = 0")
    case True
    then have none: "reply_hunks r = []"
      using sound by (rule reply_hunks_empty [rotated])
    then have ms: "ms \<noteq> []"
      using Cons.prems(9,10) by auto
    have "\<exists>st'. run_markers nw ut (ms @ rs) st2 = (st', Done rs) \<and> run_stamps st' = fst c' \<and>
      to_acquire st' = snd c' \<and> unprocessed_hunks st' = rest \<and> run_ok n st' \<and>
      run_samples_buffer st' = run_samples_buffer st2 \<and> requests_fit n st' \<and>
      samples_channel (run_ctx st') = samples_channel (run_ctx st2)"
      using Cons.prems none ms fresh2
      by (intro Cons.IH [OF holds2 st2(4,5)]) simp_all
    then show ?thesis
      using st1 st2 True coll1 by (auto simp: collection_def)
  next
    case False
    let ?st3 = "after_fetch nw r st2"
    note a = after_sound_fetch [OF st2(5) sound Cons.prems(5) st2(6,3), of nw]
    have holds3: "holds n ?st3 c"
      using holds2 a(1) collection_holds by metis
    have fresh3: "not_replayed (run_ctx ?st3) (unprocessed_hunks ?st3 @ concat (map reply_hunks ms))"
      using fresh2 a(1,3) collection_not_replayed by fastforce
    have fit3: "requests_fit n ?st3"
      using st2(4) Cons.prems(4) by (rule requests_fit_after_fetch)
    have "walk_fetched nw ?st3 = walk_hunks nw (length (unprocessed_hunks ?st3)) ?st3"
      using a(3,4) by (simp add: walk_fetched_def)
    note w = walk_hunks_refines [OF holds3 a(2) Cons.prems(4) fresh3 refl, folded this, unfolded a(3)]
    have cap3: "length (buf_data (ctx_markers ?st3)) = cap"
      using st2(5) by (simp add: ready_def after_fetch_def Let_def map_markers_def ctx_markers_def
          advance_acquired_def advance_offset_def)
    show ?thesis
    proof (cases "ms = []")
      case last: True
      then have "feed n (reply_hunks r) c = Complete c' rest"
        using Cons.prems(10) by simp
      then obtain st4 where st4: "walk_fetched nw ?st3 = Reached st4" "run_stamps st4 = fst c'"
        "to_acquire st4 = snd c'" "run_ok n st4" "unprocessed_hunks st4 = rest" "kept st4 = kept ?st3"
        using w by blast
      moreover have "requests_fit n st4"
        using fit3 st4(6) by (rule requests_fit_kept)
      moreover have "run_samples_buffer st4 = run_samples_buffer st"
        "samples_channel (run_ctx st4) = samples_channel (run_ctx st)"
        using st4(6) a(1) st2(2) coll1 by (auto simp: kept_def collection_def)
      ultimately show ?thesis
        using st1 st2 False last by simp
    next
      case more: False
      then obtain c1 where c1: "feed n (reply_hunks r) c = More c1"
        "feed n (concat (map reply_hunks (butlast ms))) c1 = More c0"
        "feed n (concat (map reply_hunks ms)) c1 = Complete c' rest"
        using Cons.prems(9,10) by (auto simp: feed_append split: feeding.splits)
      then obtain st4 where st4: "walk_fetched nw ?st3 = Onward st4" "holds n st4 c1" "run_ok n st4"
        "kept st4 = kept ?st3" "not_replayed (run_ctx st4) (concat (map reply_hunks ms))"
        using w by blast
      have fit4: "requests_fit n st4"
        using fit3 st4(4) by (rule requests_fit_kept)
      have "length (buf_data (ctx_markers st4)) = cap"
        using cap3 st4(4) by (simp add: kept_def ctx_markers_def)
      with st4(3) fit4 obtain st5 where st5: "prepare_fetch st4 = Inr st5" "ready cap st5"
        "collection st5 = collection st4" "requests_fit n st5"
        using prepare_ready by metis
      have "\<exists>st'. run_markers nw ut (ms @ rs) st5 = (st', Done rs) \<and> run_stamps st' = fst c' \<and>
        to_acquire st' = snd c' \<and> unprocessed_hunks st' = rest \<and> run_ok n st' \<and>
        run_samples_buffer st' = run_samples_buffer st5 \<and> requests_fit n st' \<and>
        samples_channel (run_ctx st') = samples_channel (run_ctx st5)"
        using Cons.prems c1 more st4 st5 collection_holds [OF st5(3)] collection_not_replayed [OF st5(3)]
        by (intro Cons.IH [of st5 c1]) simp_all
      moreover have "run_samples_buffer st5 = run_samples_buffer st"
        "samples_channel (run_ctx st5) = samples_channel (run_ctx st)"
        using st5(3) st4(4) a(1) st2(2) coll1 by (auto simp: kept_def collection_def)
      ultimately show ?thesis
        using st1 st2 False st4(1) st5(1) holds_continues [OF st4(2) Cons.prems(4)] by simp
    qed
  qed
qed

end
