(* ===== verification/Zs1_Acquire.thy ===== *)
theory Zs1_Acquire
  imports Marker_Fetch
begin

text \<open>
  \<open>CstZs1Context::acquire\<close> as a whole: what it returns whatever the driver answers, and
  what it returns for a sound driver.
\<close>

section \<open>A small stream\<close>

text \<open>Two triggers with one gate between them, and the sixteen elements of the gate.\<close>

definition example_trigger :: "i32 \<Rightarrow> i32 list" where
  "example_trigger t = [0x101, t * 256, 0] @ replicate 13 0"

definition example_gate :: "i32 list" where
  "example_gate = [0x01000004, 0x02000000, 0x02000000, 0x03000000] @ replicate 12 0"

definition example_markers :: "i32 list" where
  "example_markers = example_trigger 5 @ example_gate @ example_trigger 9"

definition good_reply :: "i32 list \<Rightarrow> fetch_reply" where
  "good_reply ws =
     \<lparr>reply_status = 0, reply_code = 0, reply_message = [], reply_data = ws, reply_available = 0,
      reply_actual = of_nat (length ws), reply_first = 0, reply_late = False\<rparr>"

definition example_context :: zs1_context where
  "example_context = new_zs1_context ''Channel1'' 1 False"

definition example_replies :: "fetch_reply list" where
  "example_replies = [good_reply example_markers, good_reply (replicate 16 7)]"

definition example_pool :: buffer_pool where
  "example_pool = new_pool 1 32 1 1"

section \<open>Whatever the driver answers\<close>

lemma collection_take_reply:
  "take_reply ut r st = (st', e) \<Longrightarrow> collection st' = collection st"
  by (auto simp: take_reply_def collection_def map_markers_def Let_def split: sum.splits if_splits)

lemma collection_after_fetch [simp]: "collection (after_fetch nw r st) = collection st"
  by (simp add: collection_def after_fetch_def Let_def map_markers_def)

lemma collection_prepare: "prepare_fetch st = Inr st' \<Longrightarrow> collection st' = collection st"
  by (auto simp: prepare_fetch_def Let_def collection_def split: if_splits)

text \<open>
  An invariant of the walk is an invariant of the fetch loop when it reads nothing but what has been
  collected.
\<close>

lemma walk_hunks_invariant:
  assumes onward: "\<And>seg st st'. P st \<Longrightarrow> walk_hunk nw seg st = Onward st' \<Longrightarrow> P st'"
    and reached: "\<And>seg st st'. P st \<Longrightarrow> read_hunk (ctx_markers st) = Inr seg \<Longrightarrow>
      walk_hunk nw seg st = Reached st' \<Longrightarrow> Q st'"
    and "P st"
  shows "(\<forall>st'. walk_hunks nw k st = Onward st' \<longrightarrow> P st') \<and> (\<forall>st'. walk_hunks nw k st = Reached st' \<longrightarrow> Q st')"
  using assms(3)
proof (induction k arbitrary: st)
  case (Suc k)
  show ?case
  proof (cases "read_hunk (markers_buffer (run_ctx st))")
    case (Inr seg)
    show ?thesis
    proof (cases "walk_hunk nw seg st")
      case (Onward st1)
      with Suc.IH [OF onward [OF Suc.prems Onward]] Inr show ?thesis by simp
    next
      case (Reached st1)
      with reached [OF Suc.prems _ Reached] Inr show ?thesis by (simp add: ctx_markers_def)
    qed (simp add: Inr)
  qed simp
qed simp

lemma run_markers_invariant:
  assumes coll: "\<And>a b. collection a = collection b \<Longrightarrow> P a \<Longrightarrow> P b"
    and onward: "\<And>seg st st'. P st \<Longrightarrow> walk_hunk nw seg st = Onward st' \<Longrightarrow> P st'"
    and reached: "\<And>seg st st'. P st \<Longrightarrow> read_hunk (ctx_markers st) = Inr seg \<Longrightarrow>
      walk_hunk nw seg st = Reached st' \<Longrightarrow> Q st'"
    and small: "\<And>st. P st \<Longrightarrow> scast (trig_count st) \<le> nw"
    and "P st" "run_markers nw ut rs st = (st', Done rs')"
  shows "Q st'"
  using assms(5,6)
proof (induction rs arbitrary: st)
  case Nil
  then show ?case by (auto split: sum.splits)
next
  case (Cons r rs)
  obtain st1 where st1: "markers_request st = Inr st1"
    using Cons.prems(2) by (auto split: sum.splits)
  then obtain st2 where st2: "take_reply ut r st1 = (st2, None)"
    using Cons.prems(2) by (auto split: prod.splits option.splits)
  have P2: "P st2"
    using Cons.prems(1) coll [of st st1] coll [of st1 st2] request_keeps(1) [OF st1]
      collection_take_reply [OF st2] by metis
  show ?case
  proof (cases "actual_elements_markers st2 = 0")
    case True
    with Cons.IH [OF P2] Cons.prems(2) st1 st2 show ?thesis by simp
  next
    case False
    have P3: "P (after_fetch nw r st2)"
      using P2 coll [of st2] by simp
    note w = walk_hunks_invariant [of P nw Q, OF onward reached P3]
    show ?thesis
    proof (cases "walk_fetched nw (after_fetch nw r st2)")
      case (Onward st3)
      then have P3: "P st3"
        using w by (simp add: walk_fetched_def)
      with Cons.prems(2) st1 st2 False Onward small [OF P3] obtain st4 where
        st4: "prepare_fetch st3 = Inr st4" "run_markers nw ut rs st4 = (st', Done rs')"
        by (auto split: sum.splits)
      have "P st4"
        using coll [OF collection_prepare [OF st4(1), symmetric] P3] .
      then show ?thesis
        using st4(2) by (rule Cons.IH)
    next
      case (Reached st3)
      with Cons.prems(2) st1 st2 False w show ?thesis
        by (simp add: walk_fetched_def)
    next
      case (Stopped e st3)
      with Cons.prems(2) st1 st2 False show ?thesis by simp
    qed
  qed
qed

lemma walk_then_fetch_invariant:
  assumes coll: "\<And>a b. collection a = collection b \<Longrightarrow> P a \<Longrightarrow> P b"
    and onward: "\<And>seg st st'. P st \<Longrightarrow> walk_hunk nw seg st = Onward st' \<Longrightarrow> P st'"
    and reached: "\<And>seg st st'. P st \<Longrightarrow> read_hunk (ctx_markers st) = Inr seg \<Longrightarrow>
      walk_hunk nw seg st = Reached st' \<Longrightarrow> Q st'"
    and small: "\<And>st. P st \<Longrightarrow> scast (trig_count st) \<le> nw"
    and "P st" "walk_then_fetch nw ut rs st = (st', Done rs')"
  shows "Q st'"
proof (cases "walk_fetched nw st")
  case (Onward st1)
  note w = walk_hunks_invariant [of P nw Q, OF onward reached assms(5)]
  have P1: "P st1"
    using w Onward by (simp add: walk_fetched_def)
  then obtain st2 where st2: "prepare_fetch st1 = Inr st2" "run_markers nw ut rs st2 = (st', Done rs')"
    using assms(6) Onward small [OF P1] by (auto simp: walk_then_fetch_def split: sum.splits)
  have "P st2"
    using coll [OF collection_prepare [OF st2(1), symmetric] P1] .
  show ?thesis
  proof (rule run_markers_invariant [of P nw Q])
    show "P st2" "run_markers nw ut rs st2 = (st', Done rs')" by fact+
  qed (use coll onward reached small in blast)+
next
  case (Reached st1)
  with walk_hunks_invariant [of P nw Q, OF onward reached assms(5)] assms(6) show ?thesis
    by (auto simp: walk_then_fetch_def walk_fetched_def)
next
  case (Stopped e st1)
  with assms(6) show ?thesis by (simp add: walk_then_fetch_def)
qed

subsection \<open>Triggers returned\<close>

text \<open>
  Between hunks, the trigger count is the number of triggers collected and is at most what was asked
  for; and the first trigger of a frame is only collected when it is past the previous frame's last.
\<close>

definition counts_ok :: "nat \<Rightarrow> zs1_run \<Rightarrow> bool" where
  "counts_ok n st \<longleftrightarrow> sint (trig_count st) = int (length (run_stamps st)) \<and> length (run_stamps st) \<le> n"

definition past_last_frame :: "zs1_context \<Rightarrow> zs1_run \<Rightarrow> bool" where
  "past_last_frame ctx st \<longleftrightarrow>
     frame_last_trigger (run_ctx st) = frame_last_trigger ctx \<and>
     (run_stamps st = [] \<longrightarrow>
        frame_first_trigger_checked (run_ctx st) = frame_first_trigger_checked ctx) \<and>
     (run_stamps st \<noteq> [] \<and> \<not> frame_first_trigger_checked ctx \<and> seen_valid (frame_last_trigger ctx) \<longrightarrow>
        seen_timestamp (frame_last_trigger ctx) < trig_timestamp (hd (run_stamps st)))"

lemma add_gate_timestamps: "ts \<noteq> [] \<Longrightarrow> map trig_timestamp (add_gate g ts) = map trig_timestamp ts"
  by (cases ts rule: rev_cases) (simp_all add: add_gate_def)

lemma gate_sub_block_stamps:
  "map trig_timestamp (run_stamps (gate_sub_block seg i st)) = map trig_timestamp (run_stamps st) \<and>
   trig_count (gate_sub_block seg i st) = trig_count st \<and>
   frame_last_trigger (run_ctx (gate_sub_block seg i st)) = frame_last_trigger (run_ctx st) \<and>
   frame_first_trigger_checked (run_ctx (gate_sub_block seg i st)) = frame_first_trigger_checked (run_ctx st)"
proof -
  obtain g f where "decode_gate (drop (4 * i) seg) = (g, f)" by fastforce
  then show ?thesis
    by (cases "run_stamps st = []")
      (simp_all add: gate_sub_block_def Let_def note_gate_def add_gate_timestamps)
qed

lemma gate_sub_blocks_stamps:
  "map trig_timestamp (run_stamps (fold (gate_sub_block seg) is st)) = map trig_timestamp (run_stamps st) \<and>
   trig_count (fold (gate_sub_block seg) is st) = trig_count st \<and>
   frame_last_trigger (run_ctx (fold (gate_sub_block seg) is st)) = frame_last_trigger (run_ctx st) \<and>
   frame_first_trigger_checked (run_ctx (fold (gate_sub_block seg) is st)) = frame_first_trigger_checked (run_ctx st)"
  by (induction "is" arbitrary: st) (simp_all add: gate_sub_block_stamps)

lemma hd_timestamp:
  assumes "map trig_timestamp xs = map trig_timestamp ys"
  shows "xs = [] \<longleftrightarrow> ys = []" "ys \<noteq> [] \<Longrightarrow> trig_timestamp (hd xs) = trig_timestamp (hd ys)"
  using assms by (metis map_is_Nil_conv, metis hd_map map_is_Nil_conv)

lemma past_last_frame_onward:
  assumes "past_last_frame ctx st" "walk_hunk nw seg st = Onward st'"
  shows "past_last_frame ctx st'"
proof (cases "hunk_kind seg = 1")
  case True
  let ?st2 = "st\<lparr>trig_count := trig_count st + 1,
    run_stamps := run_stamps st @ [new_trigger_data (trigger_timestamp seg) (trigger_number seg) (trigger_subsample seg)]\<rparr>"
  obtain ctx' where ctx': "note_trigger (trigger_timestamp seg) (trigger_number seg) (run_ctx st) = (ctx', None)"
    "st' = map_markers (advance_processed 16) (?st2\<lparr>run_ctx := ctx'\<rparr>)"
    using True assms(2) by (auto simp: walk_hunk_def Let_def split: if_splits prod.splits option.splits)
  then have "frame_last_trigger ctx' = frame_last_trigger (run_ctx st)"
    "frame_first_trigger_checked (run_ctx st) \<or> \<not> seen_valid (frame_last_trigger (run_ctx st)) \<or>
       seen_timestamp (frame_last_trigger (run_ctx st)) < trigger_timestamp seg"
    by (auto simp: note_trigger_def Let_def split: if_splits)
  with assms(1) ctx'(2) show ?thesis
    by (cases "run_stamps st") (auto simp: past_last_frame_def map_markers_def new_trigger_data_def)
next
  case False
  then have "st' = map_markers (advance_processed 16) (fold (gate_sub_block seg) [0, 1, 2, 3] st)"
    using assms(2) by (auto simp: walk_hunk_def Let_def split: if_splits)
  then have "map trig_timestamp (run_stamps st') = map trig_timestamp (run_stamps st)"
    "frame_last_trigger (run_ctx st') = frame_last_trigger (run_ctx st)"
    "frame_first_trigger_checked (run_ctx st') = frame_first_trigger_checked (run_ctx st)"
    using gate_sub_blocks_stamps [of seg "[0, 1, 2, 3]" st] by (simp_all add: map_markers_def)
  with assms(1) hd_timestamp [of "run_stamps st'" "run_stamps st"] show ?thesis
    by (simp add: past_last_frame_def)
qed

lemma counts_ok_onward:
  assumes "counts_ok n st" "walk_hunk nw seg st = Onward st'" "unat nw = n" "n < 2147483647"
  shows "counts_ok n st'"
proof (cases "hunk_kind seg = 1")
  case True
  then have less: "\<not> nw + 1 \<le> scast (trig_count st + 1)"
    and st': "trig_count st' = trig_count st + 1" "length (run_stamps st') = Suc (length (run_stamps st))"
    using assms(2)
    by (auto simp: walk_hunk_def Let_def map_markers_def split: if_splits prod.splits option.splits)
  have count: "sint (trig_count st + 1) = int (length (run_stamps st)) + 1"
    using assms(1,4) by (subst sint32_add) (auto simp: counts_ok_def)
  then have "uint (scast (trig_count st + 1) :: u64) = int (length (run_stamps st)) + 1"
    by (simp add: uint_scast_32_64)
  moreover have "uint (nw + 1) = int n + 1"
    using assms(3,4) by (subst uint64_add) (auto simp: uint_nat)
  ultimately have "length (run_stamps st) < n"
    using less unfolding word_le_def by linarith
  with st' count show ?thesis
    by (simp add: counts_ok_def)
next
  case False
  then have "st' = map_markers (advance_processed 16) (fold (gate_sub_block seg) [0, 1, 2, 3] st)"
    using assms(2) by (auto simp: walk_hunk_def Let_def split: if_splits)
  then have "map trig_timestamp (run_stamps st') = map trig_timestamp (run_stamps st)"
    "trig_count st' = trig_count st"
    using gate_sub_blocks_stamps [of seg "[0, 1, 2, 3]" st] by (simp_all add: map_markers_def)
  with assms(1) map_eq_imp_length_eq [OF this(1)] show ?thesis
    by (simp add: counts_ok_def)
qed

lemma reached_trigger:
  assumes "walk_hunk nw seg st = Reached st'"
  shows "hunk_kind seg = 1 \<and> st' = st\<lparr>trig_count := trig_count st + 1\<rparr> \<and> nw + 1 \<le> scast (trig_count st')"
  using assms by (auto simp: walk_hunk_def Let_def split: if_splits prod.splits option.splits)

lemma counts_ok_reached:
  assumes "counts_ok n st" "walk_hunk nw seg st = Reached st'" "unat nw = n" "n < 2147483647"
  shows "length (run_stamps st') = n"
proof -
  note r = reached_trigger [OF assms(2)]
  have count: "sint (trig_count st + 1) = int (length (run_stamps st)) + 1"
    using assms(1,4) by (subst sint32_add) (auto simp: counts_ok_def)
  then have "uint (scast (trig_count st + 1) :: u64) = int (length (run_stamps st)) + 1"
    by (simp add: uint_scast_32_64)
  moreover have "uint (nw + 1) = int n + 1"
    using assms(3,4) by (subst uint64_add) (auto simp: uint_nat)
  ultimately have "n \<le> length (run_stamps st)"
    using r unfolding word_le_def by auto
  with assms(1) r show ?thesis
    by (simp add: counts_ok_def)
qed

lemma counts_ok_small:
  assumes "counts_ok n st" "unat (nw :: u64) = n"
  shows "scast (trig_count st) \<le> nw"
  using assms by (intro holds_continues [of n st "(run_stamps st, to_acquire st)"])
    (auto simp: counts_ok_def holds_def)

subsection \<open>The samples fetch\<close>

definition samples_requested :: "zs1_run \<Rightarrow> zs1_run \<Rightarrow> bool" where
  "samples_requested st st' \<longleftrightarrow>
     run_stamps st' = run_stamps st \<and> run_ctx st' = run_ctx st \<and> to_acquire st' = to_acquire st \<and>
     buf_samples_per_trigger (run_samples_buffer st') = buf_samples_per_trigger (run_samples_buffer st) \<and>
     (\<forall>q \<in> set (run_requests st'). q \<in> set (run_requests st) \<or>
        req_stream q = samples_channel (run_ctx st) \<and> 0 < sint (req_elements q) \<and>
        sint (req_elements q) mod 16 = 0)"

lemma samples_request_frame:
  "samples_request fetched st = Inr st' \<Longrightarrow> samples_requested st st'"
  by (auto simp: samples_request_def bindR_Inr_iff samples_requested_def check_fetch_alignment_ok)

lemma take_samples_frame: "take_samples r st = Inr st' \<Longrightarrow> samples_requested st st'"
  by (auto simp: take_samples_def bindR_Inr_iff samples_requested_def map_samples_def
      advance_acquired_def advance_offset_def dest: write_at_frame split: if_splits)

lemma samples_requested_trans:
  "samples_requested a b \<Longrightarrow> samples_requested b c \<Longrightarrow> samples_requested a c"
  by (auto simp: samples_requested_def)

lemma run_samples_frame: "samples_requested st (fst (run_samples fetched rs st))"
proof (induction rs arbitrary: fetched st)
  case Nil
  then show ?case
    using samples_request_frame [of fetched st]
    by (cases "samples_request fetched st") (auto simp: samples_requested_def)
next
  case (Cons r rs)
  show ?case
  proof (cases "samples_request fetched st")
    case (Inl e)
    then show ?thesis by (simp add: samples_requested_def)
  next
    case (Inr st1)
    then have step: "samples_requested st st1"
      by (rule samples_request_frame)
    show ?thesis
    proof (cases "take_samples r st1")
      case (Inl e)
      with Inr step show ?thesis by (simp add: samples_requested_def)
    next
      case 2: (Inr st2)
      then have "samples_requested st st2"
        using step take_samples_frame samples_requested_trans by metis
      then have "samples_requested st (fst (run_samples (fetched + reply_actual r) rs st2))"
        using Cons.IH samples_requested_trans by metis
      with Inr 2 show ?thesis by (simp add: samples_requested_def)
    qed
  qed
qed

text \<open>How a call ends: in the markers phase, or in the samples phase after it.\<close>

lemma acquire_run_cases:
  assumes "acquire_run n ut rs ctx b = (st, e)"
  obtains (start) "st = new_run n ctx b" "\<exists>x. e = Threw x"
  | (markers) "walk_then_fetch n ut rs (new_run n ctx b) = (st, e)" "\<nexists>rs'. e = Done rs'"
  | (samples) st1 rs1 where "walk_then_fetch n ut rs (new_run n ctx b) = (st1, Done rs1)"
      "run_samples 0 rs1 st1 = (st, e)"
  using assms by (auto simp: acquire_run_def Let_def split: if_splits prod.splits ending.splits)

lemma only_markers_new_run: "only_markers ctx (new_run n ctx b)"
  by (simp add: only_markers_def new_run_def)

lemma acquire_returns_triggers:
  assumes "unat n < 2147483647"
    and "zs1_acquire n ut rs ctx p = ((ctx', p', qs), Done (d, rs'))"
  shows "length (stamps d) = unat n \<and>
    (\<exists>h. read_hunk (markers_buffer ctx') = Inr h \<and> is_trigger_hunk h)"
proof -
  obtain k p1 where p1: "get_buffer p = (k, p1)" by fastforce
  obtain st where st: "acquire_run n ut rs ctx (buffer_of p1 k) = (st, Done rs')"
    "ctx' = run_ctx st" "stamps d = run_stamps st"
    using assms(2) p1 by (auto simp: zs1_acquire_def Let_def split: prod.splits ending.splits)
  from st(1) obtain st1 rs1 where st1: "walk_then_fetch n ut rs (new_run n ctx (buffer_of p1 k)) = (st1, Done rs1)"
    "run_samples 0 rs1 st1 = (st, Done rs')"
    by (cases rule: acquire_run_cases) auto
  let ?Q = "\<lambda>s. length (run_stamps s) = unat n \<and> (\<exists>h. read_hunk (ctx_markers s) = Inr h \<and> is_trigger_hunk h)"
  have "?Q st1"
  proof (rule walk_then_fetch_invariant [of "counts_ok (unat n)" n ?Q])
    show "counts_ok (unat n) (new_run n ctx (buffer_of p1 k))"
      by (simp add: counts_ok_def new_run_def)
    show "counts_ok (unat n) b" if "collection a = collection b" "counts_ok (unat n) a" for a b
      using that by (simp add: collection_def counts_ok_def)
    show "?Q s'" if "counts_ok (unat n) s" "read_hunk (ctx_markers s) = Inr seg"
      "walk_hunk n seg s = Reached s'" for seg s s'
      using counts_ok_reached [OF that(1,3) refl assms(1)] reached_trigger [OF that(3)] that(2)
      by (simp add: is_trigger_hunk_def ctx_markers_def)
  qed (use st1(1) assms(1) counts_ok_onward counts_ok_small in blast)+
  moreover have "samples_requested st1 st"
    using run_samples_frame [of st1 0 rs1] st1(2) by simp
  ultimately show ?thesis
    using st by (simp add: samples_requested_def ctx_markers_def)
qed

text \<open>whatever the driver answers, an \<open>acquire\<close> that returns has collected exactly the
  triggers it was asked for, and the next hunk in its markers buffer is the trigger after them, so
  the next call starts on a trigger.\<close>

theorem acquire_returns_requested_triggers:
  assumes "unat n < 2147483647"
    and "zs1_acquire n ut rs ctx p = ((ctx', p', qs), Done (d, rs'))"
  shows "length (stamps d) = unat n \<and>
    (\<exists>h. read_hunk (markers_buffer ctx') = Inr h \<and> is_trigger_hunk h)"
  using assms by (rule acquire_returns_triggers)

lemma example_acquire:
  "case zs1_acquire 1 False example_replies example_context example_pool of
     ((ctx, p, qs), Done (d, rs)) \<Rightarrow>
       rs = [] \<and> map trig_timestamp (stamps d) = [5] \<and> length qs = 2 \<and>
       acquired_index (buffer_of p (samples_slot d)) = 16
   | _ \<Rightarrow> False"
  by code_simp

theorem acquire_returns_requested_triggers_witness:
  "\<exists>d rs. snd (zs1_acquire 1 False example_replies example_context example_pool) = Done (d, rs) \<and>
     length (stamps d) = 1"
proof -
  obtain ctx p qs d rs where r: "zs1_acquire 1 False example_replies example_context example_pool =
      ((ctx, p, qs), Done (d, rs))"
    using example_acquire by (auto split: prod.splits ending.splits)
  have "unat (1 :: u64) < 2147483647" by simp
  from acquire_returns_requested_triggers [OF this r] r show ?thesis by simp
qed

text \<open>C20: no element of the samples stream is asked for against a replayed markers stream: when an
  \<open>acquire\<close> that opens a frame makes any request on the samples channel, then the first
  trigger it collected is past the last trigger of the frame before.\<close>

theorem no_samples_for_replayed_markers:
  assumes "1 \<le> unat n" "unat n < 2147483647" "markers_channel ctx \<noteq> samples_channel ctx"
    and "\<not> frame_first_trigger_checked ctx" "seen_valid (frame_last_trigger ctx)"
    and "acquire_run n ut rs ctx b = (st, e)"
    and "q \<in> set (run_requests st)" "req_stream q = samples_channel ctx"
  shows "run_stamps st \<noteq> [] \<and>
    seen_timestamp (frame_last_trigger ctx) < trig_timestamp (hd (run_stamps st))"
proof -
  have inv: "only_markers ctx (fst (walk_then_fetch n ut rs (new_run n ctx b)))"
    by (intro marks.walk_then_fetch_inv only_markers_new_run)
  from assms(6) show ?thesis
  proof (cases rule: acquire_run_cases)
    case start
    with assms(7) show ?thesis by (simp add: new_run_def)
  next
    case markers
    with inv assms(3,7,8) show ?thesis by (auto simp: only_markers_def)
  next
    case (samples st1 rs1)
    let ?P = "\<lambda>s. counts_ok (unat n) s \<and> past_last_frame ctx s"
    let ?Q = "\<lambda>s. length (run_stamps s) = unat n \<and> past_last_frame ctx s"
    have "?Q st1"
    proof (rule walk_then_fetch_invariant [of ?P n ?Q])
      show "?P (new_run n ctx b)"
        by (simp add: counts_ok_def past_last_frame_def new_run_def)
      show "?P b" if "collection a = collection b" "?P a" for a b
        using that by (simp add: collection_def counts_ok_def past_last_frame_def)
      show "?Q s'" if "?P s" "read_hunk (ctx_markers s) = Inr seg" "walk_hunk n seg s = Reached s'" for seg s s'
        using counts_ok_reached [OF conjunct1 [OF that(1)] that(3) refl assms(2)] reached_trigger [OF that(3)] that(1)
        by (simp add: past_last_frame_def)
    qed (use samples(1) assms(2) counts_ok_onward counts_ok_small past_last_frame_onward in blast)+
    moreover have "samples_requested st1 st"
      using run_samples_frame [of st1 0 rs1] samples(2) by simp
    ultimately show ?thesis
      using assms(1,4,5) by (auto simp: samples_requested_def past_last_frame_def)
  qed
qed

definition second_frame :: zs1_context where
  "second_frame = example_context
     \<lparr>frame_last_trigger := \<lparr>seen_valid = True, seen_timestamp = 3, seen_index = 0\<rparr>\<rparr>"

theorem no_samples_for_replayed_markers_witness:
  "(3 :: u64) < trig_timestamp (hd (run_stamps (fst
     (acquire_run 1 False example_replies second_frame (buffer_of example_pool 0)))))"
proof -
  let ?r = "acquire_run 1 False example_replies second_frame (buffer_of example_pool 0)"
  have req: "last (run_requests (fst ?r)) \<in> set (run_requests (fst ?r))"
    "req_stream (last (run_requests (fst ?r))) = samples_channel second_frame"
    by code_simp+
  have "1 \<le> unat (1 :: u64)" "unat (1 :: u64) < 2147483647" by simp_all
  moreover have "markers_channel second_frame \<noteq> samples_channel second_frame"
    "\<not> frame_first_trigger_checked second_frame" "seen_valid (frame_last_trigger second_frame)"
    by code_simp+
  moreover have "?r = (fst ?r, snd ?r)" by simp
  ultimately have "seen_timestamp (frame_last_trigger second_frame) < trig_timestamp (hd (run_stamps (fst ?r)))"
    using req by (rule no_samples_for_replayed_markers [THEN conjunct2])
  then show ?thesis by (simp add: second_frame_def)
qed

text \<open>C23: whatever the driver answers, every fetch an \<open>acquire\<close> asks for is a strictly
  positive multiple of sixteen elements, and one on the markers stream leaves the fifteen elements
  of slack the driver wants in the markers buffer, however often the request has grown.\<close>

theorem acquire_requests_fit:
  assumes "1 \<le> unat n" "unat n * 128 + 15 \<le> length (buf_data (markers_buffer ctx))"
    and "length (buf_data (markers_buffer ctx)) < 2147483648"
    and "markers_channel ctx \<noteq> samples_channel ctx"
    and "zs1_acquire n ut rs ctx p = ((ctx', p', qs), e)"
  shows "\<forall>q \<in> set qs. good_request (unat n) (markers_channel ctx) q"
proof -
  obtain k p1 where p1: "get_buffer p = (k, p1)" by fastforce
  let ?new = "new_run n ctx (buffer_of p1 k)"
  obtain st e' where st: "acquire_run n ut rs ctx (buffer_of p1 k) = (st, e')" "qs = run_requests st"
    using assms(5) p1 by (auto simp: zs1_acquire_def Let_def split: prod.splits ending.splits)
  have "unat n * 128 < 2147483632"
    using assms(2,3) by presburger
  then have new: "requests_fit (unat n) ?new"
    using assms(1-4) multiplier_ok_new_run [of n "unat n" ctx "buffer_of p1 k"]
    by (simp add: requests_fit_def new_run_def ctx_markers_def)
  note fit = fits.walk_then_fetch_inv [OF new, of ut rs]
    and mark = marks.walk_then_fetch_inv [OF only_markers_new_run, of ctx n ut rs n "buffer_of p1 k"]
  from st(1) show ?thesis
  proof (cases rule: acquire_run_cases)
    case start
    with st(2) show ?thesis by (simp add: new_run_def)
  next
    case markers
    with fit mark st(2) show ?thesis by (simp add: requests_fit_def only_markers_def)
  next
    case (samples st1 rs1)
    moreover have "samples_requested st1 st"
      using run_samples_frame [of st1 0 rs1] samples(2) by simp
    ultimately show ?thesis
      using fit mark st(2) assms(4)
      by (auto simp: requests_fit_def only_markers_def samples_requested_def good_request_def)
  qed
qed

theorem acquire_requests_fit_witness:
  "list_all (good_request 1 ''MarkersCh1'')
     (snd (snd (fst (zs1_acquire 1 False example_replies example_context example_pool))))"
proof -
  have "zs1_acquire 1 False example_replies example_context example_pool =
    ((fst (fst (zs1_acquire 1 False example_replies example_context example_pool)),
      fst (snd (fst (zs1_acquire 1 False example_replies example_context example_pool))),
      snd (snd (fst (zs1_acquire 1 False example_replies example_context example_pool)))),
     snd (zs1_acquire 1 False example_replies example_context example_pool))"
    by simp
  moreover have "1 \<le> unat (1 :: u64)" by simp
  moreover have "unat (1 :: u64) * 128 + 15 \<le> length (buf_data (markers_buffer example_context))"
    "length (buf_data (markers_buffer example_context)) < 2147483648"
    by (simp_all add: example_context_def new_zs1_context_def new_buffer_of_size_def
        markers_hunk_size_def multiplier_max_def)
  moreover have "markers_channel example_context \<noteq> samples_channel example_context"
    by code_simp
  ultimately have "\<forall>q \<in> set (snd (snd (fst (zs1_acquire 1 False example_replies example_context example_pool)))).
      good_request (unat (1 :: u64)) (markers_channel example_context) q"
    using acquire_requests_fit by metis
  then show ?thesis
    by (simp add: list_all_iff example_context_def new_zs1_context_def)
qed

end
