(* ===== verification/Zs1_Refinement.thy ===== *)
theory Zs1_Refinement
  imports Zs1_Acquire
begin

text \<open>
  The functional correctness of \<open>CstZs1Context::acquire\<close> for a sound driver: it refines
  \<open>feed\<close> on the uncut markers stream and hands over exactly the elements of the samples
  stream its gates announce.
\<close>

section \<open>The samples stream\<close>

definition acquired_elements :: "acq_buffer \<Rightarrow> i32 list" where
  "acquired_elements b =
     take (nat (sint (acquired_index b))) (drop (nat (sint (buf_offset b))) (buf_data b))"

text \<open>
  Replies that deliver \<open>left\<close> elements into the \<open>room\<close> the buffer has left:
  each sound for that room and no larger than what is outstanding. Only the first one that delivers
  anything may start behind the beginning of the space it was given.
\<close>

fun delivers :: "nat \<Rightarrow> nat \<Rightarrow> nat \<Rightarrow> fetch_reply list \<Rightarrow> bool" where
  "delivers got left room [] = (left = 0)"
| "delivers got left room (r # rs) =
     (0 < left \<and> sound_reply room r \<and> (got = 0 \<or> reply_first r = 0) \<and>
      nat (sint (reply_actual r)) \<le> left \<and>
      delivers (got + nat (sint (reply_actual r))) (left - nat (sint (reply_actual r)))
        (room - nat (sint (reply_first r)) - nat (sint (reply_actual r))) rs)"

definition samples_ok :: "nat \<Rightarrow> nat \<Rightarrow> acq_buffer \<Rightarrow> bool" where
  "samples_ok got room b \<longleftrightarrow>
     sint (acquired_index b) = int got \<and> 0 \<le> sint (buf_offset b) \<and>
     sint (buf_offset b) + int got + int room = int (length (buf_data b)) \<and>
     length (buf_data b) < 2147483648"

lemma write_front:
  assumes "off + acq \<le> length data" "a \<le> length ws"
  shows "take (acq + a) (drop off (take (off + acq) data @ ws @ rest)) = take acq (drop off data) @ take a ws"
  using assms by (simp add: drop_take take_add)

lemma take_sound_samples:
  assumes "samples_ok got room (run_samples_buffer st)" "sound_reply room r" "got = 0 \<or> reply_first r = 0"
  obtains st' where "take_samples r st = Inr st'"
    "samples_ok (got + nat (sint (reply_actual r)))
       (room - nat (sint (reply_first r)) - nat (sint (reply_actual r))) (run_samples_buffer st')"
    "acquired_elements (run_samples_buffer st') = acquired_elements (run_samples_buffer st) @ valid_elements r"
    "processed_index (run_samples_buffer st') = processed_index (run_samples_buffer st)"
proof -
  let ?b = "run_samples_buffer st" and ?a = "nat (sint (reply_actual r))" and ?f = "nat (sint (reply_first r))"
  define off where "off = nat (sint (buf_offset ?b))"
  have s: "0 \<le> sint (reply_first r)" "0 \<le> sint (reply_actual r)"
    "sint (reply_first r) + sint (reply_actual r) \<le> int (length (reply_data r))"
    "length (reply_data r) \<le> room"
    using assms(2) by (simp_all add: sound_reply_def)
  have b: "sint (acquired_index ?b) = int got" "sint (buf_offset ?b) = int off"
    "off + got + room = length (buf_data ?b)" "length (buf_data ?b) < 2147483648"
    using assms(1) by (auto simp: samples_ok_def off_def)
  have small: "sint (ucast (reply_first r) :: i32) = int ?f" "sint (ucast (reply_actual r) :: i32) = int ?a"
    using s b by (simp_all add: sint_ucast_small)
  have pos: "get_raw_unaquired ?b = int (off + got)"
    using b by (simp add: get_raw_unaquired_def sint32_add)
  let ?data = "take (off + got) (buf_data ?b) @ reply_data r @ drop (off + got + length (reply_data r)) (buf_data ?b)"
  let ?b1 = "?b\<lparr>buf_data := ?data\<rparr>"
  have "off + got + length (reply_data r) \<le> length (buf_data ?b)"
    using s b by linarith
  then have w: "write_at (get_raw_unaquired ?b) (reply_data r) ?b = Inr ?b1"
    unfolding pos write_at_def nat_int by simp
  let ?b2 = "advance_acquired (ucast (reply_actual r)) (advance_offset (ucast (reply_first r)) ?b1)"
  have t: "take_samples r st = Inr (map_samples (\<lambda>_. ?b2) st)"
    using w sound_reply_succeeds [OF assms(2)] by (simp add: take_samples_def)
  have idx: "sint (acquired_index ?b2) = int (got + ?a)" "sint (buf_offset ?b2) = int (off + ?f)"
    using s b small by (simp_all add: advance_acquired_def advance_offset_def sint32_add)
  have rb: "run_samples_buffer (map_samples (\<lambda>_. ?b2) st) = ?b2"
    by (simp add: map_samples_def)
  have ab: "acquired_elements ?b = take got (drop off (buf_data ?b))"
    by (simp only: acquired_elements_def b nat_int)
  have len: "length ?data = length (buf_data ?b)"
    using s b by simp
  show ?thesis
  proof (rule that [OF t])
    show "samples_ok (got + ?a) (room - ?f - ?a) (run_samples_buffer (map_samples (\<lambda>_. ?b2) st))"
      using idx len s b
      by (simp add: samples_ok_def map_samples_def) (simp add: advance_acquired_def advance_offset_def)
    show "processed_index (run_samples_buffer (map_samples (\<lambda>_. ?b2) st)) = processed_index ?b"
      unfolding rb by (simp add: advance_acquired_def advance_offset_def)
    have "acquired_elements ?b2 = take (got + ?a) (drop (off + ?f) ?data)"
      by (simp only: acquired_elements_def idx nat_int) (simp add: advance_acquired_def advance_offset_def)
    also have "\<dots> = take got (drop off (buf_data ?b)) @ take ?a (drop ?f (reply_data r))"
    proof (cases "got = 0")
      case True
      have "take ?a (drop (off + ?f) ?data) = take ?a (drop ?f (reply_data r))"
        using s b True by simp
      with True show ?thesis by simp
    next
      case False
      then have "?f = 0" using assms(3) by simp
      moreover have "?a \<le> length (reply_data r)" using s by simp
      ultimately show ?thesis
        using write_front [of off got "buf_data ?b" ?a "reply_data r"] b by simp
    qed
    finally show "acquired_elements (run_samples_buffer (map_samples (\<lambda>_. ?b2) st)) =
        acquired_elements ?b @ valid_elements r"
      by (simp only: rb ab valid_elements_def)
  qed
qed

lemma run_samples_delivers:
  assumes "samples_ok got room (run_samples_buffer st)" "delivers got left room ss"
    and "uint (to_acquire st) = int got + int left" "uint fetched = int got"
    and "left mod 16 = 0" "uint (to_acquire st) < 9223372036854775808"
  shows "\<exists>st'. run_samples fetched (ss @ rs) st = (st', Done rs) \<and>
    acquired_elements (run_samples_buffer st') =
      acquired_elements (run_samples_buffer st) @ concat (map valid_elements ss) \<and>
    (\<exists>room'. samples_ok (got + left) room' (run_samples_buffer st')) \<and>
    processed_index (run_samples_buffer st') = processed_index (run_samples_buffer st)"
  using assms
proof (induction ss arbitrary: got room left fetched st)
  case Nil
  then have "\<not> fetched < to_acquire st"
    by (simp add: word_less_def)
  then show ?case
    using Nil.prems(1,2) by (cases rs) auto
next
  case (Cons r ss)
  have left: "0 < left" and sound: "sound_reply room r" and first: "got = 0 \<or> reply_first r = 0"
    and le: "nat (sint (reply_actual r)) \<le> left"
    using Cons.prems(2) by simp_all
  have less: "fetched < to_acquire st"
    using Cons.prems(3,4) left by (simp add: word_less_def)
  have "uint (outstanding fetched st) = int left"
    using Cons.prems(3,4) by (simp add: outstanding_def uint64_sub)
  then have out: "sint (outstanding fetched st) = int left"
    using Cons.prems(3,6) by (subst sint64_uint) simp_all
  obtain st1 where st1: "samples_request fetched st = Inr st1" "run_samples_buffer st1 = run_samples_buffer st"
    "to_acquire st1 = to_acquire st"
    using left Cons.prems(5) out
    by (auto simp: samples_request_def check_fetch_alignment_def bindR_Inr_iff zmod_int [symmetric])
  obtain st2 where st2: "take_samples r st1 = Inr st2"
    "samples_ok (got + nat (sint (reply_actual r)))
       (room - nat (sint (reply_first r)) - nat (sint (reply_actual r))) (run_samples_buffer st2)"
    "acquired_elements (run_samples_buffer st2) = acquired_elements (run_samples_buffer st1) @ valid_elements r"
    "processed_index (run_samples_buffer st2) = processed_index (run_samples_buffer st1)"
    using take_sound_samples [OF _ sound first, of st1] Cons.prems(1) st1(2) by metis
  have act: "0 \<le> sint (reply_actual r)" "sint (reply_actual r) mod 16 = 0"
    using sound by (simp_all add: sound_reply_def)
  have tot: "to_acquire st2 = to_acquire st"
    using take_samples_frame [OF st2(1)] st1(3) by (simp add: samples_requested_def)
  have ua: "uint (reply_actual r) = sint (reply_actual r)"
    using act(1) by (rule uint_of_nonneg_sint)
  have "uint (fetched + reply_actual r) = int (got + nat (sint (reply_actual r)))"
    using Cons.prems(3,4,6) le act ua by (subst uint64_add) auto
  moreover have "(left - nat (sint (reply_actual r))) mod 16 = 0"
  proof -
    have "nat (sint (reply_actual r)) mod 16 = 0"
      using act nat_mod_distrib [of "sint (reply_actual r)" 16] by simp
    with Cons.prems(5) le show ?thesis
      by (simp add: mod_eq_0_iff_dvd)
  qed
  ultimately have "\<exists>st'. run_samples (fetched + reply_actual r) (ss @ rs) st2 = (st', Done rs) \<and>
    acquired_elements (run_samples_buffer st') =
      acquired_elements (run_samples_buffer st2) @ concat (map valid_elements ss) \<and>
    (\<exists>room'. samples_ok (got + nat (sint (reply_actual r)) + (left - nat (sint (reply_actual r)))) room'
      (run_samples_buffer st')) \<and>
    processed_index (run_samples_buffer st') = processed_index (run_samples_buffer st2)"
    using Cons.prems(2,3,6) le tot by (intro Cons.IH [OF st2(2)]) simp_all
  moreover have "got + nat (sint (reply_actual r)) + (left - nat (sint (reply_actual r))) = got + left"
    using le by simp
  ultimately show ?case
    using less st1 st2 by auto
qed

lemma delivers_fits: "delivers got left room ss \<Longrightarrow> left \<le> room"
proof (induction got left room ss rule: delivers.induct)
  case (2 got left room r rs)
  then have "left - nat (sint (reply_actual r)) \<le> room - nat (sint (reply_first r)) - nat (sint (reply_actual r))"
    "nat (sint (reply_first r)) + nat (sint (reply_actual r)) \<le> room"
    by (auto simp: sound_reply_def)
  with 2 show ?case by simp
qed simp

section \<open>The element total\<close>

lemma gate_elements_aligned: "gate_elements sb eb mod 16 = 0"
proof (cases "((eb - sb) * 4) mod 16 = (0 :: u64)")
  case False
  have "uint ((x * 16) mod 16) = 0" for x :: u64
    by (simp add: uint_mod uint_word_ariths mod_mod_cancel)
  then have "(x * 16) mod 16 = 0" for x :: u64
    by (simp add: word_uint_eq_iff)
  then have "((eb - sb) * 4 div 16 + 1) * 16 mod 16 = (0 :: u64)" .
  with False show ?thesis
    unfolding gate_elements_def Let_def by (simp only: if_True not_False_eq_True)
qed (simp add: gate_elements_def Let_def)

lemma sum_aligned: "a mod 16 = 0 \<Longrightarrow> b mod 16 = 0 \<Longrightarrow> (a + b) mod 16 = (0 :: u64)"
proof -
  assume "a mod 16 = 0" "b mod 16 = 0"
  then have "uint a mod 16 = 0" "uint b mod 16 = 0"
    by (simp_all add: word_uint_eq_iff uint_mod)
  then have "uint ((a + b) mod 16) = 0"
    by (simp add: uint_mod uint_word_ariths mod_mod_cancel) (simp add: mod_eq_0_iff_dvd)
  then show ?thesis
    by (simp add: word_uint_eq_iff)
qed

lemma collect_gates_aligned:
  "snd c mod 16 = 0 \<Longrightarrow> \<forall>gf \<in> set gfs. snd gf mod 16 = 0 \<Longrightarrow>
   snd (fold collect_gate gfs c) mod 16 = 0"
  by (induction gfs arbitrary: c) (auto simp: collect_gate_def sum_aligned)

lemma hunk_gates_aligned: "\<forall>gf \<in> set (hunk_gates seg). snd gf mod 16 = 0"
  by (auto simp: hunk_gates_def decode_gate_def Let_def gate_elements_aligned)

lemma feed_aligned: "feed n hs c = Complete c' rest \<Longrightarrow> snd c mod 16 = 0 \<Longrightarrow> snd c' mod 16 = 0"
proof (induction hs arbitrary: c)
  case (Cons h hs)
  have "snd (fold collect_gate (hunk_gates h) c) mod 16 = 0"
    using Cons.prems(2) hunk_gates_aligned by (rule collect_gates_aligned)
  with Cons show ?case
    by (auto split: if_splits)
qed simp

section \<open>The whole call\<close>

text \<open>The part of a markers stream that an \<open>acquire\<close> has to read: its last reply is the
  first to complete the triggers asked for.\<close>

definition just_enough :: "nat \<Rightarrow> i32 list list \<Rightarrow> fetch_reply list \<Rightarrow> bool" where
  "just_enough n left_over ms \<longleftrightarrow>
     ms = [] \<or>
     (\<exists>c. feed n (left_over @ concat (map reply_hunks (butlast ms))) ([], 0) = More c)"

lemma get_unprocessed_length:
  assumes "buffer_ok b"
  shows "sint (get_unprocessed b) = int (length (unprocessed b))"
proof -
  have "sint (acquired_index b - processed_index b) = sint (acquired_index b) - sint (processed_index b)"
    using assms sint32_add [of "acquired_index b" "- processed_index b"] sint32_minus [of "processed_index b"]
    by (auto simp: buffer_ok_def)
  then show ?thesis
    using length_unprocessed [OF assms] by (simp add: get_unprocessed_def)
qed

lemma walk_then_fetch_refines:
  assumes "1 \<le> unat n" "unat n * 128 + 15 \<le> length (buf_data (markers_buffer ctx))"
    and "length (buf_data (markers_buffer ctx)) < 2147483648"
    and "markers_channel ctx \<noteq> samples_channel ctx"
    and "buffer_ok (markers_buffer ctx)" "length (unprocessed (markers_buffer ctx)) mod 16 = 0"
    and "left_over = hunks_of (unprocessed (markers_buffer ctx))"
    and "not_replayed ctx (left_over @ concat (map reply_hunks ms))"
    and "\<forall>r \<in> set ms. sound_reply (length (buf_data (markers_buffer ctx))) r"
    and "just_enough (unat n) left_over ms"
    and "feed (unat n) (left_over @ concat (map reply_hunks ms)) ([], 0) = Complete (ts, count) rest"
  shows "\<exists>st. walk_then_fetch n ut (ms @ rs) (new_run n ctx b) = (st, Done rs) \<and> run_stamps st = ts \<and>
    to_acquire st = count \<and> unprocessed_hunks st = rest \<and> run_samples_buffer st = b"
proof -
  let ?new = "new_run n ctx b" and ?cap = "length (buf_data (markers_buffer ctx))"
  have bound: "unat n * 128 < 2147483632" "unat n < 2147483647"
    using assms(2,3) by presburger+
  have holds: "holds (unat n) ?new ([], 0)"
    by (simp add: holds_def new_run_def)
  have ok: "run_ok (unat n) ?new"
    using assms(5,6) bound by (simp add: run_ok_def new_run_def ctx_markers_def)
  have hunks: "unprocessed_hunks ?new = left_over"
    using assms(7) by (simp add: unprocessed_hunks_def new_run_def ctx_markers_def)
  have fit: "requests_fit (unat n) ?new"
    using assms(1-4) multiplier_ok_new_run [OF refl assms(1) bound(1), of ctx b]
    by (simp add: requests_fit_def new_run_def ctx_markers_def)
  have fresh: "not_replayed (run_ctx ?new) (unprocessed_hunks ?new @ concat (map reply_hunks ms))"
    using assms(8) hunks by (simp add: new_run_def)
  have "nat (sint (actual_elements_markers ?new) div 16) = length (unprocessed_hunks ?new)"
  proof -
    have "sint (actual_elements_markers ?new) = int (length (unprocessed (markers_buffer ctx)))"
      using get_unprocessed_length [OF assms(5)] by (simp add: new_run_def)
    then show ?thesis
      using assms(7) by (simp add: hunks length_hunks_of zdiv_int [symmetric])
  qed
  then have walked: "walk_fetched n ?new = walk_hunks n (length (unprocessed_hunks ?new)) ?new"
    by (simp add: walk_fetched_def)
  note w = walk_hunks_refines [OF holds ok refl fresh refl, folded walked, unfolded hunks]
  show ?thesis
  proof (cases "ms = []")
    case True
    then have "feed (unat n) left_over ([], 0) = Complete (ts, count) rest"
      using assms(11) by simp
    then obtain st where st: "walk_fetched n ?new = Reached st" "run_stamps st = ts" "to_acquire st = count"
      "unprocessed_hunks st = rest" "kept st = kept ?new"
      using w by auto
    then have "run_samples_buffer st = b"
      by (simp add: kept_def new_run_def)
    with st True show ?thesis
      by (simp add: walk_then_fetch_def)
  next
    case False
    then obtain c0 c1 where c1: "feed (unat n) left_over ([], 0) = More c1"
      "feed (unat n) (concat (map reply_hunks (butlast ms))) c1 = More c0"
      "feed (unat n) (concat (map reply_hunks ms)) c1 = Complete (ts, count) rest"
      using assms(10,11) by (auto simp: just_enough_def feed_append split: feeding.splits)
    then obtain st1 where st1: "walk_fetched n ?new = Onward st1" "holds (unat n) st1 c1"
      "run_ok (unat n) st1" "kept st1 = kept ?new"
      "not_replayed (run_ctx st1) (concat (map reply_hunks ms))"
      using w by blast
    have fit1: "requests_fit (unat n) st1"
      using fit st1(4) by (rule requests_fit_kept)
    have "length (buf_data (ctx_markers st1)) = ?cap"
      using st1(4) by (simp add: kept_def new_run_def ctx_markers_def)
    with st1(3) fit1 obtain st2 where st2: "prepare_fetch st1 = Inr st2" "ready ?cap st2"
      "collection st2 = collection st1" "requests_fit (unat n) st2"
      using prepare_ready by metis
    obtain st3 where st3: "run_markers n ut (ms @ rs) st2 = (st3, Done rs)" "run_stamps st3 = ts"
      "to_acquire st3 = count" "unprocessed_hunks st3 = rest"
      "run_samples_buffer st3 = run_samples_buffer st2"
      using run_markers_refines [OF collection_holds [OF st2(3) st1(2)] st2(4,2) refl bound(2)
          collection_not_replayed [OF st2(3) st1(5)] False assms(9) c1(2,3), of ut rs]
      by auto
    have "run_samples_buffer st2 = b"
      using st2(3) st1(4) by (simp add: collection_def kept_def new_run_def)
    with st1 st2 st3 holds_continues [OF st1(2) refl] show ?thesis
      by (simp add: walk_then_fetch_def)
  qed
qed

lemma acquire_sound:
  assumes "1 \<le> unat n" "unat n * 128 + 15 \<le> length (buf_data (markers_buffer ctx))"
    and "length (buf_data (markers_buffer ctx)) < 2147483648"
    and "markers_channel ctx \<noteq> samples_channel ctx"
    and "buffer_ok (markers_buffer ctx)" "length (unprocessed (markers_buffer ctx)) mod 16 = 0"
    and "left_over = hunks_of (unprocessed (markers_buffer ctx))"
    and "not_replayed ctx (left_over @ concat (map reply_hunks ms))"
    and "\<forall>r \<in> set ms. sound_reply (length (buf_data (markers_buffer ctx))) r"
    and "just_enough (unat n) left_over ms"
    and "feed (unat n) (left_over @ concat (map reply_hunks ms)) ([], 0) = Complete (ts, count) rest"
    and "get_buffer p = (k, p1)" "length (buf_data (buffer_of p1 k)) < 2147483648"
    and "delivers 0 (unat count) (length (buf_data (buffer_of p1 k))) ss"
  shows "\<exists>ctx' p' qs. zs1_acquire n ut (ms @ ss @ rs) ctx p =
      ((ctx', p', qs),
       Done (\<lparr>samples_slot = k, stamps = ts, samples_count = buf_samples_per_trigger (buffer_of p1 k)\<rparr>, rs)) \<and>
    acquired_elements (buffer_of p' k) = concat (map valid_elements ss) \<and>
    hunks_of (unprocessed (markers_buffer ctx')) = rest \<and>
    (\<exists>room. samples_ok (unat count) room (buffer_of p' k)) \<and> processed_index (buffer_of p' k) = 0"
proof -
  let ?b = "buffer_of p1 k"
  obtain st1 where st1: "walk_then_fetch n ut (ms @ ss @ rs) (new_run n ctx ?b) = (st1, Done (ss @ rs))"
    "run_stamps st1 = ts" "to_acquire st1 = count" "unprocessed_hunks st1 = rest" "run_samples_buffer st1 = ?b"
    using walk_then_fetch_refines [OF assms(1-11)] by metis
  have small: "unat count < 2147483648"
    using delivers_fits [OF assms(14)] assms(13) by linarith
  have "count mod 16 = 0"
    using feed_aligned [OF assms(11)] by simp
  then have "unat (count mod 16) = 0"
    by simp
  then have aligned: "unat count mod 16 = 0"
    by (simp add: unat_mod)
  have empty: "samples_ok 0 (length (buf_data ?b)) ?b" "acquired_elements ?b = []"
    using get_buffer_positions [OF assms(12)] assms(13) by (simp_all add: samples_ok_def acquired_elements_def)
  have "uint count < 9223372036854775808"
    using small uint_nat [of count] by linarith
  moreover have "uint (to_acquire st1) = int 0 + int (unat count)"
    using st1(3) by simp
  ultimately obtain st where st: "run_samples 0 (ss @ rs) st1 = (st, Done rs)"
    "acquired_elements (run_samples_buffer st) = concat (map valid_elements ss)"
    "\<exists>room. samples_ok (unat count) room (run_samples_buffer st)"
    "processed_index (run_samples_buffer st) = processed_index ?b"
    using run_samples_delivers [of 0 "length (buf_data ?b)" st1 "unat count" ss 0 rs] empty assms(14) aligned st1(3,5)
    by auto
  have frame: "run_stamps st = ts" "run_ctx st = run_ctx st1"
    "buf_samples_per_trigger (run_samples_buffer st) = buf_samples_per_trigger ?b"
    using run_samples_frame [of st1 0 "ss @ rs"] st(1) st1 by (simp_all add: samples_requested_def)
  have "sint (get_unprocessed (markers_buffer ctx)) mod 16 = 0"
    using arg_cong [OF assms(6), of int] get_unprocessed_length [OF assms(5)] by (simp add: zmod_int)
  then have "acquire_run n ut (ms @ ss @ rs) ctx ?b = (st, Done rs)"
    using st1(1) st(1) by (simp add: acquire_run_def Let_def new_run_def)
  with assms(12) frame st(2-4) st1(4) get_buffer_positions(2,4) [OF assms(12)] show ?thesis
    by (simp add: zs1_acquire_def buffer_of_def set_buffer_def unprocessed_hunks_def ctx_markers_def)
qed

text \<open>C1: for a sound driver, \<open>acquire\<close> does not depend on how the markers stream
  was cut into fetches: it returns the triggers and gates that \<open>feed\<close> finds in the uncut
  stream, holding exactly the elements those gates announce, leaves the rest of the markers stream
  for the next call, and reads no reply beyond them.\<close>

theorem acquire_refines_feed:
  assumes "1 \<le> unat n" "unat n * 128 + 15 \<le> length (buf_data (markers_buffer ctx))"
    and "length (buf_data (markers_buffer ctx)) < 2147483648"
    and "markers_channel ctx \<noteq> samples_channel ctx"
    and "buffer_ok (markers_buffer ctx)" "length (unprocessed (markers_buffer ctx)) mod 16 = 0"
    and "left_over = hunks_of (unprocessed (markers_buffer ctx))"
    and "not_replayed ctx (left_over @ concat (map reply_hunks ms))"
    and "\<forall>r \<in> set ms. sound_reply (length (buf_data (markers_buffer ctx))) r"
    and "just_enough (unat n) left_over ms"
    and "feed (unat n) (left_over @ concat (map reply_hunks ms)) ([], 0) = Complete (ts, count) rest"
    and "get_buffer p = (k, p1)" "length (buf_data (buffer_of p1 k)) < 2147483648"
    and "delivers 0 (unat count) (length (buf_data (buffer_of p1 k))) ss"
  shows "\<exists>ctx' p' qs. zs1_acquire n ut (ms @ ss @ rs) ctx p =
      ((ctx', p', qs),
       Done (\<lparr>samples_slot = k, stamps = ts, samples_count = buf_samples_per_trigger (buffer_of p1 k)\<rparr>, rs)) \<and>
    acquired_elements (buffer_of p' k) = concat (map valid_elements ss) \<and>
    hunks_of (unprocessed (markers_buffer ctx')) = rest"
  using acquire_sound [OF assms] by blast

text \<open>The small stream, cut into two fetches.\<close>

definition cut_markers :: "fetch_reply list" where
  "cut_markers = [good_reply (example_trigger 5 @ example_gate), good_reply (example_trigger 9)]"

definition cut_samples :: "fetch_reply list" where
  "cut_samples = [good_reply (replicate 16 7)]"

definition example_stamps :: "trigger_data list" where
  "example_stamps = [\<lparr>trig_timestamp = 5, trig_subsample_pos = 0, trig_index = 1, trig_gates =
    [\<lparr>gate_start_block_index = 1, gate_start_sample_pos = 2, gate_stop_block_index = 2,
      gate_stop_sample_pos = 3, element_count = 16\<rparr>]\<rparr>]"

lemmas example_context_defs = example_context_def new_zs1_context_def new_buffer_of_size_def
  markers_hunk_size_def multiplier_max_def

lemma example_sound:
  shows "1 \<le> unat (1 :: u64)"
    and "unat (1 :: u64) * 128 + 15 \<le> length (buf_data (markers_buffer example_context))"
    and "length (buf_data (markers_buffer example_context)) < 2147483648"
    and "markers_channel example_context \<noteq> samples_channel example_context"
    and "buffer_ok (markers_buffer example_context)"
    and "length (unprocessed (markers_buffer example_context)) mod 16 = 0"
    and "[] = hunks_of (unprocessed (markers_buffer example_context))"
    and "not_replayed example_context ([] @ concat (map reply_hunks cut_markers))"
    and "\<forall>r \<in> set cut_markers. sound_reply (length (buf_data (markers_buffer example_context))) r"
    and "just_enough (unat (1 :: u64)) [] cut_markers"
    and "feed (unat (1 :: u64)) ([] @ concat (map reply_hunks cut_markers)) ([], 0) =
      Complete (example_stamps, 16) [example_trigger 9]"
    and "get_buffer example_pool = (0, snd (get_buffer example_pool))"
    and "length (buf_data (buffer_of (snd (get_buffer example_pool)) 0)) < 2147483648"
    and "delivers 0 (unat (16 :: u64)) (length (buf_data (buffer_of (snd (get_buffer example_pool)) 0))) cut_samples"
proof -
  show "1 \<le> unat (1 :: u64)"
    "unat (1 :: u64) * 128 + 15 \<le> length (buf_data (markers_buffer example_context))"
    "length (buf_data (markers_buffer example_context)) < 2147483648"
    "markers_channel example_context \<noteq> samples_channel example_context"
    by (simp_all add: example_context_defs)
  have "unprocessed (markers_buffer example_context) = []"
    by (simp add: unprocessed_def example_context_defs)
  then show "buffer_ok (markers_buffer example_context)"
    "length (unprocessed (markers_buffer example_context)) mod 16 = 0"
    "[] = hunks_of (unprocessed (markers_buffer example_context))"
    by (simp_all add: buffer_ok_def example_context_defs)
  show "not_replayed example_context ([] @ concat (map reply_hunks cut_markers))"
    by code_simp
  have "list_all (sound_reply 143) cut_markers"
    by code_simp
  then show "\<forall>r \<in> set cut_markers. sound_reply (length (buf_data (markers_buffer example_context))) r"
    by (simp add: list_all_iff example_context_defs)
  have "feed (unat (1 :: u64)) ([] @ concat (map reply_hunks (butlast cut_markers))) ([], 0) = More (example_stamps, 16)"
    by code_simp
  then show "just_enough (unat (1 :: u64)) [] cut_markers"
    by (auto simp: just_enough_def)
  show "feed (unat (1 :: u64)) ([] @ concat (map reply_hunks cut_markers)) ([], 0) =
      Complete (example_stamps, 16) [example_trigger 9]"
    by code_simp
  show "get_buffer example_pool = (0, snd (get_buffer example_pool))"
    by (simp add: prod_eq_iff) code_simp
  have room: "length (buf_data (buffer_of (snd (get_buffer example_pool)) 0)) = 32"
    by code_simp
  then show "length (buf_data (buffer_of (snd (get_buffer example_pool)) 0)) < 2147483648"
    by simp
  show "delivers 0 (unat (16 :: u64)) (length (buf_data (buffer_of (snd (get_buffer example_pool)) 0))) cut_samples"
    unfolding room by code_simp
qed

theorem acquire_refines_feed_witness:
  "\<exists>ctx' p' qs d. zs1_acquire 1 False (cut_markers @ cut_samples @ []) example_context example_pool =
      ((ctx', p', qs), Done (d, [])) \<and>
    acquired_elements (buffer_of p' 0) = replicate 16 7 \<and>
    hunks_of (unprocessed (markers_buffer ctx')) = [example_trigger 9]"
proof -
  have "concat (map valid_elements cut_samples) = replicate 16 7"
    by code_simp
  with acquire_refines_feed [OF example_sound, of False "[]"] show ?thesis by auto
qed

end
