(* ===== verification/Acquire_To_Frame.thy ===== *)
theory Acquire_To_Frame
  imports Frame_Encoding Zmq_Subscriber Zs1_Refinement
begin

text \<open>
  The pipeline of one acquisition across components: \<open>CstZs1Context::acquire\<close>, then
  \<open>UimfAcquisitionRecord::process\<close> on what it returned, then the sum published by
  \<open>ZmqAcquiredDataSubscriber\<close>. What the encoder assumes of a gate's element count is what
  the decoder computes.
\<close>

section \<open>Decoded gates fit their elements\<close>

lemma block_index_bound: "uint (block_index lo hi) < 4294967296"
proof -
  have "hi AND 0xFFFFFF = take_bit 24 hi"
    by (simp add: take_bit_eq_mask mask_eq_exp_minus_1)
  then have "block_index lo hi = block_index lo hi AND mask 32"
    by (intro bit_word_eqI) (auto simp: block_index_def bit_simps)
  then have "block_index lo hi = take_bit 32 (block_index lo hi)"
    by (simp add: take_bit_eq_mask)
  then have "uint (block_index lo hi) = take_bit 32 (uint (block_index lo hi))"
    by (metis unsigned_take_bit_eq)
  then show ?thesis
    by (metis take_bit_int_less_exp [of 32, simplified])
qed

lemma gate_elements_value:
  assumes "uint sb \<le> uint eb" "uint eb < 4294967296"
  shows "4 * (uint eb - uint sb) \<le> uint (gate_elements sb eb)"
    and "uint (gate_elements sb eb) < 4 * (uint eb - uint sb) + 16"
proof -
  define d where "d = uint eb - uint sb"
  have d: "0 \<le> d" "d < 4294967296"
    using assms uint64_range(1) [of sb] unfolding d_def by linarith+
  have f: "uint ((eb - sb) * 4) = 4 * d"
    using assms d by (subst uint64_mult) (auto simp: uint64_sub d_def)
  have "uint (gate_elements sb eb) = (if (4 * d) mod 16 \<noteq> 0 then (4 * d div 16 + 1) * 16 else 4 * d)"
  proof (cases "(4 * d) mod 16 = 0")
    case True
    then have "uint (((eb - sb) * 4) mod 16) = 0"
      by (simp only: uint_mod f) simp
    then have "((eb - sb) * 4) mod 16 = 0"
      by (simp only: uint_0_iff)
    with True f show ?thesis
      by (simp add: gate_elements_def Let_def)
  next
    case False
    then have "uint (((eb - sb) * 4) mod 16) \<noteq> 0"
      by (simp only: uint_mod f) simp
    then have nz: "((eb - sb) * 4) mod 16 \<noteq> 0"
      by (intro notI) simp
    have "uint ((eb - sb) * 4 div 16) = 4 * d div 16"
      by (simp only: uint_div f) simp
    then have "uint ((eb - sb) * 4 div 16 + 1) = 4 * d div 16 + 1"
      using d by (subst uint64_add) auto
    then have "uint (((eb - sb) * 4 div 16 + 1) * 16) = (4 * d div 16 + 1) * 16"
      using d by (subst uint64_mult) auto
    with nz False show ?thesis
      unfolding gate_elements_def Let_def by (simp only: if_True not_False_eq_True)
  qed
  then show "4 * (uint eb - uint sb) \<le> uint (gate_elements sb eb)"
    "uint (gate_elements sb eb) < 4 * (uint eb - uint sb) + 16"
    using d unfolding d_def [symmetric] by (auto split: if_splits) presburger+
qed

lemma sample_position_bound: "uint (block_sample_index hi) < 256"
  by (simp add: block_sample_index_def uint_and)

lemma decoded_gate_sound:
  assumes "gate_in_order lo (fst (decode_gate l))"
  shows "gate_fits (fst (decode_gate l)) \<and>
    element_count (fst (decode_gate l)) mod 16 = 0 \<and>
    uint (element_count (fst (decode_gate l))) = uint (snd (decode_gate l))"
proof -
  let ?g = "fst (decode_gate l)"
  define sb eb where "sb = block_index (l ! 0) (l ! 1)" "eb = block_index (l ! 2) (l ! 3)"
  define p1 p2 where "p1 = block_sample_index (l ! 1)" "p2 = block_sample_index (l ! 3)"
  have g: "?g = \<lparr>gate_start_block_index = sb, gate_start_sample_pos = p1,
      gate_stop_block_index = adjusted_end sb eb, gate_stop_sample_pos = p2,
      element_count = ucast (gate_elements sb eb)\<rparr>" "snd (decode_gate l) = gate_elements sb eb"
    by (simp_all add: decode_gate_def Let_def sb_eb_def p1_p2_def)
  have b: "uint sb < 4294967296" "uint eb < 4294967296"
    by (simp_all add: sb_eb_def block_index_bound)
  have ord: "1 \<le> uint sb" "1 \<le> uint (adjusted_end sb eb)" "uint p1 \<le> 8" "uint p2 \<le> 8"
    "uint (get_start_sample_index ?g) < uint (get_stop_sample_index ?g)"
    "uint (get_stop_sample_index ?g) < 1073741824"
    using assms by (simp_all add: gate_in_order_def g max_bin_def word_less_def)
  have adj: "uint (adjusted_end sb eb) = (if uint eb < uint sb then uint eb + 4294967295 else uint eb)"
    using b by (simp add: adjusted_end_def word_less_def uint64_add)
  have start: "uint (get_start_sample_index ?g) = (uint sb - 1) * 8 + uint p1"
  proof -
    have "uint (sb - 1) = uint sb - 1" using ord(1) by (simp add: uint64_sub)
    then have "uint ((sb - 1) * 8) = (uint sb - 1) * 8" using b(1) by (subst uint64_mult) auto
    then show ?thesis
      using b(1) ord(3) by (simp add: g get_start_sample_index_def processing_block_size_def uint64_add)
  qed
  have stop: "(uint (adjusted_end sb eb) - 1) * 8 = uint (get_stop_sample_index ?g) + (8 - uint p2)"
  proof -
    have "uint (adjusted_end sb eb - 1) = uint (adjusted_end sb eb) - 1"
      using ord(2) by (simp add: uint64_sub)
    then have top: "uint ((adjusted_end sb eb - 1) * 8) = (uint (adjusted_end sb eb) - 1) * 8"
      using adj b by (subst uint64_mult) (auto split: if_splits)
    have low: "uint (ucast (8 - p2 :: u32) :: u64) = 8 - uint p2"
      using ord(4) by (simp add: uint32_sub)
    have eq: "(adjusted_end sb eb - 1) * 8 = get_stop_sample_index ?g + ucast (8 - p2 :: u32)"
      by (simp add: g get_stop_sample_index_def processing_block_size_def)
    have "uint (get_stop_sample_index ?g) + uint (ucast (8 - p2 :: u32) :: u64) < 18446744073709551616"
      using ord(6) low uint32_range(1) [of p2] by linarith
    then have "uint ((adjusted_end sb eb - 1) * 8) = uint (get_stop_sample_index ?g) + (8 - uint p2)"
      unfolding eq low [symmetric] by (rule uint64_add)
    with top show ?thesis by simp
  qed
  then have stop8: "uint (adjusted_end sb eb) * 8 = uint (get_stop_sample_index ?g) + 16 - uint p2"
    by (simp add: algebra_simps)
  have "\<not> uint eb < uint sb"
  proof
    assume "uint eb < uint sb"
    then have "uint (adjusted_end sb eb) = uint eb + 4294967295"
      using adj by simp
    then show False
      using stop8 ord(6) uint64_range(1) [of eb] uint32_range(1) [of p2] by linarith
  qed
  then have le: "uint sb \<le> uint eb" "uint (adjusted_end sb eb) = uint eb"
    using adj by simp_all
  note f = gate_elements_value [OF le(1) b(2)]
  have small: "uint eb < 134217730"
    using stop8 le(2) ord(4,6) uint32_range(1) [of p2] by linarith
  have cnt: "uint (element_count ?g) = uint (gate_elements sb eb)"
  proof -
    have "uint (gate_elements sb eb) < 4294967296"
      using f(2) [unfolded right_diff_distrib] small uint64_range(1) [of sb] by linarith
    then show ?thesis
      by (simp add: g unsigned_ucast_eq take_bit_int_eq_self)
  qed
  have "uint p1 + int (gate_length ?g) = 8 * (uint eb - uint sb) - 8 + uint p2"
    using gate_in_order_sizes(1) [OF assms] start stop le(2) by simp
  then have "gate_fits ?g"
    using f(1) cnt ord(4) unfolding gate_fits_def by (simp only: g gate_data.simps)
  moreover have "uint (gate_elements sb eb mod 16) = 0"
    by (simp only: gate_elements_aligned) simp
  then have "element_count ?g mod 16 = 0"
    by (simp add: word_uint_eq_iff uint_mod cnt)
  ultimately show ?thesis
    using cnt by (simp add: g)
qed

text \<open>a gate the encoder can place, decoded from the four words of a sub-block, has an element
  count that is a multiple of sixteen, is the number of elements the samples fetch asks for, and has
  room for the gate's samples at two to an element, from its first position on.\<close>

theorem decoded_gate_fits:
  assumes "gate_in_order lo (fst (decode_gate l))"
  shows "gate_fits (fst (decode_gate l)) \<and>
    element_count (fst (decode_gate l)) mod 16 = 0 \<and>
    uint (element_count (fst (decode_gate l))) = uint (snd (decode_gate l))"
  using assms by (rule decoded_gate_sound)

theorem decoded_gate_fits_witness:
  "gate_fits (fst (decode_gate [0x01000004, 0x02000000, 0x03000000, 0x05000000]))"
proof -
  have "gate_in_order 0 (fst (decode_gate [0x01000004, 0x02000000, 0x03000000, 0x05000000]))"
    by code_simp
  from decoded_gate_fits [OF this] show ?thesis ..
qed

section \<open>The element total\<close>

definition all_gates :: "trigger_data list \<Rightarrow> gate_data list" where
  "all_gates ts = concat (map trig_gates ts)"

text \<open>Every gate collected was decoded from a sub-block, and the total is the sum of their elements.\<close>

definition decoded_gates :: "collected \<Rightarrow> bool" where
  "decoded_gates c \<longleftrightarrow>
     (\<exists>fs. snd c = sum_list fs \<and> list_all2 (\<lambda>g f. \<exists>l. decode_gate l = (g, f)) (all_gates (fst c)) fs)"

lemma all_gates_add: "ts \<noteq> [] \<Longrightarrow> all_gates (add_gate g ts) = all_gates ts @ [g]"
  by (cases ts rule: rev_cases) (simp_all add: all_gates_def add_gate_def)

lemma decoded_gates_collect:
  assumes "decoded_gates c" "\<exists>l. decode_gate l = gf"
  shows "decoded_gates (collect_gate gf c)"
proof (cases "fst c = []")
  case False
  from assms obtain fs where fs: "snd c = sum_list fs"
    "list_all2 (\<lambda>g f. \<exists>l. decode_gate l = (g, f)) (all_gates (fst c)) fs"
    by (auto simp: decoded_gates_def)
  with assms(2) have "list_all2 (\<lambda>g f. \<exists>l. decode_gate l = (g, f)) (all_gates (fst c) @ [fst gf]) (fs @ [snd gf])"
    by (intro list_all2_appendI) auto
  with False fs(1) show ?thesis
    by (auto simp: decoded_gates_def collect_gate_def all_gates_add intro!: exI [of _ "fs @ [snd gf]"])
qed (use assms in \<open>simp add: collect_gate_def\<close>)

lemma decoded_gates_hunk:
  assumes "decoded_gates c"
  shows "decoded_gates (fold collect_gate (hunk_gates h) c)"
proof -
  have "\<forall>gf \<in> set (hunk_gates h). \<exists>l. decode_gate l = gf"
    by (auto simp: hunk_gates_def)
  with assms show ?thesis
    by (induction "hunk_gates h" arbitrary: c rule: list.induct)
      (auto simp: fold_invariant intro: fold_invariant [where Q = "\<lambda>gf. \<exists>l. decode_gate l = gf"] decoded_gates_collect)
qed

lemma feed_decoded: "feed n hs c = Complete c' rest \<Longrightarrow> decoded_gates c \<Longrightarrow> decoded_gates c'"
proof (induction hs arbitrary: c)
  case (Cons h hs)
  have "decoded_gates (fst c @ [hunk_trigger h], snd c)"
    using Cons.prems(2) by (simp add: decoded_gates_def all_gates_def hunk_trigger_def new_trigger_data_def)
  with Cons decoded_gates_hunk [of c h] show ?case
    by (auto split: if_splits)
qed simp

lemma gates_in_order_each: "gates_in_order lo gs \<Longrightarrow> g \<in> set gs \<Longrightarrow> \<exists>lo'. gate_in_order lo' g"
  by (induction gs arbitrary: lo) auto

lemma elements_sum:
  assumes "list_all2 (\<lambda>g f. uint (element_count g) = uint (f :: u64)) gs fs"
    and "(\<Sum>g\<leftarrow>gs. uint (element_count g)) < 18446744073709551616"
  shows "uint (sum_list fs) = (\<Sum>g\<leftarrow>gs. uint (element_count g))"
  using assms
proof (induction rule: list_all2_induct)
  case (Cons g gs f fs)
  have nonneg: "0 \<le> (\<Sum>g\<leftarrow>gs. uint (element_count g))"
    by (rule sum_list_nonneg) auto
  have "(\<Sum>g\<leftarrow>gs. uint (element_count g)) < 18446744073709551616"
    using Cons.prems uint32_range(1) [of "element_count g"] unfolding list.map sum_list.Cons by linarith
  then have "uint (sum_list fs) = (\<Sum>g\<leftarrow>gs. uint (element_count g))"
    by (rule Cons.IH)
  with Cons.prems Cons.hyps show ?case
    by (simp add: uint64_add)
qed simp

lemma sum_gates: "(\<Sum>t\<leftarrow>ts. trigger_elements (trig_gates t)) = (\<Sum>g\<leftarrow>all_gates ts. uint (element_count g))"
  by (induction ts) (auto simp: trigger_elements_def all_gates_def)

lemma decoded_total:
  assumes "decoded_gates (ts, count)" "\<forall>t \<in> set ts. gates_in_order 0 (trig_gates t)"
    and "(\<Sum>t\<leftarrow>ts. trigger_elements (trig_gates t)) < 2147483648"
  shows "uint count = (\<Sum>t\<leftarrow>ts. trigger_elements (trig_gates t))"
    and "\<forall>g \<in> set (all_gates ts). gate_fits g"
proof -
  obtain fs where fs: "count = sum_list fs"
    "list_all2 (\<lambda>g f. \<exists>l. decode_gate l = (g, f)) (all_gates ts) fs"
    using assms(1) by (auto simp: decoded_gates_def)
  have ord: "\<exists>lo. gate_in_order lo g" if "g \<in> set (all_gates ts)" for g
    using that assms(2) gates_in_order_each by (auto simp: all_gates_def)
  have fit: "gate_fits g \<and> uint (element_count g) = uint f"
    if mem: "g \<in> set (all_gates ts)" and dec: "\<exists>l. decode_gate l = (g, f)" for g f
  proof -
    obtain l lo where l: "decode_gate l = (g, f)" "gate_in_order lo g"
      using ord [OF mem] dec by blast
    have "gate_fits g \<and> element_count g mod 16 = 0 \<and> uint (element_count g) = uint f"
      using decoded_gate_sound [of lo l] l by simp
    then show ?thesis by blast
  qed
  have "list_all2 (\<lambda>g f. uint (element_count g) = uint f) (all_gates ts) fs"
    using fs(2) fit by (auto simp: list_all2_conv_all_nth)
  then show "uint count = (\<Sum>t\<leftarrow>ts. trigger_elements (trig_gates t))"
    using elements_sum [of "all_gates ts" fs] assms(3) fs(1) by (simp add: sum_gates)
  show "\<forall>g \<in> set (all_gates ts). gate_fits g"
  proof
    fix g
    assume mem: "g \<in> set (all_gates ts)"
    then obtain i where i: "i < length (all_gates ts)" "all_gates ts ! i = g"
      by (auto simp: in_set_conv_nth)
    then have "\<exists>l. decode_gate l = (g, fs ! i)"
      using list_all2_nthD [OF fs(2) i(1)] by simp
    with mem fit show "gate_fits g" by blast
  qed
qed

section \<open>From the streams to the spectra\<close>

text \<open>C17: an acquisition from a sound driver can be encoded: when the gates it returned are in
  order and announce fewer than 2^31 elements, \<open>process\<close> on the returned record and buffer
  returns, and each scan decodes to exactly the samples of its trigger's gates, at their bins.\<close>

theorem acquired_triggers_are_encoded:
  assumes "1 \<le> unat n" "unat n * 128 + 15 \<le> length (buf_data (markers_buffer ctx))"
    and "length (buf_data (markers_buffer ctx)) < 2147483648"
    and "markers_channel ctx \<noteq> samples_channel ctx"
    and "buffer_ok (markers_buffer ctx)" "length (unprocessed (markers_buffer ctx)) mod 16 = 0"
    and "left_over = hunks_of (unprocessed (markers_buffer ctx))"
    and "not_replayed ctx (left_over @ concat (map reply_hunks ms))"
    and "\<forall>r \<in> set ms. sound_reply (length (buf_data (markers_buffer ctx))) r"
    and "just_enough (unat n) left_over ms"
    and "feed (unat n) (left_over @ concat (map reply_hunks ms)) ([], 0) = Complete (ts, count) rest"
    and "get_buffer p = (k, p1)" "length (buf_data (buffer_of p1 k)) < 2147483648"
    and "delivers 0 (unat count) (length (buf_data (buffer_of p1 k))) ss"
    and "\<forall>t \<in> set ts. gates_in_order 0 (trig_gates t)"
    and "(\<Sum>t\<leftarrow>ts. trigger_elements (trig_gates t)) < 2147483648"
    and "uint (offset_bins pars) < max_bin"
  shows "\<exists>st d results. zs1_acquire n ut (ms @ ss @ rs) ctx p = (st, Done (d, rs)) \<and> stamps d = ts \<and>
    process (buffer_of (fst (snd st)) k)
      \<lparr>rec_parameters = pars, acquiredData = d, start_scan_index = scan\<rparr> = Inr results \<and>
    map (\<lambda>er. decode_spectrum 0 (encoded_spectra er)) results =
      all_bins (buffer_of (fst (snd st)) k) (offset_bins pars)
        (get_raw_unprocessed (buffer_of (fst (snd st)) k)) ts"
proof -
  obtain ctx' p' qs d room where run: "zs1_acquire n ut (ms @ ss @ rs) ctx p = ((ctx', p', qs), Done (d, rs))"
    "stamps d = ts" "samples_ok (unat count) room (buffer_of p' k)" "processed_index (buffer_of p' k) = 0"
    using acquire_sound [OF assms(1-14), of ut rs] by fastforce
  let ?b = "buffer_of p' k"
  have "decoded_gates (ts, count)"
    using feed_decoded [OF assms(11)] by (simp add: decoded_gates_def all_gates_def)
  note total = decoded_total [OF this assms(15,16)]
  have "get_raw_unprocessed ?b = sint (buf_offset ?b)"
    using run(4) by (simp add: get_raw_unprocessed_def)
  then have "buffer_holds ?b (stamps d)"
    using run(2,3) total(1) by (auto simp: buffer_holds_def samples_ok_def)
  moreover have "\<forall>t \<in> set (stamps d). trigger_sound (offset_bins pars) t"
    using run(2) assms(15) total(2) by (auto simp: trigger_sound_def all_gates_def)
  ultimately obtain results where
    "process ?b \<lparr>rec_parameters = pars, acquiredData = d, start_scan_index = scan\<rparr> = Inr results"
    "map (\<lambda>er. decode_spectrum 0 (encoded_spectra er)) results =
       all_bins ?b (offset_bins pars) (get_raw_unprocessed ?b) ts"
    using process_stamps_places [of ts "offset_bins pars" ?b 0 scan 0] assms(17) run(2)
    by (auto simp: process_def buffer_holds_def)
  with run(1,2) show ?thesis by auto
qed

text \<open>An encoded spectrum ends in an intensity, so that no run length leads past the last gate.\<close>

definition ends_in_value :: "i32 list \<Rightarrow> bool" where
  "ends_in_value s \<longleftrightarrow> s = [] \<or> 0 \<le> sint (last s)"

lemma sample_loop_ends:
  "sample_loop b ptr i n acc = Inr acc' \<Longrightarrow> n \<noteq> 0 \<or> ends_in_value (encoded_samples acc) \<Longrightarrow>
   ends_in_value (encoded_samples acc')"
proof (induction b ptr i n acc rule: sample_loop.induct)
  case (2 b ptr i n acc)
  then obtain v where v: "fetch_sample b ptr i = Inr v" "sample_loop b ptr (i + 1) n (store_sample v acc) = Inr acc'"
    by (auto simp: bindR_Inr_iff)
  have "ends_in_value (encoded_samples (store_sample v acc))"
    using fetch_sample_range [OF v(1)] by (simp add: ends_in_value_def store_sample_def Let_def)
  with 2 v show ?case by blast
qed simp

lemma gate_step_ends:
  assumes "gate_step b off_bins prev g st = Inr st'" "gate_in_order lo g"
  shows "ends_in_value (encoded_samples (snd st'))"
proof -
  note sizes = gate_in_order_sizes [OF assms(2)]
  have "\<not> get_stop_sample_index g \<le> get_start_sample_index g"
    using assms(2) by (auto simp: gate_in_order_def)
  with assms(1) sizes obtain acc where
    "sample_loop b (get_raw_unprocessed b + sint (fst st)) (sint (gate_start_sample_pos g :: i32))
       (gate_length g) acc = Inr (snd st')"
    by (auto simp: gate_step_def Let_def bindR_Inr_iff)
  then show ?thesis
    using sizes(3) by (intro sample_loop_ends) auto
qed

lemma gates_loop_ends:
  "gates_loop b off_bins prev gs st = Inr st' \<Longrightarrow> gates_in_order lo gs \<Longrightarrow>
   ends_in_value (encoded_samples (snd st)) \<Longrightarrow> ends_in_value (encoded_samples (snd st'))"
proof (induction gs arbitrary: prev st lo)
  case (Cons g gs)
  then obtain st1 where "gate_step b off_bins prev g st = Inr st1" "gates_loop b off_bins (Some g) gs st1 = Inr st'"
    by (auto simp: bindR_Inr_iff)
  then show ?case
    using Cons.IH [of "Some g" st1 "uint (get_stop_sample_index g)"] Cons.prems(2)
      gate_step_ends [of b off_bins prev g st st1 lo] by simp
qed simp

lemma process_stamps_ends:
  "process_stamps b off_bins first n ts offset = Inr rs \<Longrightarrow>
   \<forall>t \<in> set ts. gates_in_order 0 (trig_gates t) \<Longrightarrow> \<forall>er \<in> set rs. ends_in_value (encoded_spectra er)"
proof (induction ts arbitrary: n offset rs)
  case (Cons t ts)
  then obtain offset' acc rs' where
    loop: "gates_loop b off_bins None (trig_gates t) (offset, new_scan_acc) = Inr (offset', acc)"
    and rest: "process_stamps b off_bins first (Suc n) ts offset' = Inr rs'"
    and rs: "rs = make_result first n t acc # rs'"
    by (auto simp: bindR_Inr_iff)
  have "ends_in_value (encoded_samples acc)"
    using gates_loop_ends [OF loop, of 0] Cons.prems(2) by (simp add: ends_in_value_def new_scan_acc_def)
  with Cons.IH [OF rest] Cons.prems(2) rs show ?case
    by (simp add: make_result_def)
qed simp

lemma ends_in_value_reaches:
  "s \<noteq> [] \<Longrightarrow> ends_in_value s \<Longrightarrow> \<exists>q v. (q, v) \<in> set (decode_spectrum k s) \<and> k \<le> q"
proof (induction s arbitrary: k)
  case (Cons v vs)
  show ?case
  proof (cases "sint v < 0")
    case True
    with Cons.prems have "vs \<noteq> []" "ends_in_value vs"
      by (auto simp: ends_in_value_def split: if_splits)
    from Cons.IH [OF this, of "k - sint v"] True show ?thesis by force
  qed auto
qed simp

lemma decoded_inside:
  assumes "\<forall>(q, v) \<in> set (decode_spectrum k s). q < int n" "ends_in_value s"
  shows "spectrum_inside n k s"
  using assms
proof (induction s arbitrary: k)
  case (Cons v vs)
  have tail: "ends_in_value vs"
    using Cons.prems(2) by (auto simp: ends_in_value_def split: if_splits)
  show ?case
  proof (cases "sint v < 0")
    case True
    then have "vs \<noteq> []"
      using Cons.prems(2) by (auto simp: ends_in_value_def)
    from ends_in_value_reaches [OF this tail, of "k - sint v"] Cons True tail show ?thesis
      by fastforce
  next
    case False
    with Cons tail show ?thesis by simp
  qed
qed simp

lemma trigger_bins_inside:
  assumes "gates_in_order lo gs" "\<forall>g \<in> set gs. uint (get_stop_sample_index g) + uint off_bins \<le> int n"
  shows "\<forall>(q, v) \<in> set (trigger_bins b off_bins ptr gs). q < int n"
  using assms
proof (induction gs arbitrary: lo ptr)
  case (Cons g gs)
  have "gate_in_order lo g" using Cons.prems(1) by simp
  from gate_in_order_sizes(1) [OF this] Cons.prems(2)
  have "\<forall>(q, v) \<in> set (gate_bins b off_bins ptr g). q < int n"
    by (auto simp: gate_bins_def)
  moreover have "\<forall>(q, v) \<in> set (trigger_bins b off_bins (ptr + uint (element_count g)) gs). q < int n"
    using Cons.prems by (intro Cons.IH [of "uint (get_stop_sample_index g)"]) auto
  ultimately show ?case by (simp add: ball_Un)
qed simp

lemma all_bins_inside:
  assumes "\<forall>t \<in> set ts. gates_in_order 0 (trig_gates t)"
    and "\<forall>t \<in> set ts. \<forall>g \<in> set (trig_gates t). uint (get_stop_sample_index g) + uint off_bins \<le> int n"
  shows "\<forall>bins \<in> set (all_bins b off_bins ptr ts). \<forall>(q, v) \<in> set bins. q < int n"
  using assms
proof (induction ts arbitrary: ptr)
  case (Cons t ts)
  with trigger_bins_inside [of 0 "trig_gates t" off_bins n b ptr] show ?case by simp
qed simp

definition example_parameters :: uimf_frame_parameters where
  "example_parameters = \<lparr>start_trigger = 0, nbr_samples = 0, nbr_accumulations = 0,
     frame_length = 1, frame_number = 1, offset_bins = 10, file_name = []\<rparr>"

theorem acquired_triggers_are_encoded_witness:
  "\<exists>st d results. zs1_acquire 1 False (cut_markers @ cut_samples @ []) example_context example_pool = (st, Done (d, [])) \<and>
    process (buffer_of (fst (snd st)) 0)
      \<lparr>rec_parameters = example_parameters, acquiredData = d, start_scan_index = 0\<rparr> = Inr results \<and>
    map (map fst) (map (\<lambda>er. decode_spectrum 0 (encoded_spectra er)) results) = [[12]]"
proof -
  have "\<forall>t \<in> set example_stamps. gates_in_order 0 (trig_gates t)"
    "(\<Sum>t\<leftarrow>example_stamps. trigger_elements (trig_gates t)) < 2147483648"
    "uint (offset_bins example_parameters) < max_bin"
    by (simp_all add: example_stamps_def gate_in_order_def index_defs max_bin_def trigger_elements_def
        example_parameters_def)
  from acquired_triggers_are_encoded [OF example_sound this, of False "[]" 0] show ?thesis
    by (auto simp: example_stamps_def gate_bins_def gate_length_def index_defs example_parameters_def
        upt_rec)
qed

text \<open>C4: an encoded record whose gates, shifted by \<open>offset_bins\<close>, lie inside the data
  vector is summed and published: the data message carries, bin by bin, the sum of the samples of
  all its gates, with one tic and one time stamp per trigger.\<close>

theorem encoded_record_is_published:
  assumes "\<forall>t \<in> set (stamps (acquiredData r)). trigger_sound (offset_bins (rec_parameters r)) t"
    and "uint (offset_bins (rec_parameters r)) < max_bin"
    and "buffer_holds b (stamps (acquiredData r))"
    and "length (data_vector s) < 2147483647"
    and "\<forall>t \<in> set (stamps (acquiredData r)). \<forall>g \<in> set (trig_gates t).
      uint (get_stop_sample_index g) + uint (offset_bins (rec_parameters r)) \<le> int (length (data_vector s))"
  shows "\<exists>item msg. to_frame b r = Inr item \<and>
    zmq_on_notify encode item s =
      Inr (check_alignment s item @ [(''data'', encode msg)],
           s\<lparr>data_vector := msg_mz msg, processed := processed s + 1\<rparr>) \<and>
    msg_mz msg = map (column_sum (concat (all_bins b (offset_bins (rec_parameters r))
      (get_raw_unprocessed b) (stamps (acquiredData r))))) [0 ..< length (data_vector s)] \<and>
    length (msg_tic msg) = length (stamps (acquiredData r)) \<and>
    msg_time_stamps msg = map trig_timestamp (stamps (acquiredData r))"
proof -
  let ?ts = "stamps (acquiredData r)" and ?off = "offset_bins (rec_parameters r)"
    and ?n = "length (data_vector s)"
  have order: "\<forall>t \<in> set ?ts. gates_in_order 0 (trig_gates t)"
    using assms(1) by (simp add: trigger_sound_def)
  obtain rs where rs: "process b r = Inr rs"
    "map (\<lambda>er. decode_spectrum 0 (encoded_spectra er)) rs = all_bins b ?off (get_raw_unprocessed b) ?ts"
    using process_stamps_places [OF assms(1,2), of b 0 "start_scan_index r" 0] assms(3)
    by (auto simp: process_def buffer_holds_def)
  have ends: "\<forall>er \<in> set rs. ends_in_value (encoded_spectra er)"
    using process_stamps_ends [of b ?off "start_scan_index r" 0 ?ts 0 rs] rs(1) order by (simp add: process_def)
  have "\<forall>er \<in> set rs. \<forall>(q, v) \<in> set (decode_spectrum 0 (encoded_spectra er)). q < int ?n"
    using all_bins_inside [OF order assms(5), of b "get_raw_unprocessed b"] rs(2) by (metis (no_types, lifting) image_eqI list.set_map)
  then have inside: "batch_inside ?n rs"
    using ends decoded_inside by (auto simp: batch_inside_def)
  have stamps: "length rs = length ?ts" "map er_timestamp rs = map trig_timestamp ?ts"
  proof -
    have "list_all2 (\<lambda>trig er. er_timestamp er = trig_timestamp trig \<and> scan_ok er) ?ts rs"
      using process_stamps_ok [of b ?off "start_scan_index r" 0 ?ts 0 rs] rs(1) by (simp add: process_def)
    then show "length rs = length ?ts" "map er_timestamp rs = map trig_timestamp ?ts"
      by (auto simp: list_all2_conv_all_nth intro: nth_equalityI)
  qed
  let ?item = "\<lparr>frame_parameters = rec_parameters r, encoded_data = rs\<rparr>"
  have bins: "batch_bins rs = concat (all_bins b ?off (get_raw_unprocessed b) ?ts)"
    using rs(2) by (simp add: batch_bins_def)
  have "to_frame b r = Inr ?item"
    using rs(1) by (simp add: to_frame_def)
  then show ?thesis
    using zmq_publishes_sums [of s ?item encode] inside assms(4) stamps bins by auto
qed

theorem encoded_record_is_published_witness:
  "\<exists>item. \<exists>msg :: message. to_frame sample_buffer sample_record = Inr item \<and>
    zmq_on_notify (\<lambda>m. ''m'') item (new_zmq_subscriber 104 1) =
      Inr (check_alignment (new_zmq_subscriber 104 1) item @ [(''data'', ''m'')],
           (new_zmq_subscriber 104 1)\<lparr>data_vector := msg_mz msg, processed := 1\<rparr>) \<and>
    msg_time_stamps msg = [7]"
proof -
  have "length (data_vector (new_zmq_subscriber 104 1)) < 2147483647"
    "\<forall>t \<in> set (stamps (acquiredData sample_record)). \<forall>g \<in> set (trig_gates t).
      uint (get_stop_sample_index g) + uint (offset_bins (rec_parameters sample_record))
        \<le> int (length (data_vector (new_zmq_subscriber 104 1)))"
    by (simp_all add: new_zmq_subscriber_def sample_defs index_defs)
  from encoded_record_is_published [OF sample_record_sound this, of "\<lambda>m. ''m''"]
  obtain item and msg :: message where m: "to_frame sample_buffer sample_record = Inr item"
    "zmq_on_notify (\<lambda>m. ''m'') item (new_zmq_subscriber 104 1) =
      Inr (check_alignment (new_zmq_subscriber 104 1) item @ [(''data'', ''m'')],
           (new_zmq_subscriber 104 1)\<lparr>data_vector := msg_mz msg,
             processed := processed (new_zmq_subscriber 104 1) + 1\<rparr>)"
    "msg_time_stamps msg = map trig_timestamp (stamps (acquiredData sample_record))"
    by blast
  then have "msg_time_stamps msg = [7]" "processed (new_zmq_subscriber 104 1) + 1 = 1"
    by (simp_all add: sample_record_def new_zmq_subscriber_def)
  with m show ?thesis by metis
qed

end
