(* ===== verification/Digitizer.thy ===== *)
theory Digitizer
  imports Stream_Fetch
begin

text \<open>
  \<open>Digitizer\<close> and \<open>SA220\<close> of libaqmd3: the card as a sequence of driver calls.
  The driver is not part of the repository: it is a function that answers a call, given the calls
  made before it. A method makes one call and returns the severity of its status; an \<open>SA220\<close>
  operation makes several and throws at the first one that fails. The attributes and the named
  settings of the driver's header are their names; a C++ \<open>double\<close> that is only handed to
  the driver is a value of the type parameter.
\<close>

section \<open>Driver calls\<close>

datatype 'r vi_value =
    Vi_int i64
  | Vi_named string
  | Vi_real 'r
  | Vi_bool bool
  | Vi_text string

datatype 'r vi_call =
    Init_with_options string string
  | Close
  | Get_text string nat
  | Set_attribute string string "'r vi_value"
  | Configure_channel string 'r 'r "'r vi_value"
  | Get_bool string
  | Apply_setup
  | Self_calibrate
  | Initiate_acquisition
  | Abort
  | Is_idle
  | Is_measuring
  | Stream_fetch fetch_request

record vi_reply =
  vi_status :: i32
  vi_code :: i32
  vi_message :: string
  vi_flag :: bool
  vi_result :: string
  vi_text :: string

type_synonym 'r calls = "'r vi_call list"
type_synonym 'r driver = "'r calls \<Rightarrow> 'r vi_call \<Rightarrow> vi_reply"
type_synonym ('r, 'a) card_method = "'r calls \<Rightarrow> 'a \<times> 'r calls"

definition vi_error :: "vi_reply \<Rightarrow> string \<times> error_type" where
  "vi_error r = check_error (vi_status r) (vi_code r) (vi_message r)"

definition vi_do :: "'r driver \<Rightarrow> 'r vi_call \<Rightarrow> ('r, string \<times> error_type) card_method" where
  "vi_do drv c calls = (vi_error (drv calls c), calls @ [c])"

section \<open>Digitizer\<close>

definition simulate_options :: "bool \<Rightarrow> string \<Rightarrow> string" where
  "simulate_options simulate device_type =
     ''Simulate='' @ (if simulate then ''true'' else ''false'') @ '', DriverSetup= Model='' @ device_type"

text \<open>The constructor does not look at the status of the call.\<close>

definition new_digitizer :: "'r driver \<Rightarrow> string \<Rightarrow> bool \<Rightarrow> string \<Rightarrow> 'r calls \<Rightarrow> 'r calls" where
  "new_digitizer drv resource simulate device_type calls =
     snd (vi_do drv (Init_with_options resource (simulate_options simulate device_type)) calls)"

definition close_digitizer :: "'r driver \<Rightarrow> 'r calls \<Rightarrow> 'r calls" where
  "close_digitizer drv calls = snd (vi_do drv Close calls)"

text \<open>A text attribute is read into a string of the length the caller gives it.\<close>

definition get_text :: "'r driver \<Rightarrow> string \<Rightarrow> string \<Rightarrow> ('r, (string \<times> error_type) \<times> string) card_method" where
  "get_text drv attribute buffer calls =
     (let c = Get_text attribute (length buffer); r = drv calls c in
      ((vi_error r, take (length buffer) (vi_text r @ drop (length (vi_text r)) buffer)), calls @ [c]))"

definition get_instrument_options_info :: "'r driver \<Rightarrow> string \<Rightarrow> ('r, (string \<times> error_type) \<times> string) card_method" where
  "get_instrument_options_info drv = get_text drv ''AQMD3_ATTR_INSTRUMENT_INFO_OPTIONS''"

definition get_instrument_model :: "'r driver \<Rightarrow> string \<Rightarrow> ('r, (string \<times> error_type) \<times> string) card_method" where
  "get_instrument_model drv = get_text drv ''AQMD3_ATTR_INSTRUMENT_MODEL''"

definition get_instrument_serial_number :: "'r driver \<Rightarrow> string \<Rightarrow> ('r, (string \<times> error_type) \<times> string) card_method" where
  "get_instrument_serial_number drv = get_text drv ''AQMD3_ATTR_INSTRUMENT_INFO_SERIAL_NUMBER_STRING''"

definition get_instrument_firmware_revision :: "'r driver \<Rightarrow> string \<Rightarrow> ('r, (string \<times> error_type) \<times> string) card_method" where
  "get_instrument_firmware_revision drv = get_text drv ''AQMD3_ATTR_INSTRUMENT_FIRMWARE_REVISION''"

definition configure_streaming_mode :: "'r driver \<Rightarrow> string \<Rightarrow> ('r, string \<times> error_type) card_method" where
  "configure_streaming_mode drv mode =
     vi_do drv (Set_attribute '''' ''AQMD3_ATTR_STREAMING_MODE'' (Vi_named mode))"

definition configure_zs_hysteresis :: "'r driver \<Rightarrow> string \<Rightarrow> i32 \<Rightarrow> ('r, string \<times> error_type) card_method" where
  "configure_zs_hysteresis drv channel n =
     vi_do drv (Set_attribute channel ''AQMD3_ATTR_CHANNEL_ZERO_SUPPRESS_HYSTERESIS'' (Vi_int (scast n)))"

definition configure_zs_threshold :: "'r driver \<Rightarrow> string \<Rightarrow> i32 \<Rightarrow> ('r, string \<times> error_type) card_method" where
  "configure_zs_threshold drv channel n =
     vi_do drv (Set_attribute channel ''AQMD3_ATTR_CHANNEL_ZERO_SUPPRESS_THRESHOLD'' (Vi_int (scast n)))"

definition configure_zs_pre_gate_samples :: "'r driver \<Rightarrow> string \<Rightarrow> i32 \<Rightarrow> ('r, string \<times> error_type) card_method" where
  "configure_zs_pre_gate_samples drv channel n =
     vi_do drv (Set_attribute channel ''AQMD3_ATTR_CHANNEL_ZERO_SUPPRESS_PRE_GATE_SAMPLES'' (Vi_int (scast n)))"

definition configure_zs_post_gate_samples :: "'r driver \<Rightarrow> string \<Rightarrow> i32 \<Rightarrow> ('r, string \<times> error_type) card_method" where
  "configure_zs_post_gate_samples drv channel n =
     vi_do drv (Set_attribute channel ''AQMD3_ATTR_CHANNEL_ZERO_SUPPRESS_POST_GATE_SAMPLES'' (Vi_int (scast n)))"

definition configure_channel :: "'r driver \<Rightarrow> string \<Rightarrow> 'r \<Rightarrow> 'r \<Rightarrow> string \<Rightarrow> ('r, string \<times> error_type) card_method" where
  "configure_channel drv channel rng offset coupling =
     vi_do drv (Configure_channel channel rng offset (Vi_named coupling))"

definition configure_channel_data_inversion :: "'r driver \<Rightarrow> string \<Rightarrow> bool \<Rightarrow> ('r, string \<times> error_type) card_method" where
  "configure_channel_data_inversion drv channel invert =
     vi_do drv (Set_attribute channel ''AQMD3_ATTR_CHANNEL_DATA_INVERSION_ENABLED'' (Vi_bool invert))"

definition apply_setup :: "'r driver \<Rightarrow> ('r, string \<times> error_type) card_method" where
  "apply_setup drv = vi_do drv Apply_setup"

definition self_calibrate :: "'r driver \<Rightarrow> ('r, string \<times> error_type) card_method" where
  "self_calibrate drv = vi_do drv Self_calibrate"

definition begin_acquisition :: "'r driver \<Rightarrow> ('r, string \<times> error_type) card_method" where
  "begin_acquisition drv = vi_do drv Initiate_acquisition"

definition abort_acquisition :: "'r driver \<Rightarrow> ('r, string \<times> error_type) card_method" where
  "abort_acquisition drv = vi_do drv Abort"

definition get_calibration_required :: "'r driver \<Rightarrow> ('r, string \<times> error_type \<times> bool) card_method" where
  "get_calibration_required drv calls =
     (let c = Get_bool ''AQMD3_ATTR_CALIBRATION_IS_REQUIRED''; r = drv calls c in
      ((fst (vi_error r), snd (vi_error r), vi_flag r), calls @ [c]))"

definition digitizer_is_idle :: "'r driver \<Rightarrow> ('r, string \<times> error_type \<times> string) card_method" where
  "digitizer_is_idle drv calls =
     (let r = drv calls Is_idle in
      ((fst (vi_error r), snd (vi_error r), vi_result r), calls @ [Is_idle]))"

definition get_is_measuring :: "'r driver \<Rightarrow> ('r, string \<times> error_type \<times> string) card_method" where
  "get_is_measuring drv calls =
     (let r = drv calls Is_measuring in
      ((fst (vi_error r), snd (vi_error r), vi_result r), calls @ [Is_measuring]))"

definition configure_sample_rate :: "'r driver \<Rightarrow> 'r \<Rightarrow> ('r, string \<times> error_type) card_method" where
  "configure_sample_rate drv rate =
     vi_do drv (Set_attribute '''' ''AQMD3_ATTR_SAMPLE_RATE'' (Vi_real rate))"

definition configure_trigger_source :: "'r driver \<Rightarrow> string \<Rightarrow> ('r, string \<times> error_type) card_method" where
  "configure_trigger_source drv source =
     vi_do drv (Set_attribute '''' ''AQMD3_ATTR_ACTIVE_TRIGGER_SOURCE'' (Vi_text source))"

definition configure_trigger_level :: "'r driver \<Rightarrow> string \<Rightarrow> 'r \<Rightarrow> ('r, string \<times> error_type) card_method" where
  "configure_trigger_level drv source level =
     vi_do drv (Set_attribute source ''AQMD3_ATTR_TRIGGER_LEVEL'' (Vi_real level))"

definition configure_trigger_slope :: "'r driver \<Rightarrow> string \<Rightarrow> string \<Rightarrow> ('r, string \<times> error_type) card_method" where
  "configure_trigger_slope drv source slope =
     vi_do drv (Set_attribute source ''AQMD3_ATTR_TRIGGER_SLOPE'' (Vi_named slope))"

definition configure_trigger_delay :: "'r driver \<Rightarrow> 'r \<Rightarrow> ('r, string \<times> error_type) card_method" where
  "configure_trigger_delay drv delay =
     vi_do drv (Set_attribute '''' ''AQMD3_ATTR_TRIGGER_DELAY'' (Vi_real delay))"

definition configure_record_size :: "'r driver \<Rightarrow> i64 \<Rightarrow> ('r, string \<times> error_type) card_method" where
  "configure_record_size drv n =
     vi_do drv (Set_attribute '''' ''AQMD3_ATTR_RECORD_SIZE'' (Vi_int n))"

definition configure_data_reduction :: "'r driver \<Rightarrow> string \<Rightarrow> ('r, string \<times> error_type) card_method" where
  "configure_data_reduction drv mode =
     vi_do drv (Set_attribute '''' ''AQMD3_ATTR_ACQUISITION_DATA_REDUCTION_MODE'' (Vi_named mode))"

definition configure_acquisition_mode :: "'r driver \<Rightarrow> string \<Rightarrow> ('r, string \<times> error_type) card_method" where
  "configure_acquisition_mode drv mode =
     vi_do drv (Set_attribute '''' ''AQMD3_ATTR_ACQUISITION_MODE'' (Vi_named mode))"

definition configure_io_port :: "'r driver \<Rightarrow> string \<Rightarrow> string \<Rightarrow> ('r, string \<times> error_type) card_method" where
  "configure_io_port drv port v =
     vi_do drv (Set_attribute port ''AQMD3_ATTR_CONTROL_IO_SIGNAL'' (Vi_text v))"

definition stream_fetch_data :: "'r driver \<Rightarrow> fetch_request \<Rightarrow> ('r, string \<times> error_type) card_method" where
  "stream_fetch_data drv q = vi_do drv (Stream_fetch q)"

section \<open>SA220\<close>

definition check_call :: "('r, string \<times> error_type) card_method \<Rightarrow> ('r, unit result) card_method" where
  "check_call f calls = (case f calls of (err, calls') \<Rightarrow> (check_and_throw_on_error err, calls'))"

definition check_value :: "('r, string \<times> error_type \<times> 'a) card_method \<Rightarrow> ('r, 'a result) card_method" where
  "check_value f calls = (case f calls of (err, calls') \<Rightarrow> (check_and_throw_value err, calls'))"

text \<open>One statement after the other; an exception ends the operation.\<close>

definition then_do :: "('r, 'a result) card_method \<Rightarrow> ('a \<Rightarrow> ('r, 'b result) card_method) \<Rightarrow> ('r, 'b result) card_method" where
  "then_do f g calls =
     (case f calls of (Inl e, calls') \<Rightarrow> (Inl e, calls') | (Inr a, calls') \<Rightarrow> g a calls')"

definition give :: "'a \<Rightarrow> ('r, 'a result) card_method" where
  "give a calls = (Inr a, calls)"

fun check_all :: "('r, string \<times> error_type) card_method list \<Rightarrow> ('r, unit result) card_method" where
  "check_all [] = give ()"
| "check_all (f # fs) = then_do (check_call f) (\<lambda>_. check_all fs)"

record zero_suppress_parameters =
  zs_threshold :: i16
  zs_hysteresis :: u16
  zs_pre_samples :: u8
  zs_post_samples :: u8

definition new_zero_suppress_parameters :: "i16 \<Rightarrow> u16 \<Rightarrow> zero_suppress_parameters" where
  "new_zero_suppress_parameters threshold hysteresis =
     \<lparr>zs_threshold = threshold, zs_hysteresis = hysteresis, zs_pre_samples = 0, zs_post_samples = 0\<rparr>"

definition set_sampling_rate :: "'r driver \<Rightarrow> 'r \<Rightarrow> ('r, unit result) card_method" where
  "set_sampling_rate drv rate = check_all [configure_sample_rate drv rate]"

definition set_record_size :: "'r driver \<Rightarrow> u64 \<Rightarrow> ('r, unit result) card_method" where
  "set_record_size drv elements = check_all [configure_record_size drv elements]"

definition set_trigger_parameters :: "'r driver \<Rightarrow> string \<Rightarrow> 'r \<Rightarrow> bool \<Rightarrow> 'r \<Rightarrow> ('r, unit result) card_method" where
  "set_trigger_parameters drv trigger level rising delay_s =
     (let slope = (if rising then ''AQMD3_VAL_TRIGGER_SLOPE_POSITIVE'' else ''AQMD3_VAL_TRIGGER_SLOPE_NEGATIVE'') in
      check_all
       [configure_trigger_source drv trigger, configure_trigger_level drv trigger level,
        configure_trigger_slope drv trigger slope, configure_trigger_delay drv delay_s])"

definition set_channel_parameters :: "'r driver \<Rightarrow> string \<Rightarrow> 'r \<Rightarrow> 'r \<Rightarrow> ('r, unit result) card_method" where
  "set_channel_parameters drv channel rng offset =
     check_all [configure_channel drv channel rng offset ''AQMD3_VAL_VERTICAL_COUPLING_DC'']"

definition set_channel_data_inversion :: "'r driver \<Rightarrow> string \<Rightarrow> bool \<Rightarrow> ('r, unit result) card_method" where
  "set_channel_data_inversion drv channel enable =
     check_all [configure_channel_data_inversion drv channel enable]"

definition enable_io_port :: "'r driver \<Rightarrow> string \<Rightarrow> ('r, unit result) card_method" where
  "enable_io_port drv port = check_all [configure_io_port drv port ''In-TriggerEnable'']"

definition disable_io_port :: "'r driver \<Rightarrow> string \<Rightarrow> ('r, unit result) card_method" where
  "disable_io_port drv port = check_all [configure_io_port drv port ''Disabled'']"

definition get_is_idle :: "'r driver \<Rightarrow> ('r, bool result) card_method" where
  "get_is_idle drv =
     then_do (check_value (digitizer_is_idle drv))
       (\<lambda>result. give (result = ''AQMD3_VAL_ACQUISITION_STATUS_RESULT_TRUE''))"

definition calibrate_if_required :: "'r driver \<Rightarrow> ('r, unit result) card_method" where
  "calibrate_if_required drv =
     then_do (check_value (get_calibration_required drv))
       (\<lambda>should_calibrate. if should_calibrate then check_call (self_calibrate drv) else give ())"

text \<open>The channel a context is made for is what it keeps of the call.\<close>

definition configure_cst :: "'r driver \<Rightarrow> string \<Rightarrow> ('r, string result) card_method" where
  "configure_cst drv channel =
     then_do (check_all
       [configure_streaming_mode drv ''AQMD3_VAL_STREAMING_MODE_TRIGGERED'',
        configure_acquisition_mode drv ''AQMD3_VAL_ACQUISITION_MODE_NORMAL'',
        configure_data_reduction drv ''AQMD3_VAL_ACQUISITION_DATA_REDUCTION_MODE_DISABLED'',
        apply_setup drv]) (\<lambda>_.
     then_do (calibrate_if_required drv) (\<lambda>_. give channel))"

definition configure_cst_zs1 :: "'r driver \<Rightarrow> string \<Rightarrow> zero_suppress_parameters \<Rightarrow> ('r, string result) card_method" where
  "configure_cst_zs1 drv channel ps =
     then_do (check_all
       [configure_streaming_mode drv ''AQMD3_VAL_STREAMING_MODE_TRIGGERED'',
        configure_data_reduction drv ''AQMD3_VAL_ACQUISITION_DATA_REDUCTION_MODE_ZERO_SUPPRESS'',
        configure_zs_hysteresis drv channel (ucast (zs_hysteresis ps)),
        configure_zs_threshold drv channel (scast (zs_threshold ps)),
        configure_zs_pre_gate_samples drv channel (ucast (zs_pre_samples ps)),
        configure_zs_post_gate_samples drv channel (ucast (zs_post_samples ps)),
        apply_setup drv]) (\<lambda>_.
     then_do (calibrate_if_required drv) (\<lambda>_. give channel))"

text \<open>What the card is, read once by the constructor.\<close>

record digitizer_info =
  info_model :: string
  info_firmware_revision :: string
  info_serial_number :: string

definition c_string :: "string \<Rightarrow> string" where
  "c_string s = takeWhile (\<lambda>c. c \<noteq> CHR 0x00) s"

definition get_digitizer_info :: "'r driver \<Rightarrow> ('r, digitizer_info) card_method" where
  "get_digitizer_info drv calls =
     (let buffer = replicate 256 (CHR 0x00);
          ((_, firmware), calls1) = get_instrument_firmware_revision drv buffer calls;
          ((_, serial), calls2) = get_instrument_serial_number drv buffer calls1;
          ((_, model), calls3) = get_instrument_model drv buffer calls2 in
      (\<lparr>info_model = c_string model, info_firmware_revision = c_string firmware,
        info_serial_number = c_string serial\<rparr>, calls3))"

definition new_sa220 :: "'r driver \<Rightarrow> string \<Rightarrow> bool \<Rightarrow> ('r, digitizer_info) card_method" where
  "new_sa220 drv device_handle simulate calls =
     get_digitizer_info drv (new_digitizer drv device_handle simulate ''SA220P'' calls)"

section \<open>What an operation of the card promises\<close>

definition call_ok :: "'r driver \<Rightarrow> 'r calls \<Rightarrow> 'r vi_call \<Rightarrow> bool" where
  "call_ok drv calls c \<longleftrightarrow> snd (vi_error (drv calls c)) \<noteq> Driver_error"

fun calls_ok :: "'r driver \<Rightarrow> 'r calls \<Rightarrow> 'r calls \<Rightarrow> bool" where
  "calls_ok drv calls [] \<longleftrightarrow> True"
| "calls_ok drv calls (c # cs) \<longleftrightarrow> call_ok drv calls c \<and> calls_ok drv (calls @ [c]) cs"

definition call_failure :: "'r driver \<Rightarrow> 'r calls \<Rightarrow> 'r vi_call \<Rightarrow> exn" where
  "call_failure drv calls c = Runtime_error (''Error during call to digitizer. '' @ fst (vi_error (drv calls c)))"

text \<open>
  The contract of the operations: they return when every call they made succeeded, and leave with the
  exception of the first call that fails, which is their last.
\<close>

definition stops_at_failure :: "'r driver \<Rightarrow> ('r, 'a result) card_method \<Rightarrow> bool" where
  "stops_at_failure drv f \<longleftrightarrow>
     (\<forall>calls r calls'. f calls = (r, calls') \<longrightarrow>
        (case r of
           Inr a \<Rightarrow> \<exists>cs. calls' = calls @ cs \<and> calls_ok drv calls cs
         | Inl e \<Rightarrow> \<exists>cs c. calls' = calls @ cs @ [c] \<and> calls_ok drv calls cs \<and>
                      \<not> call_ok drv (calls @ cs) c \<and> e = call_failure drv (calls @ cs) c))"

lemma calls_ok_append [simp]:
  "calls_ok drv calls (cs @ ds) \<longleftrightarrow> calls_ok drv calls cs \<and> calls_ok drv (calls @ cs) ds"
  by (induction cs arbitrary: calls) auto

lemma stops_give [intro!]: "stops_at_failure drv (give a)"
  by (auto simp: stops_at_failure_def give_def)

lemma stops_single:
  assumes "\<And>calls. f calls = (if call_ok drv calls c then Inr (a calls) else Inl (call_failure drv calls c), calls @ [c])"
  shows "stops_at_failure drv f"
  unfolding stops_at_failure_def assms
proof (intro allI impI)
  fix calls r calls'
  assume "(if call_ok drv calls c then Inr (a calls) else Inl (call_failure drv calls c), calls @ [c]) = (r, calls')"
  then consider (ok) "call_ok drv calls c" "r = Inr (a calls)" "calls' = calls @ [c]"
    | (failed) "\<not> call_ok drv calls c" "r = Inl (call_failure drv calls c)" "calls' = calls @ [c]"
    by (auto split: if_splits)
  then show "case r of Inr a \<Rightarrow> \<exists>cs. calls' = calls @ cs \<and> calls_ok drv calls cs
      | Inl e \<Rightarrow> \<exists>cs c. calls' = calls @ cs @ [c] \<and> calls_ok drv calls cs \<and>
          \<not> call_ok drv (calls @ cs) c \<and> e = call_failure drv (calls @ cs) c"
  proof cases
    case ok
    then show ?thesis by (auto intro: exI [of _ "[c]"])
  next
    case failed
    then show ?thesis by (auto intro: exI [of _ "[]"])
  qed
qed

lemma stops_check_call [intro!]: "stops_at_failure drv (check_call (vi_do drv c))"
  by (rule stops_single [where c = c and a = "\<lambda>_. ()"])
    (simp add: check_call_def vi_do_def check_and_throw_on_error_def call_ok_def call_failure_def)

lemma stops_calibration_required [intro!]: "stops_at_failure drv (check_value (get_calibration_required drv))"
  by (rule stops_single [where c = "Get_bool ''AQMD3_ATTR_CALIBRATION_IS_REQUIRED''" and
        a = "\<lambda>calls. vi_flag (drv calls (Get_bool ''AQMD3_ATTR_CALIBRATION_IS_REQUIRED''))"])
    (simp add: check_value_def get_calibration_required_def check_and_throw_value_def call_ok_def
      call_failure_def Let_def prod_eq_iff)

lemma stops_is_idle [intro!]: "stops_at_failure drv (check_value (digitizer_is_idle drv))"
  by (rule stops_single [where c = Is_idle and a = "\<lambda>calls. vi_result (drv calls Is_idle)"])
    (simp add: check_value_def digitizer_is_idle_def check_and_throw_value_def call_ok_def
      call_failure_def Let_def prod_eq_iff)

lemma stops_then [intro!]:
  assumes "stops_at_failure drv f" "\<And>a. stops_at_failure drv (g a)"
  shows "stops_at_failure drv (then_do f g)"
  unfolding stops_at_failure_def
proof (intro allI impI)
  fix calls r calls'
  assume run: "then_do f g calls = (r, calls')"
  obtain r1 calls1 where f: "f calls = (r1, calls1)" by fastforce
  show "case r of Inr a \<Rightarrow> \<exists>cs. calls' = calls @ cs \<and> calls_ok drv calls cs
      | Inl e \<Rightarrow> \<exists>cs c. calls' = calls @ cs @ [c] \<and> calls_ok drv calls cs \<and>
          \<not> call_ok drv (calls @ cs) c \<and> e = call_failure drv (calls @ cs) c"
  proof (cases r1)
    case (Inl e)
    with assms(1) f have "\<exists>cs c. calls1 = calls @ cs @ [c] \<and> calls_ok drv calls cs \<and>
        \<not> call_ok drv (calls @ cs) c \<and> e = call_failure drv (calls @ cs) c"
      by (fastforce simp: stops_at_failure_def)
    moreover have "r = Inl e" "calls' = calls1" using run f Inl by (auto simp: then_do_def)
    ultimately show ?thesis by simp
  next
    case (Inr a)
    with assms(1) f obtain cs where cs: "calls1 = calls @ cs" "calls_ok drv calls cs"
      by (fastforce simp: stops_at_failure_def)
    have g: "g a calls1 = (r, calls')" using run f Inr by (simp add: then_do_def)
    show ?thesis
    proof (cases r)
      case (Inl e)
      with assms(2) [of a] g have "\<exists>ds c. calls' = calls1 @ ds @ [c] \<and> calls_ok drv calls1 ds \<and>
          \<not> call_ok drv (calls1 @ ds) c \<and> e = call_failure drv (calls1 @ ds) c"
        by (fastforce simp: stops_at_failure_def)
      then obtain ds c where "calls' = calls @ (cs @ ds) @ [c]" "calls_ok drv calls (cs @ ds)"
          "\<not> call_ok drv (calls @ (cs @ ds)) c" "e = call_failure drv (calls @ (cs @ ds)) c"
        using cs by auto
      with Inl show ?thesis by (auto intro!: exI [of _ "cs @ ds"])
    next
      case (Inr b)
      with assms(2) [of a] g obtain ds where "calls' = calls1 @ ds" "calls_ok drv calls1 ds"
        by (fastforce simp: stops_at_failure_def)
      with cs Inr show ?thesis by (auto intro!: exI [of _ "cs @ ds"])
    qed
  qed
qed

lemma stops_check_all [intro!]:
  "list_all (\<lambda>f. stops_at_failure drv (check_call f)) fs \<Longrightarrow> stops_at_failure drv (check_all fs)"
  by (induction fs) auto

lemmas digitizer_methods = configure_streaming_mode_def configure_zs_hysteresis_def configure_zs_threshold_def
  configure_zs_pre_gate_samples_def configure_zs_post_gate_samples_def configure_channel_def
  configure_channel_data_inversion_def apply_setup_def self_calibrate_def begin_acquisition_def
  abort_acquisition_def configure_sample_rate_def configure_trigger_source_def configure_trigger_level_def
  configure_trigger_slope_def configure_trigger_delay_def configure_record_size_def
  configure_data_reduction_def configure_acquisition_mode_def configure_io_port_def

text \<open>The interface the console relies on.\<close>

locale card_operation =
  fixes drv :: "'r driver" and operation :: "('r, 'a result) card_method"
  assumes contract: "stops_at_failure drv operation"
begin

lemma returns_when_all_succeed:
  "operation calls = (Inr a, calls') \<Longrightarrow> \<exists>cs. calls' = calls @ cs \<and> calls_ok drv calls cs"
  using contract unfolding stops_at_failure_def by fastforce

lemma fails_at_last_call:
  "operation calls = (Inl e, calls') \<Longrightarrow>
   \<exists>cs c. calls' = calls @ cs @ [c] \<and> calls_ok drv calls cs \<and> \<not> call_ok drv (calls @ cs) c \<and>
     e = call_failure drv (calls @ cs) c"
  using contract unfolding stops_at_failure_def by fastforce

lemma throws_what_the_card_reports: "operation calls = (Inl e, calls') \<Longrightarrow> \<exists>m. e = Runtime_error m"
  using fails_at_last_call [of calls e calls'] unfolding call_failure_def by blast

lemma only_adds_calls: "take (length calls) (snd (operation calls)) = calls"
proof (cases "operation calls")
  case (Pair r calls')
  then show ?thesis
    using returns_when_all_succeed fails_at_last_call by (cases r) fastforce+
qed

end

lemma stops_calibrate: "stops_at_failure drv (calibrate_if_required drv)"
  unfolding calibrate_if_required_def by (auto simp: digitizer_methods)

interpretation record_size: card_operation drv "set_record_size drv n" for drv n
  by unfold_locales (auto simp: set_record_size_def digitizer_methods)

interpretation sampling_rate: card_operation drv "set_sampling_rate drv rate" for drv rate
  by unfold_locales (auto simp: set_sampling_rate_def digitizer_methods)

interpretation trigger_parameters: card_operation drv "set_trigger_parameters drv trigger level rising delay"
  for drv trigger level rising delay
  by unfold_locales (auto simp: set_trigger_parameters_def digitizer_methods Let_def)

interpretation channel_parameters: card_operation drv "set_channel_parameters drv channel rng offset"
  for drv channel rng offset
  by unfold_locales (auto simp: set_channel_parameters_def digitizer_methods)

interpretation data_inversion: card_operation drv "set_channel_data_inversion drv channel enable" for drv channel enable
  by unfold_locales (auto simp: set_channel_data_inversion_def digitizer_methods)

interpretation enabled_port: card_operation drv "enable_io_port drv port" for drv port
  by unfold_locales (auto simp: enable_io_port_def digitizer_methods)

interpretation disabled_port: card_operation drv "disable_io_port drv port" for drv port
  by unfold_locales (auto simp: disable_io_port_def digitizer_methods)

interpretation idle: card_operation drv "get_is_idle drv" for drv
  by unfold_locales (auto simp: get_is_idle_def)

interpretation cst: card_operation drv "configure_cst drv channel" for drv channel
  by unfold_locales (auto simp: configure_cst_def digitizer_methods intro: stops_calibrate)

interpretation cst_zs1: card_operation drv "configure_cst_zs1 drv channel ps" for drv channel ps
  by unfold_locales (auto simp: configure_cst_zs1_def digitizer_methods intro: stops_calibrate)

section \<open>Properties\<close>

definition zs1_setup :: "string \<Rightarrow> zero_suppress_parameters \<Rightarrow> 'r calls" where
  "zs1_setup channel ps =
     [Set_attribute '''' ''AQMD3_ATTR_STREAMING_MODE'' (Vi_named ''AQMD3_VAL_STREAMING_MODE_TRIGGERED''),
      Set_attribute '''' ''AQMD3_ATTR_ACQUISITION_DATA_REDUCTION_MODE''
        (Vi_named ''AQMD3_VAL_ACQUISITION_DATA_REDUCTION_MODE_ZERO_SUPPRESS''),
      Set_attribute channel ''AQMD3_ATTR_CHANNEL_ZERO_SUPPRESS_HYSTERESIS'' (Vi_int (ucast (zs_hysteresis ps))),
      Set_attribute channel ''AQMD3_ATTR_CHANNEL_ZERO_SUPPRESS_THRESHOLD'' (Vi_int (scast (zs_threshold ps))),
      Set_attribute channel ''AQMD3_ATTR_CHANNEL_ZERO_SUPPRESS_PRE_GATE_SAMPLES'' (Vi_int (ucast (zs_pre_samples ps))),
      Set_attribute channel ''AQMD3_ATTR_CHANNEL_ZERO_SUPPRESS_POST_GATE_SAMPLES'' (Vi_int (ucast (zs_post_samples ps))),
      Apply_setup]"

definition calibration :: "'r driver \<Rightarrow> 'r calls \<Rightarrow> 'r calls" where
  "calibration drv calls =
     Get_bool ''AQMD3_ATTR_CALIBRATION_IS_REQUIRED'' #
     (if vi_flag (drv calls (Get_bool ''AQMD3_ATTR_CALIBRATION_IS_REQUIRED'')) then [Self_calibrate] else [])"

lemma check_all_calls: "check_all (map (vi_do drv) cs) calls = (Inr u, calls') \<Longrightarrow> calls' = calls @ cs"
  by (induction cs arbitrary: calls)
    (fastforce simp: give_def then_do_def check_call_def vi_do_def split: prod.splits sum.splits)+

lemma check_all_ok: "check_all (map (vi_do drv) cs) calls = (Inr u, calls') \<Longrightarrow> calls_ok drv calls cs"
  by (induction cs arbitrary: calls)
    (fastforce simp: then_do_def check_call_def vi_do_def check_and_throw_on_error_def call_ok_def
      split: prod.splits sum.splits if_splits)+

lemma calibrate_calls:
  "calibrate_if_required drv calls = (Inr u, calls') \<Longrightarrow> calls' = calls @ calibration drv calls"
  by (auto simp: calibrate_if_required_def then_do_def check_value_def get_calibration_required_def
      check_and_throw_value_def check_call_def self_calibrate_def vi_do_def give_def calibration_def Let_def
      split: prod.splits sum.splits if_splits)

lemma setup_then_calibrate:
  assumes "then_do (check_all (map (vi_do drv) cs)) (\<lambda>_. then_do (calibrate_if_required drv) (\<lambda>_. give channel)) calls
      = (Inr c, calls')"
  shows "c = channel \<and> calls' = calls @ cs @ calibration drv (calls @ cs)"
  using assms
  by (auto simp: then_do_def give_def split: prod.splits sum.splits dest!: check_all_calls calibrate_calls)

lemma bit_beyond: "LENGTH('a) \<le> n \<Longrightarrow> \<not> bit (w :: 'a::len word) n"
  by (auto dest: bit_imp_le_length)

lemma widen_twice:
  "scast (ucast (h :: u16) :: i32) = (ucast h :: i64)" "scast (ucast (b :: u8) :: i32) = (ucast b :: i64)"
  "scast (scast (t :: i16) :: i32) = (scast t :: i64)"
  by (auto intro!: bit_word_eqI simp: bit_simps min_def bit_beyond split: if_splits)

lemma configure_cst_zs1_eq:
  "configure_cst_zs1 drv channel ps =
     then_do (check_all (map (vi_do drv) (zs1_setup channel ps)))
       (\<lambda>_. then_do (calibrate_if_required drv) (\<lambda>_. give channel))"
  by (simp add: configure_cst_zs1_def zs1_setup_def digitizer_methods widen_twice)

text \<open>C31: configuring zero suppression returns a context for its channel only after it has set the
  streaming mode, the data reduction, the four zero-suppression attributes, applied them and calibrated
  the card when it asked for it, in this order and with every call successful.\<close>

theorem configure_zs1_calls:
  assumes "configure_cst_zs1 drv channel ps calls = (Inr c, calls')"
  shows "c = channel \<and>
    calls' = calls @ zs1_setup channel ps @ calibration drv (calls @ zs1_setup channel ps) \<and>
    calls_ok drv calls (zs1_setup channel ps @ calibration drv (calls @ zs1_setup channel ps))"
proof -
  from setup_then_calibrate [OF assms [unfolded configure_cst_zs1_eq]]
  have "c = channel" "calls' = calls @ zs1_setup channel ps @ calibration drv (calls @ zs1_setup channel ps)"
    by simp_all
  with cst_zs1.returns_when_all_succeed [OF assms] show ?thesis by auto
qed

text \<open>
  How far an operation made of a list of calls got: up to the first that failed.
\<close>

lemma check_call_do:
  "check_call (vi_do drv c) calls =
     (if call_ok drv calls c then Inr () else Inl (call_failure drv calls c), calls @ [c])"
  by (simp add: check_call_def vi_do_def check_and_throw_on_error_def call_ok_def call_failure_def)

lemma check_all_fails:
  "check_all (map (vi_do drv) cs) calls = (Inl e, calls') \<Longrightarrow>
   \<exists>ds c rest. cs = ds @ c # rest \<and> calls' = calls @ ds @ [c] \<and> calls_ok drv calls ds \<and>
     \<not> call_ok drv (calls @ ds) c \<and> e = call_failure drv (calls @ ds) c"
proof (induction cs arbitrary: calls)
  case (Cons c cs)
  show ?case
  proof (cases "call_ok drv calls c")
    case True
    with Cons.prems have "check_all (map (vi_do drv) cs) (calls @ [c]) = (Inl e, calls')"
      by (simp add: then_do_def check_call_do)
    from Cons.IH [OF this] obtain ds c' rest where "cs = ds @ c' # rest" "calls' = (calls @ [c]) @ ds @ [c']"
      "calls_ok drv (calls @ [c]) ds" "\<not> call_ok drv ((calls @ [c]) @ ds) c'" "e = call_failure drv ((calls @ [c]) @ ds) c'"
      by blast
    with True show ?thesis by (intro exI [of _ "c # ds"] exI [of _ c'] exI [of _ rest]) simp
  next
    case False
    with Cons.prems show ?thesis
      by (intro exI [of _ "[]"] exI [of _ c] exI [of _ cs])
        (auto simp: then_do_def check_call_do)
  qed
qed (simp add: give_def)

lemma calibrate_fails:
  assumes "calibrate_if_required drv calls = (Inl e, calls')"
  shows "\<exists>ds c rest. calibration drv calls = ds @ c # rest \<and> calls' = calls @ ds @ [c] \<and> calls_ok drv calls ds \<and>
     \<not> call_ok drv (calls @ ds) c \<and> e = call_failure drv (calls @ ds) c"
proof -
  let ?g = "Get_bool ''AQMD3_ATTR_CALIBRATION_IS_REQUIRED''"
  show ?thesis
  proof (cases "call_ok drv calls ?g")
    case True
    then have "vi_flag (drv calls ?g)" "check_call (self_calibrate drv) (calls @ [?g]) = (Inl e, calls')"
      using assms
      by (auto simp: calibrate_if_required_def then_do_def check_value_def get_calibration_required_def Let_def
          check_and_throw_value_def call_ok_def give_def split: if_splits)
    with True show ?thesis
      by (intro exI [of _ "[?g]"] exI [of _ Self_calibrate] exI [of _ "[]"])
        (auto simp: calibration_def self_calibrate_def check_call_def vi_do_def check_and_throw_on_error_def call_ok_def
          call_failure_def split: if_splits)
  next
    case False
    with assms show ?thesis
      by (intro exI [of _ "[]"] exI [of _ ?g] exI [of _ "tl (calibration drv calls)"])
        (auto simp: calibration_def calibrate_if_required_def then_do_def check_value_def get_calibration_required_def Let_def
          check_and_throw_value_def call_ok_def call_failure_def)
  qed
qed

text \<open>C32: when configuring zero suppression fails, the calls made to the card are exactly the first ones of the
  configuration, in its order and with its settings, up to the first that failed: the seven of
  \<open>zs1_setup\<close> and then those of the calibration. Every call before the last one succeeded, nothing is called
  after the failure, and the exception carries its text.\<close>

theorem configure_zs1_failure:
  assumes "configure_cst_zs1 drv channel ps calls = (Inl e, calls')"
  shows "\<exists>cs c rest. zs1_setup channel ps @ calibration drv (calls @ zs1_setup channel ps) = cs @ c # rest \<and>
    calls' = calls @ cs @ [c] \<and> calls_ok drv calls cs \<and> \<not> call_ok drv (calls @ cs) c \<and>
    e = call_failure drv (calls @ cs) c"
proof -
  let ?calls = "zs1_setup channel ps"
  obtain r calls1 where run: "check_all (map (vi_do drv) ?calls) calls = (r, calls1)" by fastforce
  show ?thesis
  proof (cases r)
    case (Inl e1)
    with assms run have "e1 = e" "calls1 = calls'"
      by (simp_all add: configure_cst_zs1_eq then_do_def)
    with check_all_fails [OF run [unfolded Inl]] obtain cs c rest where "?calls = cs @ c # rest"
      "calls' = calls @ cs @ [c]" "calls_ok drv calls cs" "\<not> call_ok drv (calls @ cs) c" "e = call_failure drv (calls @ cs) c"
      by blast
    then show ?thesis
      by (intro exI [of _ cs] exI [of _ c] exI [of _ "rest @ calibration drv (calls @ ?calls)"]) simp
  next
    case (Inr u)
    have calls1: "calls1 = calls @ ?calls" by (rule check_all_calls [OF run [unfolded Inr]])
    have ok: "calls_ok drv calls ?calls" by (rule check_all_ok [OF run [unfolded Inr]])
    have "calibrate_if_required drv (calls @ ?calls) = (Inl e, calls')"
      using assms run Inr calls1
      by (auto simp: configure_cst_zs1_eq then_do_def give_def split: prod.splits sum.splits)
    from calibrate_fails [OF this] obtain ds c rest where "calibration drv (calls @ ?calls) = ds @ c # rest"
      "calls' = (calls @ ?calls) @ ds @ [c]" "calls_ok drv (calls @ ?calls) ds"
      "\<not> call_ok drv ((calls @ ?calls) @ ds) c" "e = call_failure drv ((calls @ ?calls) @ ds) c" by blast
    with ok show ?thesis by (intro exI [of _ "?calls @ ds"] exI [of _ c] exI [of _ rest]) simp
  qed
qed

definition example_driver :: "unit driver" where
  "example_driver calls c =
     \<lparr>vi_status = (if c = Self_calibrate then -1 else 0), vi_code = 7, vi_message = ''busy'',
      vi_flag = (length calls = 7), vi_result = '''', vi_text = ''''\<rparr>"

definition willing_driver :: "unit driver" where
  "willing_driver calls c =
     \<lparr>vi_status = 0, vi_code = 0, vi_message = '''', vi_flag = True, vi_result = '''', vi_text = ''''\<rparr>"

theorem configure_zs1_calls_witness:
  "snd (configure_cst_zs1 willing_driver ''Channel1'' (new_zero_suppress_parameters 10 4) []) =
     [] @ zs1_setup ''Channel1'' (new_zero_suppress_parameters 10 4) @
       calibration willing_driver ([] @ zs1_setup ''Channel1'' (new_zero_suppress_parameters 10 4))"
proof -
  let ?ps = "new_zero_suppress_parameters 10 4"
  have "configure_cst_zs1 willing_driver ''Channel1'' ?ps [] =
      (Inr ''Channel1'', snd (configure_cst_zs1 willing_driver ''Channel1'' ?ps []))"
    by (simp add: prod_eq_iff) code_simp
  from configure_zs1_calls [OF this] show ?thesis by blast
qed

theorem configure_zs1_failure_witness:
  "\<exists>calls' cs c rest. configure_cst_zs1 example_driver ''Channel1'' (new_zero_suppress_parameters 10 4) [] =
      (Inl (Runtime_error ''Error during call to digitizer. Error Code: 7Error Message: busy''), calls') \<and>
    zs1_setup ''Channel1'' (new_zero_suppress_parameters 10 4) @
      calibration example_driver (zs1_setup ''Channel1'' (new_zero_suppress_parameters 10 4)) = cs @ c # rest \<and>
    calls' = cs @ [c] \<and> calls_ok example_driver [] cs \<and> \<not> call_ok example_driver cs c"
proof -
  let ?ps = "new_zero_suppress_parameters 10 4"
  have "configure_cst_zs1 example_driver ''Channel1'' ?ps [] =
      (Inl (Runtime_error ''Error during call to digitizer. Error Code: 7Error Message: busy''),
       snd (configure_cst_zs1 example_driver ''Channel1'' ?ps []))"
    by (simp add: prod_eq_iff) code_simp
  with configure_zs1_failure [OF this] show ?thesis by (metis append_Nil)
qed

end
