(* ===== verification/Cst_Context.thy ===== *)
theory Cst_Context
  imports Marker_Stream
begin

text \<open>
  \<open>CstContext\<close>: the acquisition without zero suppression, used to measure the pusher
  period. It reads the markers stream until it has a timestamp for every trigger asked for, skipping
  the hunks that are not triggers, and then the samples of as many records. The markers land in a
  vector of its own, always at its front, so a position in the vector is a position in the last
  fetch. Messages to \<open>std::cerr\<close> are left out.
\<close>

section \<open>StreamingContext\<close>

record streaming_context =
  sc_markers_channel :: string
  sc_samples_channel :: string

definition new_streaming_context :: "string \<Rightarrow> streaming_context" where
  "new_streaming_context channel =
     \<lparr>sc_markers_channel = (if channel = ''Channel1'' then ''MarkersCh1'' else ''MarkersCh2''),
      sc_samples_channel = (if channel = ''Channel1'' then ''StreamCh1'' else ''StreamCh2'')\<rparr>"

definition streaming_start :: "string \<times> error_type \<Rightarrow> unit result" where
  "streaming_start begun = check_and_throw_on_error begun"

definition streaming_stop :: "string \<times> error_type \<Rightarrow> unit result" where
  "streaming_stop aborted = check_and_throw_on_error aborted"

text \<open>\<open>result_true\<close> is the driver's \<open>AQMD3_VAL_ACQUISITION_STATUS_RESULT_TRUE\<close>.\<close>

definition get_is_acquiring :: "i32 \<Rightarrow> string \<times> error_type \<times> i32 \<Rightarrow> bool result" where
  "get_is_acquiring result_true measuring =
     bindR (check_and_throw_on_error (fst measuring, fst (snd measuring))) (\<lambda>_.
       Inr (snd (snd measuring) = result_true))"

text \<open>\<open>status\<close>, \<open>code\<close> and \<open>msg\<close> are what \<open>AqMD3_GetError\<close> gives.\<close>

definition driver_error :: "i32 \<Rightarrow> i32 \<Rightarrow> string \<Rightarrow> string" where
  "driver_error status code msg =
     (if status <s 0 then ''unreadable''
      else if code = 0 then ''none''
      else ''code '' @ int_to_string (sint code) @ '', '' @ msg)"

section \<open>The markers\<close>

definition cst_hunk_size :: i64 where
  "cst_hunk_size = 16"

definition markers_multiplier_max :: i64 where
  "markers_multiplier_max = 16"

record cst_run =
  cst_markers :: "i32 list"
  cst_samples :: acq_buffer
  cst_stamps :: "trigger_data list"
  hunks_skipped :: u64
  cst_available :: i64
  cst_requests :: "fetch_request list"

definition cst_markers_to_acquire :: "u64 \<Rightarrow> i64" where
  "cst_markers_to_acquire n = n * cst_hunk_size"

definition markers_request_max :: "u64 \<Rightarrow> i64" where
  "markers_request_max n = cst_markers_to_acquire n * markers_multiplier_max"

definition new_cst_run :: "u64 \<Rightarrow> acq_buffer \<Rightarrow> cst_run" where
  "new_cst_run n b =
     \<lparr>cst_markers = replicate (unat (markers_request_max n + 15)) 0, cst_samples = b, cst_stamps = [],
      hunks_skipped = 0, cst_available = 0, cst_requests = []\<rparr>"

text \<open>What the next fetch asks for: more than one hunk a trigger when more is waiting.\<close>

definition cst_request :: "u64 \<Rightarrow> i64 \<Rightarrow> i64" where
  "cst_request n available =
     (let request = cst_markers_to_acquire n in
      if request <s available
      then (let r = (if markers_request_max n <s available then markers_request_max n else available) in
            r - word_of_int (sint r smod 16))
      else request)"

text \<open>Both words of the timestamp are read as unsigned.\<close>

definition cst_timestamp :: "i32 list \<Rightarrow> u64" where
  "cst_timestamp seg =
     (let low = ucast (seg ! 1) :: u64; high = ucast (seg ! 2) :: u64 in
      push_bit 24 high OR (drop_bit 8 low AND 0xFFFFFF))"

definition cst_trigger :: "i32 list \<Rightarrow> trigger_data" where
  "cst_trigger seg =
     new_trigger_data (cst_timestamp seg) (drop_bit 8 (seg ! 0)) (sint (- 1 * ((seg ! 1) AND 0xFF)) sdiv 256)"

definition scan_hunk :: "i32 list \<Rightarrow> cst_run \<Rightarrow> cst_run" where
  "scan_hunk seg st =
     (if (seg ! 0) AND 0xFF \<noteq> 1 then st\<lparr>hunks_skipped := hunks_skipped st + 1\<rparr>
      else st\<lparr>cst_stamps := cst_stamps st @ [cst_trigger seg]\<rparr>)"

text \<open>The scan of \<open>j\<close> hunks from position \<open>pos\<close> of the vector on.\<close>

fun scan_hunks :: "u64 \<Rightarrow> int \<Rightarrow> nat \<Rightarrow> cst_run \<Rightarrow> cst_run result" where
  "scan_hunks n pos 0 st = Inr st"
| "scan_hunks n pos (Suc j) st =
     (if 0 \<le> pos \<and> nat pos + 16 \<le> length (cst_markers st)
      then
        (let seg = take 16 (drop (nat pos) (cst_markers st)); st' = scan_hunk seg st in
         if (seg ! 0) AND 0xFF = 1 \<and> unat n \<le> length (cst_stamps st') then Inr st'
         else scan_hunks n (pos + 16) j st')
      else Inl (Undefined ''marker read''))"

definition cst_timeout_text :: "u64 \<Rightarrow> cst_run \<Rightarrow> string" where
  "cst_timeout_text n st =
     ''timeout collecting trigger timestamps: '' @ nat_to_string (length (cst_stamps st)) @
     '' of '' @ nat_to_string (unat n) @ '' collected, '' @
     nat_to_string (unat (hunks_skipped st)) @ '' marker hunks skipped as not triggers, '' @
     int_to_string (sint (cst_available st)) @ '' elements available''"

text \<open>
  One round of the markers loop with the reply \<open>r\<close>. The deadline is looked at after the
  scan, so \<open>reply_late\<close> is the clock there.
\<close>

definition cst_store :: "fetch_reply \<Rightarrow> cst_run \<Rightarrow> cst_run result" where
  "cst_store r st =
     (if length (reply_data r) \<le> length (cst_markers st)
      then Inr (st\<lparr>cst_markers := reply_data r @ drop (length (reply_data r)) (cst_markers st),
                   cst_available := reply_available r\<rparr>)
      else Inl (Undefined ''markers write''))"

definition cst_round :: "u64 \<Rightarrow> bool \<Rightarrow> fetch_reply \<Rightarrow> cst_run \<Rightarrow> cst_run result" where
  "cst_round n use_timeout r st =
     bindR (cst_store r st) (\<lambda>st1.
       if snd (reply_error r) = Driver_error then Inl (Runtime_error (fst (reply_error r)))
       else
         bindR (scan_hunks n (sint (reply_first r)) (nat (sint (reply_actual r) div 16)) st1) (\<lambda>st2.
           if use_timeout \<and> reply_late r then Inl (Runtime_error (cst_timeout_text n st2))
           else Inr st2))"

definition cst_ask :: "streaming_context \<Rightarrow> u64 \<Rightarrow> cst_run \<Rightarrow> cst_run result" where
  "cst_ask ctx n st =
     bindR (check_fetch_alignment (sc_markers_channel ctx) (cst_request n (cst_available st))) (\<lambda>_.
       Inr (st\<lparr>cst_requests := cst_requests st @
         [\<lparr>req_stream = sc_markers_channel ctx, req_elements = cst_request n (cst_available st),
           req_size = of_nat (length (cst_markers st))\<rparr>]\<rparr>))"

fun cst_collect :: "streaming_context \<Rightarrow> u64 \<Rightarrow> bool \<Rightarrow> fetch_reply list \<Rightarrow> cst_run \<Rightarrow>
    cst_run \<times> fetch_reply list ending" where
  "cst_collect ctx n use_timeout rs st =
     (if unat n \<le> length (cst_stamps st) then (st, Done rs)
      else
        (case cst_ask ctx n st of
           Inl e \<Rightarrow> (st, Threw e)
         | Inr st1 \<Rightarrow>
             (case rs of
                [] \<Rightarrow> (st1, Waiting)
              | r # rs' \<Rightarrow>
                  (case cst_round n use_timeout r st1 of
                     Inl e \<Rightarrow> (st1, Threw e)
                   | Inr st2 \<Rightarrow> cst_collect ctx n use_timeout rs' st2))))"

declare cst_collect.simps [simp del]

section \<open>The samples\<close>

definition elements_to_acquire :: "u64 \<Rightarrow> acq_buffer \<Rightarrow> i64" where
  "elements_to_acquire n b = n * buf_samples_per_trigger b div 2"

definition samples_timeout_text :: "i64 \<Rightarrow> fetch_reply \<Rightarrow> string" where
  "samples_timeout_text wanted r =
     ''timeout fetching samples: asked for '' @ int_to_string (sint wanted) @ '', '' @
     int_to_string (sint (reply_available r)) @ '' available''"

text \<open>Every fetch writes to the same place; only the last one moves the buffer on.\<close>

definition cst_ask_samples :: "streaming_context \<Rightarrow> i64 \<Rightarrow> cst_run \<Rightarrow> cst_run" where
  "cst_ask_samples ctx wanted st =
     st\<lparr>cst_requests := cst_requests st @
       [\<lparr>req_stream = sc_samples_channel ctx, req_elements = wanted, req_size = get_size (cst_samples st)\<rparr>]\<rparr>"

definition cst_take_samples :: "i64 \<Rightarrow> bool \<Rightarrow> fetch_reply \<Rightarrow> cst_run \<Rightarrow> cst_run result" where
  "cst_take_samples wanted use_timeout r st =
     bindR (write_at (get_raw_unaquired (cst_samples st)) (reply_data r) (cst_samples st)) (\<lambda>b.
       if snd (reply_error r) = Driver_error then Inl (Runtime_error (fst (reply_error r)))
       else if use_timeout \<and> reply_late r then Inl (Runtime_error (samples_timeout_text wanted r))
       else Inr (st\<lparr>cst_samples := b\<rparr>))"

fun cst_samples_loop :: "streaming_context \<Rightarrow> i64 \<Rightarrow> bool \<Rightarrow> fetch_reply list \<Rightarrow> cst_run \<Rightarrow>
    cst_run \<times> fetch_reply list ending" where
  "cst_samples_loop ctx wanted use_timeout [] st = (cst_ask_samples ctx wanted st, Waiting)"
| "cst_samples_loop ctx wanted use_timeout (r # rs) st =
     (let st1 = cst_ask_samples ctx wanted st in
      case cst_take_samples wanted use_timeout r st1 of
        Inl e \<Rightarrow> (st1, Threw e)
      | Inr st2 \<Rightarrow>
          if reply_actual r <s wanted then cst_samples_loop ctx wanted use_timeout rs st2
          else (st2\<lparr>cst_samples := advance_acquired (ucast (reply_actual r))
                 (advance_offset (ucast (reply_first r)) (cst_samples st2))\<rparr>, Done rs))"

definition cst_fetch_samples :: "streaming_context \<Rightarrow> u64 \<Rightarrow> bool \<Rightarrow> fetch_reply list \<Rightarrow> cst_run \<Rightarrow>
    cst_run \<times> fetch_reply list ending" where
  "cst_fetch_samples ctx n use_timeout rs st =
     (let wanted = elements_to_acquire n (cst_samples st) in
      case check_fetch_alignment (sc_samples_channel ctx) wanted of
        Inl e \<Rightarrow> (st, Threw e)
      | Inr _ \<Rightarrow> cst_samples_loop ctx wanted use_timeout rs st)"

section \<open>acquire\<close>

definition cst_acquire_run :: "streaming_context \<Rightarrow> u64 \<Rightarrow> bool \<Rightarrow> fetch_reply list \<Rightarrow> acq_buffer \<Rightarrow>
    cst_run \<times> fetch_reply list ending" where
  "cst_acquire_run ctx n use_timeout rs b =
     (case cst_collect ctx n use_timeout rs (new_cst_run n b) of
        (st, Done rs') \<Rightarrow> cst_fetch_samples ctx n use_timeout rs' st
      | (st, e) \<Rightarrow> (st, e))"

definition cst_acquire :: "streaming_context \<Rightarrow> u64 \<Rightarrow> bool \<Rightarrow> fetch_reply list \<Rightarrow> buffer_pool \<Rightarrow>
    (buffer_pool \<times> fetch_request list) \<times> (acquired_data \<times> fetch_reply list) ending" where
  "cst_acquire ctx n use_timeout rs p =
     (let (k, p1) = get_buffer p in
      case cst_acquire_run ctx n use_timeout rs (buffer_of p1 k) of
        (st, ending) \<Rightarrow>
          let p2 = set_buffer k (cst_samples st) p1 in
          (case ending of
             Done rs' \<Rightarrow>
               ((p2, cst_requests st),
                Done (\<lparr>samples_slot = k, stamps = cst_stamps st,
                       samples_count = buf_samples_per_trigger (cst_samples st)\<rparr>, rs'))
           | Threw e \<Rightarrow> ((drop_ref k p2, cst_requests st), Threw e)
           | Waiting \<Rightarrow> ((p2, cst_requests st), Waiting)))"

end
