(* ===== verification/Cst_Acquire.thy ===== *)
theory Cst_Acquire
  imports Cst_Context Marker_Fetch
begin

text \<open>
  What \<open>CstContext::acquire\<close> guarantees: the scan of a fetch is a filter of its hunks, every
  request is one the driver accepts, the stamps are the first triggers of the stream, and a
  deadline that has passed ends the call.
\<close>

section \<open>The scan as a filter\<close>

fun scan_list :: "u64 \<Rightarrow> i32 list list \<Rightarrow> cst_run \<Rightarrow> cst_run" where
  "scan_list n [] st = st"
| "scan_list n (seg # segs) st =
     (let st' = scan_hunk seg st in
      if is_trigger_hunk seg \<and> unat n \<le> length (cst_stamps st') then st' else scan_list n segs st')"

lemma scan_hunk_markers [simp]:
  "cst_markers (scan_hunk seg st) = cst_markers st" "cst_samples (scan_hunk seg st) = cst_samples st"
  "cst_requests (scan_hunk seg st) = cst_requests st" "cst_available (scan_hunk seg st) = cst_available st"
  by (simp_all add: scan_hunk_def)

lemma scan_hunks_list:
  assumes "0 \<le> pos" "nat pos + 16 * j \<le> length (cst_markers st)"
  shows "scan_hunks n pos j st =
    Inr (scan_list n (hunks_of (take (16 * j) (drop (nat pos) (cst_markers st)))) st)"
  using assms
proof (induction j arbitrary: pos st)
  case (Suc j)
  let ?xs = "drop (nat pos) (cst_markers st)"
  have "hunks_of (take (16 * Suc j) ?xs) = take 16 ?xs # hunks_of (take (16 * j) (drop 16 ?xs))"
    using Suc.prems by (subst hunks_of_step) (auto simp: min_def drop_take)
  moreover have "drop 16 ?xs = drop (nat (pos + 16)) (cst_markers (scan_hunk (take 16 ?xs) st))"
    using Suc.prems by (simp add: nat_add_distrib add.commute)
  moreover have "scan_hunks n (pos + 16) j (scan_hunk (take 16 ?xs) st) =
      Inr (scan_list n (hunks_of (take (16 * j) (drop (nat (pos + 16)) (cst_markers (scan_hunk (take 16 ?xs) st)))))
        (scan_hunk (take 16 ?xs) st))"
    using Suc.prems by (intro Suc.IH) (simp_all add: nat_add_distrib)
  ultimately show ?case
    using Suc.prems by (simp add: Let_def is_trigger_hunk_def hunk_kind_def)
qed simp

lemma scan_list_frame [simp]:
  "cst_markers (scan_list n segs st) = cst_markers st" "cst_samples (scan_list n segs st) = cst_samples st"
  "cst_requests (scan_list n segs st) = cst_requests st" "cst_available (scan_list n segs st) = cst_available st"
  by (induction segs arbitrary: st) (simp_all add: Let_def)

lemma scan_list_stamps:
  "length (cst_stamps st) < unat n \<Longrightarrow>
   cst_stamps (scan_list n segs st) =
     take (unat n) (cst_stamps st @ map cst_trigger (filter is_trigger_hunk segs))"
proof (induction segs arbitrary: st)
  case (Cons seg segs)
  show ?case
  proof (cases "is_trigger_hunk seg")
    case True
    have s: "cst_stamps (scan_hunk seg st) = cst_stamps st @ [cst_trigger seg]"
      using True by (simp add: scan_hunk_def is_trigger_hunk_def hunk_kind_def)
    show ?thesis
    proof (cases "unat n \<le> Suc (length (cst_stamps st))")
      case full: True
      with Cons.prems have "unat n = Suc (length (cst_stamps st))" by simp
      with True s show ?thesis by (simp add: Let_def)
    next
      case False
      with Cons.IH [of "scan_hunk seg st"] True s show ?thesis by (simp add: Let_def)
    qed
  next
    case False
    then have "cst_stamps (scan_hunk seg st) = cst_stamps st"
      by (simp add: scan_hunk_def is_trigger_hunk_def hunk_kind_def)
    with False Cons.IH [of "scan_hunk seg st"] Cons.prems show ?thesis by simp
  qed
qed simp

section \<open>Requests\<close>

definition cst_size_ok :: "u64 \<Rightarrow> bool" where
  "cst_size_ok n \<longleftrightarrow> 0 < uint n \<and> uint n < 1099511627776"

lemma cst_sizes:
  assumes "cst_size_ok n"
  shows "sint (cst_markers_to_acquire n) = 16 * uint n" "sint (markers_request_max n) = 256 * uint n"
    "uint (markers_request_max n + 15) = 256 * uint n + 15"
proof -
  have u: "uint (cst_markers_to_acquire n) = 16 * uint n"
    using assms by (simp add: cst_markers_to_acquire_def cst_hunk_size_def cst_size_ok_def uint64_mult)
  then have u': "uint (markers_request_max n) = 256 * uint n"
    using assms by (simp add: markers_request_max_def markers_multiplier_max_def cst_size_ok_def uint64_mult)
  show "sint (cst_markers_to_acquire n) = 16 * uint n" "sint (markers_request_max n) = 256 * uint n"
    using u u' assms by (simp_all add: sint64_uint cst_size_ok_def)
  show "uint (markers_request_max n + 15) = 256 * uint n + 15"
    using u' assms by (simp add: uint64_add cst_size_ok_def)
qed

lemma round_down:
  assumes "0 < sint (r :: i64)"
  shows "sint (r - word_of_int (sint r smod 16)) = sint r - sint r mod 16"
proof -
  have m: "sint r smod 16 = sint r mod 16"
    using assms by (simp add: signed_modulo_int_def)
  have "0 \<le> sint r - sint r mod 16"
    using assms by (simp add: minus_mod_eq_mult_div zero_le_mult_iff)
  moreover have "sint r - sint r mod 16 < 9223372036854775808"
    using sint64_range(2) [of r] by (smt (verit) pos_mod_sign)
  moreover have "r - word_of_int (sint r mod 16) = word_of_int (sint r - sint r mod 16)"
    by simp
  ultimately show ?thesis
    unfolding m by (simp only: sint_sbintrunc') simp
qed

lemma cst_request_bounds:
  assumes "cst_size_ok n"
  shows "0 < sint (cst_request n a)" "sint (cst_request n a) mod 16 = 0"
    "sint (cst_request n a) \<le> 256 * uint n"
proof -
  note s = cst_sizes [OF assms] and pos = assms [unfolded cst_size_ok_def]
  let ?r = "if markers_request_max n <s a then markers_request_max n else a"
  consider "cst_request n a = cst_markers_to_acquire n"
    | "16 * uint n < sint ?r" "sint ?r \<le> 256 * uint n" "cst_request n a = ?r - word_of_int (sint ?r smod 16)"
  proof (cases "cst_markers_to_acquire n <s a")
    case True
    have "16 * uint n < sint ?r" "sint ?r \<le> 256 * uint n"
      using True s pos by (auto simp: word_sless_alt)
    moreover have "cst_request n a = ?r - word_of_int (sint ?r smod 16)"
      using True by (simp add: cst_request_def Let_def)
    ultimately show ?thesis using that(2) by blast
  next
    case False
    then show ?thesis using that(1) by (simp add: cst_request_def)
  qed
  then show "0 < sint (cst_request n a)" "sint (cst_request n a) mod 16 = 0"
    "sint (cst_request n a) \<le> 256 * uint n"
  proof (atomize (full), cases)
    case 1
    with s pos show "0 < sint (cst_request n a) \<and> sint (cst_request n a) mod 16 = 0 \<and>
        sint (cst_request n a) \<le> 256 * uint n"
      by simp
  next
    case 2
    have r: "sint (cst_request n a) = sint ?r - sint ?r mod 16"
      unfolding 2(3) by (rule round_down) (use 2(1) pos in linarith)
    have "sint ?r mod 16 < 16" "0 \<le> sint ?r mod 16" by simp_all
    with 2 r pos show "0 < sint (cst_request n a) \<and> sint (cst_request n a) mod 16 = 0 \<and>
        sint (cst_request n a) \<le> 256 * uint n"
      by (smt (verit) minus_mod_eq_mult_div mod_mult_self1_is_0)
  qed
qed

definition cst_markers_ok :: "u64 \<Rightarrow> cst_run \<Rightarrow> bool" where
  "cst_markers_ok n st \<longleftrightarrow> int (length (cst_markers st)) = 256 * uint n + 15"

definition cst_good_request :: "streaming_context \<Rightarrow> fetch_request \<Rightarrow> bool" where
  "cst_good_request ctx q \<longleftrightarrow>
     0 < sint (req_elements q) \<and> sint (req_elements q) mod 16 = 0 \<and>
     (req_stream q = sc_markers_channel ctx \<longrightarrow> sint (req_elements q) + 15 \<le> sint (req_size q))"

lemma cst_ask_ok:
  assumes "cst_size_ok n" "cst_markers_ok n st"
  obtains q where "cst_ask ctx n st = Inr (st\<lparr>cst_requests := cst_requests st @ [q]\<rparr>)" "cst_good_request ctx q"
proof -
  let ?q = "\<lparr>req_stream = sc_markers_channel ctx, req_elements = cst_request n (cst_available st),
           req_size = of_nat (length (cst_markers st))\<rparr>"
  note b = cst_request_bounds [OF assms(1)]
  have len: "int (length (cst_markers st)) < 9223372036854775808"
    using assms by (simp add: cst_markers_ok_def cst_size_ok_def)
  then have "sint (of_nat (length (cst_markers st)) :: i64) = 256 * uint n + 15"
    using assms(2) by (simp add: cst_markers_ok_def sint64_uint unsigned_of_nat take_bit_nat_eq_self)
  with b have "cst_good_request ctx ?q"
    by (simp add: cst_good_request_def)
  moreover have "cst_ask ctx n st = Inr (st\<lparr>cst_requests := cst_requests st @ [?q]\<rparr>)"
    using b by (simp add: cst_ask_def check_fetch_alignment_ok [THEN iffD2])
  ultimately show ?thesis by (rule that [rotated])
qed

section \<open>Every request\<close>

definition cst_requests_ok :: "streaming_context \<Rightarrow> u64 \<Rightarrow> cst_run \<Rightarrow> bool" where
  "cst_requests_ok ctx n st \<longleftrightarrow> cst_markers_ok n st \<and> list_all (cst_good_request ctx) (cst_requests st)"

lemma cst_markers_ok_new: "cst_size_ok n \<Longrightarrow> cst_markers_ok n (new_cst_run n b)"
  by (simp add: cst_markers_ok_def new_cst_run_def cst_sizes(3))

lemma scan_hunks_frame:
  "scan_hunks n pos j st = Inr st' \<Longrightarrow>
   cst_markers st' = cst_markers st \<and> cst_requests st' = cst_requests st \<and> cst_samples st' = cst_samples st"
proof (induction j arbitrary: pos st)
  case (Suc j)
  from Suc.prems show ?case
    by (auto simp: Let_def split: if_splits dest!: Suc.IH)
qed simp

lemma cst_round_frame:
  assumes "cst_round n ut r st = Inr st'"
  shows "length (cst_markers st') = length (cst_markers st) \<and> cst_requests st' = cst_requests st \<and>
    cst_samples st' = cst_samples st"
  using assms
  by (auto simp: cst_round_def cst_store_def bindR_Inr_iff split: if_splits dest!: scan_hunks_frame)

lemma cst_round_late: "reply_late r \<Longrightarrow> \<exists>e. cst_round n True r st = Inl e"
  by (cases "cst_round n True r st") (auto simp: cst_round_def bindR_Inr_iff split: if_splits)

lemma cst_collect_requests:
  "cst_size_ok n \<Longrightarrow> cst_requests_ok ctx n st \<Longrightarrow> cst_requests_ok ctx n (fst (cst_collect ctx n ut rs st))"
proof (induction rs arbitrary: st)
  case Nil
  then obtain q where "cst_ask ctx n st = Inr (st\<lparr>cst_requests := cst_requests st @ [q]\<rparr>)" "cst_good_request ctx q"
    by (auto simp: cst_requests_ok_def elim: cst_ask_ok)
  with Nil show ?case
    by (subst cst_collect.simps) (simp add: cst_requests_ok_def cst_markers_ok_def)
next
  case (Cons r rs)
  from Cons.prems obtain q where q: "cst_ask ctx n st = Inr (st\<lparr>cst_requests := cst_requests st @ [q]\<rparr>)"
      "cst_good_request ctx q"
    by (auto simp: cst_requests_ok_def elim: cst_ask_ok)
  let ?st = "st\<lparr>cst_requests := cst_requests st @ [q]\<rparr>"
  have ok: "cst_requests_ok ctx n ?st"
    using Cons.prems(2) q(2) by (simp add: cst_requests_ok_def cst_markers_ok_def)
  show ?case
  proof (cases "cst_round n ut r ?st")
    case (Inr st')
    with cst_round_frame [OF this] ok have "cst_requests_ok ctx n st'"
      by (simp add: cst_requests_ok_def cst_markers_ok_def)
    with Cons.IH [OF Cons.prems(1) this] Inr q Cons.prems(2) show ?thesis
      by (subst cst_collect.simps) simp
  qed (use q ok Cons.prems(2) in \<open>subst cst_collect.simps, simp\<close>)
qed

lemma cst_samples_loop_requests:
  "0 < sint wanted \<Longrightarrow> sint wanted mod 16 = 0 \<Longrightarrow> sc_samples_channel ctx \<noteq> sc_markers_channel ctx \<Longrightarrow>
   list_all (cst_good_request ctx) (cst_requests st) \<Longrightarrow>
   list_all (cst_good_request ctx) (cst_requests (fst (cst_samples_loop ctx wanted ut rs st)))"
proof (induction rs arbitrary: st)
  case Nil
  then show ?case by (simp add: cst_ask_samples_def) (simp add: cst_good_request_def)
next
  case (Cons r rs)
  let ?st = "cst_ask_samples ctx wanted st"
  have ok: "list_all (cst_good_request ctx) (cst_requests ?st)"
    using Cons.prems by (simp add: cst_ask_samples_def) (simp add: cst_good_request_def)
  show ?case
  proof (cases "cst_take_samples wanted ut r ?st")
    case (Inr st')
    then have "cst_requests st' = cst_requests ?st"
      by (auto simp: cst_take_samples_def bindR_Inr_iff split: if_splits)
    with Inr Cons.IH [OF Cons.prems(1-3), of st'] ok show ?thesis
      by (simp add: Let_def)
  qed (use ok in \<open>simp add: Let_def\<close>)
qed

lemma cst_acquire_run_requests:
  assumes "cst_size_ok n" "sc_samples_channel ctx \<noteq> sc_markers_channel ctx"
  shows "list_all (cst_good_request ctx) (cst_requests (fst (cst_acquire_run ctx n ut rs b)))"
proof -
  have "cst_requests_ok ctx n (new_cst_run n b)"
    using cst_markers_ok_new [OF assms(1)] by (simp add: cst_requests_ok_def new_cst_run_def)
  from cst_collect_requests [OF assms(1) this, of ut rs] show ?thesis
    using cst_samples_loop_requests [OF _ _ assms(2)]
    by (auto simp: cst_acquire_run_def cst_fetch_samples_def cst_requests_ok_def Let_def
        check_fetch_alignment_ok split: prod.split ending.split sum.split)
qed

section \<open>A sound driver\<close>

definition trigger_hunks :: "fetch_reply list \<Rightarrow> i32 list list" where
  "trigger_hunks ms = filter is_trigger_hunk (concat (map reply_hunks ms))"

lemma cst_round_sound:
  assumes "sound_reply (length (cst_markers st)) r" "length (cst_stamps st) < unat n"
  obtains st' where "cst_round n ut r st = Inr st'"
    "cst_stamps st' = take (unat n) (cst_stamps st @ map cst_trigger (trigger_hunks [r]))"
    "length (cst_markers st') = length (cst_markers st)" "cst_samples st' = cst_samples st"
proof -
  let ?k = "nat (sint (reply_first r))" and ?j = "nat (sint (reply_actual r) div 16)"
  define st1 where "st1 = st\<lparr>cst_markers := reply_data r @ drop (length (reply_data r)) (cst_markers st),
                   cst_available := reply_available r\<rparr>"
  have fits: "length (reply_data r) \<le> length (cst_markers st)"
    using assms(1) by (simp add: sound_reply_def)
  then have st1: "cst_store r st = Inr st1" "cst_stamps st1 = cst_stamps st"
      "cst_markers st1 = reply_data r @ drop (length (reply_data r)) (cst_markers st)"
      "length (cst_markers st1) = length (cst_markers st)" "cst_samples st1 = cst_samples st"
    by (simp_all add: cst_store_def st1_def)
  have "0 \<le> sint (reply_actual r)" "sint (reply_actual r) mod 16 = 0"
    using assms(1) by (simp_all add: sound_reply_def)
  then have a: "sint (reply_actual r) = 16 * int ?j" by (auto simp: pos_imp_zdiv_nonneg_iff)
  then have j: "nat (sint (reply_actual r)) = 16 * ?j" by linarith
  have "?k + nat (sint (reply_actual r)) \<le> length (reply_data r)"
    using assms(1) by (auto simp: sound_reply_def)
  then have room: "?k + 16 * ?j \<le> length (reply_data r)"
    unfolding j .
  then have v: "take (16 * ?j) (drop ?k (cst_markers st1)) = valid_elements r"
    by (simp add: st1(3) valid_elements_def j)
  have "scan_hunks n (sint (reply_first r)) ?j st1 = Inr (scan_list n (reply_hunks r) st1)"
    using scan_hunks_list [of "sint (reply_first r)" ?j st1 n] assms(1) room st1(3) v
    by (simp add: sound_reply_def reply_hunks_def)
  then have "cst_round n ut r st = Inr (scan_list n (reply_hunks r) st1)"
    using st1(1) assms(1) sound_reply_succeeds [OF assms(1)] by (simp add: cst_round_def sound_reply_def)
  then show ?thesis
    by (rule that) (use st1 assms(2) in \<open>simp_all add: scan_list_stamps trigger_hunks_def\<close>)
qed

lemma trigger_hunks_Cons: "trigger_hunks (r # ms) = trigger_hunks [r] @ trigger_hunks ms"
  by (simp add: trigger_hunks_def)

text \<open>The replies \<open>ms\<close> are just enough: the last of them brings the last trigger.\<close>

lemma cst_collect_sound:
  assumes "cst_size_ok n" "cst_markers_ok n st" "list_all (sound_reply (length (cst_markers st))) ms" "ms \<noteq> []"
    and "length (cst_stamps st) + length (trigger_hunks (butlast ms)) < unat n"
    and "unat n \<le> length (cst_stamps st) + length (trigger_hunks ms)"
  shows "\<exists>st'. cst_collect ctx n ut (ms @ rs) st = (st', Done rs) \<and>
    cst_stamps st' = take (unat n) (cst_stamps st @ map cst_trigger (trigger_hunks ms)) \<and>
    cst_samples st' = cst_samples st"
  using assms(2-)
proof (induction ms arbitrary: st)
  case (Cons r ms)
  from cst_ask_ok [OF assms(1) Cons.prems(1)] obtain q where
    q: "cst_ask ctx n st = Inr (st\<lparr>cst_requests := cst_requests st @ [q]\<rparr>)" by blast
  let ?st = "st\<lparr>cst_requests := cst_requests st @ [q]\<rparr>"
  have "sound_reply (length (cst_markers ?st)) r" "length (cst_stamps ?st) < unat n"
    using Cons.prems by simp_all
  from cst_round_sound [OF this, of ut] obtain st' where
    st': "cst_round n ut r ?st = Inr st'"
      "cst_stamps st' = take (unat n) (cst_stamps st @ map cst_trigger (trigger_hunks [r]))"
      "length (cst_markers st') = length (cst_markers st)" "cst_samples st' = cst_samples st"
    by auto
  have step: "cst_collect ctx n ut ((r # ms) @ rs) st = cst_collect ctx n ut (ms @ rs) st'"
    using q st'(1) Cons.prems(4) by (subst cst_collect.simps) simp
  show ?case
  proof (cases "ms = []")
    case True
    with Cons.prems(5) have "unat n \<le> length (cst_stamps st')"
      by (simp add: st'(2))
    then have "cst_collect ctx n ut rs st' = (st', Done rs)"
      by (subst cst_collect.simps) simp
    with step True st' show ?thesis by simp
  next
    case False
    have few: "length (cst_stamps st) + length (trigger_hunks [r]) + length (trigger_hunks (butlast ms)) < unat n"
      using Cons.prems(4) False by (simp add: trigger_hunks_Cons [of r "butlast ms"])
    then have s: "cst_stamps st' = cst_stamps st @ map cst_trigger (trigger_hunks [r])"
      by (simp add: st'(2))
    have "\<exists>st''. cst_collect ctx n ut (ms @ rs) st' = (st'', Done rs) \<and>
        cst_stamps st'' = take (unat n) (cst_stamps st' @ map cst_trigger (trigger_hunks ms)) \<and>
        cst_samples st'' = cst_samples st'"
      using Cons.prems(1,2,5) False few s st'(3)
      by (intro Cons.IH) (simp_all add: cst_markers_ok_def trigger_hunks_Cons [of r ms])
    with step s st'(4) show ?thesis
      by (simp add: trigger_hunks_Cons [of r ms])
  qed
qed simp

definition fresh_buffer :: "acq_buffer \<Rightarrow> bool" where
  "fresh_buffer b \<longleftrightarrow> acquired_index b = 0 \<and> processed_index b = 0 \<and> buf_offset b = 0 \<and>
     length (buf_data b) < 2147483648"

lemma cst_samples_sound:
  assumes "fresh_buffer (cst_samples st)" "sound_reply (length (buf_data (cst_samples st))) r"
    and "\<not> reply_actual r <s wanted"
  obtains st' where "cst_samples_loop ctx wanted ut (r # rs) st = (st', Done rs)"
    "cst_stamps st' = cst_stamps st" "unprocessed (cst_samples st') = valid_elements r"
    "buf_samples_per_trigger (cst_samples st') = buf_samples_per_trigger (cst_samples st)"
proof -
  let ?b = "cst_samples st" and ?f = "reply_first r" and ?a = "reply_actual r" and ?d = "reply_data r"
  have pos: "get_raw_unaquired ?b = 0" and small: "length (buf_data ?b) < 2147483648"
    using assms(1) by (simp_all add: fresh_buffer_def get_raw_unaquired_def)
  have s: "0 \<le> sint ?f" "0 \<le> sint ?a" "sint ?f + sint ?a \<le> int (length ?d)" "length ?d \<le> length (buf_data ?b)"
    using assms(2) by (simp_all add: sound_reply_def)
  let ?b1 = "?b\<lparr>buf_data := ?d @ drop (length ?d) (buf_data ?b)\<rparr>"
  let ?b2 = "advance_acquired (ucast ?a) (advance_offset (ucast ?f) ?b1)"
  have "write_at (get_raw_unaquired ?b) ?d ?b = Inr ?b1"
    using s(4) by (simp add: pos write_at_def)
  then have t: "cst_take_samples wanted ut r (cst_ask_samples ctx wanted st) =
      Inr ((cst_ask_samples ctx wanted st)\<lparr>cst_samples := ?b1\<rparr>)"
    using assms(2) sound_reply_succeeds [OF assms(2)]
    by (simp add: cst_take_samples_def cst_ask_samples_def sound_reply_def)
  have idx: "sint (acquired_index ?b2) = sint ?a" "sint (buf_offset ?b2) = sint ?f" "processed_index ?b2 = 0"
    using assms(1) s sound_reply_small [OF assms(2) small]
    by (simp_all add: advance_acquired_def advance_offset_def fresh_buffer_def sint_ucast_small)
  have "nat (sint ?f) + nat (sint ?a) \<le> length ?d" using s by linarith
  then have "unprocessed ?b2 = valid_elements r"
    by (simp add: unprocessed_def idx valid_elements_def) (simp add: advance_acquired_def advance_offset_def)
  with t assms(3) show ?thesis
    by (intro that [of "(cst_ask_samples ctx wanted st)\<lparr>cst_samples := ?b2\<rparr>"])
      (simp_all add: Let_def cst_ask_samples_def advance_acquired_def advance_offset_def)
qed

lemma cst_collect_late:
  "list_ex reply_late rs \<Longrightarrow> cst_collect ctx n True rs st = (st', e) \<Longrightarrow>
   e \<noteq> Waiting \<and> (\<forall>rs'. e = Done rs' \<longrightarrow> list_ex reply_late rs')"
proof (induction rs arbitrary: st)
  case (Cons r rs)
  show ?case
  proof (cases "unat n \<le> length (cst_stamps st)")
    case True
    with Cons.prems show ?thesis by (subst (asm) cst_collect.simps) auto
  next
    case False
    show ?thesis
    proof (cases "cst_ask ctx n st")
      case Inl
      with False Cons.prems(2) show ?thesis by (subst (asm) cst_collect.simps) auto
    next
      case (Inr st1)
      show ?thesis
      proof (cases "cst_round n True r st1")
        case (Inl x)
        with False Inr Cons.prems(2) show ?thesis by (subst (asm) cst_collect.simps) auto
      next
        case round: (Inr st2)
        then have "\<not> reply_late r" using cst_round_late [of r n st1] by auto
        with Cons.prems(1) have "list_ex reply_late rs" by simp
        moreover have "cst_collect ctx n True rs st2 = (st', e)"
          using Cons.prems(2) False Inr round by (subst (asm) cst_collect.simps) simp
        ultimately show ?thesis by (rule Cons.IH)
      qed
    qed
  qed
qed simp

lemma cst_samples_late:
  "list_ex reply_late rs \<Longrightarrow> snd (cst_samples_loop ctx wanted True rs st) \<noteq> Waiting"
proof (induction rs arbitrary: st)
  case (Cons r rs)
  show ?case
  proof (cases "cst_take_samples wanted True r (cst_ask_samples ctx wanted st)")
    case (Inr st2)
    then have "\<not> reply_late r" by (auto simp: cst_take_samples_def bindR_Inr_iff split: if_splits)
    with Cons Inr show ?thesis by (simp add: Let_def)
  qed (simp add: Let_def)
qed simp

lemma cst_acquire_sound:
  assumes "cst_size_ok n" "get_buffer p = (k, p1)" "length (buf_data (buffer_of p1 k)) < 2147483648"
    and "list_all (sound_reply (256 * unat n + 15)) ms" "ms \<noteq> []"
    and "length (trigger_hunks (butlast ms)) < unat n" "unat n \<le> length (trigger_hunks ms)"
    and "sound_reply (length (buf_data (buffer_of p1 k))) r"
    and "check_fetch_alignment (sc_samples_channel ctx) (elements_to_acquire n (buffer_of p1 k)) = Inr ()"
    and "\<not> reply_actual r <s elements_to_acquire n (buffer_of p1 k)"
  shows "\<exists>p' reqs. cst_acquire ctx n use_timeout (ms @ r # rs) p =
      ((p', reqs), Done (\<lparr>samples_slot = k, stamps = map cst_trigger (take (unat n) (trigger_hunks ms)),
         samples_count = buf_samples_per_trigger (buffer_of p1 k)\<rparr>, rs)) \<and>
    unprocessed (buffer_of p' k) = valid_elements r"
proof -
  let ?b = "buffer_of p1 k" and ?st = "new_cst_run n (buffer_of p1 k)"
  note pos = get_buffer_positions [OF assms(2)]
  have ok: "cst_markers_ok n ?st" using assms(1) by (rule cst_markers_ok_new)
  then have "int (length (cst_markers ?st)) = 256 * int (unat n) + 15"
    by (simp add: cst_markers_ok_def)
  then have len: "length (cst_markers ?st) = 256 * unat n + 15" by linarith
  have new: "cst_stamps ?st = []" "cst_samples ?st = ?b" by (simp_all add: new_cst_run_def)
  from cst_collect_sound [OF assms(1) ok _ assms(5), where ut = use_timeout and rs = "r # rs" and ctx = ctx]
    assms(4,6,7) len new
  obtain st where st: "cst_collect ctx n use_timeout (ms @ r # rs) ?st = (st, Done (r # rs))"
      "cst_stamps st = map cst_trigger (take (unat n) (trigger_hunks ms))" "cst_samples st = ?b"
    by (auto simp: take_map)
  have "fresh_buffer (cst_samples st)"
    using pos(1-3) assms(3) by (simp add: st(3) fresh_buffer_def)
  from cst_samples_sound [OF this, of r "elements_to_acquire n ?b" ctx use_timeout rs] assms(8,10) st(3)
  obtain st' where st': "cst_samples_loop ctx (elements_to_acquire n ?b) use_timeout (r # rs) st = (st', Done rs)"
      "cst_stamps st' = cst_stamps st" "unprocessed (cst_samples st') = valid_elements r"
      "buf_samples_per_trigger (cst_samples st') = buf_samples_per_trigger ?b"
    by metis
  have "cst_acquire_run ctx n use_timeout (ms @ r # rs) ?b = (st', Done rs)"
    using st st'(1) assms(9) by (simp add: cst_acquire_run_def cst_fetch_samples_def)
  moreover have "buffer_of (set_buffer k (cst_samples st') p1) k = cst_samples st'"
    using pos(4) by (simp add: buffer_of_def set_buffer_def)
  ultimately show ?thesis
    using assms(2) st st' by (simp add: cst_acquire_def)
qed

section \<open>Properties\<close>

text \<open>C19: on a sound driver the call returns, and the triggers it returns are the first ones of the
  markers stream, decoded, whatever hunks lie between them; the samples it hands over are those of the
  samples fetch.\<close>

theorem cst_acquire_collects_triggers:
  assumes "cst_size_ok n" "get_buffer p = (k, p1)" "length (buf_data (buffer_of p1 k)) < 2147483648"
    and "list_all (sound_reply (256 * unat n + 15)) ms" "ms \<noteq> []"
    and "length (trigger_hunks (butlast ms)) < unat n" "unat n \<le> length (trigger_hunks ms)"
    and "sound_reply (length (buf_data (buffer_of p1 k))) r"
    and "check_fetch_alignment (sc_samples_channel ctx) (elements_to_acquire n (buffer_of p1 k)) = Inr ()"
    and "\<not> reply_actual r <s elements_to_acquire n (buffer_of p1 k)"
  shows "\<exists>p' reqs. cst_acquire ctx n use_timeout (ms @ r # rs) p =
      ((p', reqs), Done (\<lparr>samples_slot = k, stamps = map cst_trigger (take (unat n) (trigger_hunks ms)),
         samples_count = buf_samples_per_trigger (buffer_of p1 k)\<rparr>, rs)) \<and>
    unprocessed (buffer_of p' k) = valid_elements r"
  using assms by (rule cst_acquire_sound)

definition cst_example_markers :: fetch_reply where
  "cst_example_markers = \<lparr>reply_status = 0, reply_code = 0, reply_message = '''',
     reply_data = replicate 16 4 @ [0x101, 0x2ff, 3] @ replicate 13 0, reply_available = 32,
     reply_actual = 32, reply_first = 0, reply_late = False\<rparr>"

definition cst_example_samples :: fetch_reply where
  "cst_example_samples = \<lparr>reply_status = 0, reply_code = 0, reply_message = '''',
     reply_data = map of_nat [0 ..< 17], reply_available = 16, reply_actual = 16, reply_first = 1,
     reply_late = False\<rparr>"

theorem cst_acquire_collects_triggers_witness:
  "\<exists>p' reqs. cst_acquire (new_streaming_context ''Channel1'') 1 True ([cst_example_markers] @ cst_example_samples # [])
      (new_pool 1 32 1 1) =
      ((p', reqs), Done (\<lparr>samples_slot = 0, stamps = map cst_trigger (take (unat (1 :: u64)) (trigger_hunks [cst_example_markers])),
         samples_count = buf_samples_per_trigger (buffer_of (snd (get_buffer (new_pool 1 32 1 1))) 0)\<rparr>, [])) \<and>
    unprocessed (buffer_of p' 0) = valid_elements cst_example_samples"
proof (rule cst_acquire_collects_triggers)
  have len: "length (buf_data (buffer_of (snd (get_buffer (new_pool 1 32 1 1))) 0)) = 32"
    and wanted: "elements_to_acquire 1 (buffer_of (snd (get_buffer (new_pool 1 32 1 1))) 0) = 16"
    by code_simp+
  show "get_buffer (new_pool 1 32 1 1) = (0, snd (get_buffer (new_pool 1 32 1 1)))"
    by (simp add: prod_eq_iff) code_simp
  show "length (buf_data (buffer_of (snd (get_buffer (new_pool 1 32 1 1))) 0)) < 2147483648"
    by (simp add: len)
  show "sound_reply (length (buf_data (buffer_of (snd (get_buffer (new_pool 1 32 1 1))) 0))) cst_example_samples"
    unfolding len by code_simp
  show "check_fetch_alignment (sc_samples_channel (new_streaming_context ''Channel1''))
      (elements_to_acquire 1 (buffer_of (snd (get_buffer (new_pool 1 32 1 1))) 0)) = Inr ()"
    "\<not> reply_actual cst_example_samples <s elements_to_acquire 1 (buffer_of (snd (get_buffer (new_pool 1 32 1 1))) 0)"
    unfolding wanted by code_simp+
  show "list_all (sound_reply (256 * unat (1 :: u64) + 15)) [cst_example_markers]" by code_simp
  show "length (trigger_hunks (butlast [cst_example_markers])) < unat (1 :: u64)" by code_simp
  show "unat (1 :: u64) \<le> length (trigger_hunks [cst_example_markers])" by code_simp
  show "cst_size_ok 1" by (simp add: cst_size_ok_def)
qed simp


text \<open>C24: every request is a positive multiple of sixteen elements, and one of the markers stream leaves
  the driver fifteen elements of the vector beyond it, whatever the driver says is available.\<close>

theorem cst_requests_fit:
  assumes "0 < uint n" "uint n < 1099511627776" "cst_acquire (new_streaming_context c) n use_timeout rs p = ((p', reqs), e)"
  shows "list_all (cst_good_request (new_streaming_context c)) reqs"
proof -
  let ?ctx = "new_streaming_context c"
  have size: "cst_size_ok n" and ne: "sc_samples_channel ?ctx \<noteq> sc_markers_channel ?ctx"
    using assms(1,2) by (simp_all add: cst_size_ok_def new_streaming_context_def)
  obtain k p1 where g: "get_buffer p = (k, p1)" by (cases "get_buffer p")
  have "reqs = cst_requests (fst (cst_acquire_run ?ctx n use_timeout rs (buffer_of p1 k)))"
    using assms(3) by (auto simp: cst_acquire_def g Let_def split: prod.splits ending.splits)
  with cst_acquire_run_requests [OF size ne] show ?thesis by simp
qed

theorem cst_requests_fit_witness:
  "list_all (cst_good_request (new_streaming_context ''Channel1''))
    (snd (fst (cst_acquire (new_streaming_context ''Channel1'') 1 True [cst_example_markers, cst_example_samples]
      (new_pool 1 32 1 1))))"
proof -
  let ?r = "cst_acquire (new_streaming_context ''Channel1'') 1 True [cst_example_markers, cst_example_samples]
      (new_pool 1 32 1 1)"
  have "?r = ((fst (fst ?r), snd (fst ?r)), snd ?r)" by simp
  from cst_requests_fit [OF _ _ this] show ?thesis by simp
qed

text \<open>C25: a call with a timeout does not outlast its deadline by more than one fetch: once a fetch has come
  back after the deadline, the call has returned or thrown.\<close>

theorem cst_acquire_ends_at_deadline:
  assumes "list_ex reply_late rs"
  shows "snd (cst_acquire ctx n True rs p) \<noteq> Waiting"
proof -
  have run: "snd (cst_acquire_run ctx n True rs b) \<noteq> Waiting" for b
  proof -
    obtain st e where c: "cst_collect ctx n True rs (new_cst_run n b) = (st, e)" by fastforce
    from cst_collect_late [OF assms c] cst_samples_late [of _ ctx _ st] c show ?thesis
      by (cases e) (auto simp: cst_acquire_run_def cst_fetch_samples_def Let_def split: sum.split)
  qed
  obtain k p1 where g: "get_buffer p = (k, p1)" by fastforce
  obtain st e where "cst_acquire_run ctx n True rs (buffer_of p1 k) = (st, e)" by fastforce
  with run [of "buffer_of p1 k"] show ?thesis
    by (cases e) (simp_all add: cst_acquire_def g Let_def)
qed

theorem cst_acquire_ends_at_deadline_witness:
  "snd (cst_acquire (new_streaming_context ''Channel1'') 1 True
     [cst_example_markers\<lparr>reply_data := [], reply_actual := 0\<rparr>,
      cst_example_markers\<lparr>reply_data := [], reply_actual := 0, reply_late := True\<rparr>]
     (new_pool 1 32 1 1)) \<noteq> Waiting"
  by (rule cst_acquire_ends_at_deadline) simp

end
