(* ===== verification/Timing.thy ===== *)
theory Timing
  imports Complex_Main "HOL-Library.Multiset" Digitizer Cst_Acquire
begin

text \<open>
  \<open>TofTimingInformation\<close>: the pusher period measured with a short acquisition, and the
  record size that leaves room for the post-trigger delay and the rearm time. A \<open>double\<close>
  is the rational number it stands for; an operation rounds its exact result with \<open>rnd\<close>,
  a parameter, and a division by zero is decided where the code compares its result. The card is the
  calls made so far and the replies its fetches still have to give.
\<close>

section \<open>Floating point\<close>

type_synonym rounding = "rat \<Rightarrow> rat"

definition double_of :: "rounding \<Rightarrow> u64 \<Rightarrow> rat" where
  "double_of rnd n = rnd (of_nat (unat n))"

text \<open>\<open>uint64_t(d)\<close> truncates; a value it cannot hold is undefined.\<close>

definition to_u64 :: "rat \<Rightarrow> u64 result" where
  "to_u64 d =
     (if - 1 < d \<and> d < 18446744073709551616 then Inr (word_of_int (if d < 0 then 0 else \<lfloor>d\<rfloor>))
      else Inl (Undefined ''conversion to uint64_t''))"

section \<open>The card\<close>

record card_state =
  card_calls :: "rat calls"
  card_replies :: "fetch_reply list"

type_synonym 'a card_op = "card_state \<Rightarrow> 'a ending \<times> card_state"

definition on_card :: "(rat, 'a result) card_method \<Rightarrow> 'a card_op" where
  "on_card f st =
     (case f (card_calls st) of
        (Inl e, calls) \<Rightarrow> (Threw e, st\<lparr>card_calls := calls\<rparr>)
      | (Inr a, calls) \<Rightarrow> (Done a, st\<lparr>card_calls := calls\<rparr>))"

definition card_then :: "'a card_op \<Rightarrow> ('a \<Rightarrow> 'b card_op) \<Rightarrow> 'b card_op" where
  "card_then f g st =
     (case f st of
        (Done a, st') \<Rightarrow> g a st'
      | (Threw e, st') \<Rightarrow> (Threw e, st')
      | (Waiting, st') \<Rightarrow> (Waiting, st'))"

definition card_give :: "'a result \<Rightarrow> 'a card_op" where
  "card_give r st = (case r of Inl e \<Rightarrow> Threw e | Inr a \<Rightarrow> Done a, st)"

definition start_context :: "rat driver \<Rightarrow> unit card_op" where
  "start_context drv =
     on_card (\<lambda>calls. case begin_acquisition drv calls of (err, calls') \<Rightarrow> (streaming_start err, calls'))"

definition stop_context :: "rat driver \<Rightarrow> unit card_op" where
  "stop_context drv =
     on_card (\<lambda>calls. case abort_acquisition drv calls of (err, calls') \<Rightarrow> (streaming_stop err, calls'))"

text \<open>An acquisition on the card: its fetches are calls, and each of them consumes a reply.\<close>

definition acquire_on :: "streaming_context \<Rightarrow> u64 \<Rightarrow> buffer_pool \<Rightarrow> card_state \<Rightarrow>
    buffer_pool \<times> acquired_data ending \<times> card_state" where
  "acquire_on ctx n pool st =
     (case cst_acquire ctx n True (card_replies st) pool of
        ((pool', reqs), e) \<Rightarrow>
          (pool', case e of Done (data, _) \<Rightarrow> Done data | Threw x \<Rightarrow> Threw x | Waiting \<Rightarrow> Waiting,
           \<lparr>card_calls = card_calls st @ map Stream_fetch reqs,
            card_replies = drop (length reqs) (card_replies st)\<rparr>))"

section \<open>The pusher period\<close>

text \<open>One retry, with the context stopped and started in between.\<close>

definition acquire_with_retry :: "rat driver \<Rightarrow> streaming_context \<Rightarrow> u64 \<Rightarrow> buffer_pool \<Rightarrow> acquired_data card_op" where
  "acquire_with_retry drv ctx n pool =
     card_then (start_context drv) (\<lambda>_ st.
       case acquire_on ctx n pool st of
         (pool', Threw e, st') \<Rightarrow>
           if is_std_exception e
           then card_then (stop_context drv) (\<lambda>_. card_then (start_context drv) (\<lambda>_ st''.
                  snd (acquire_on ctx n pool' st''))) st'
           else (Threw e, st')
       | (pool', r, st') \<Rightarrow> (r, st'))"

definition time_differences :: "trigger_data list \<Rightarrow> u64 list" where
  "time_differences ts =
     map (\<lambda>i. trig_timestamp (ts ! (i + 1)) - trig_timestamp (ts ! i)) [0 ..< length ts - 1]"

text \<open>\<open>nth_element\<close> puts the element that sorting would put there at \<open>middle\<close>.\<close>

definition median_difference :: "trigger_data list \<Rightarrow> u64 result" where
  "median_difference ts =
     (if length ts < 2
      then Inl (Runtime_error (nat_to_string (length ts) @
        '' trigger timestamps is not enough to measure a period; two is the minimum''))
      else let differences = time_differences ts in Inr (sort differences ! (length differences div 2)))"

text \<open>The context is stopped however the measurement ends; what stopping it throws is dropped.\<close>

definition stop_on_leaving :: "rat driver \<Rightarrow> 'a card_op \<Rightarrow> 'a card_op" where
  "stop_on_leaving drv f st =
     (case f st of
        (Waiting, st') \<Rightarrow> (Waiting, st')
      | (r, st') \<Rightarrow> (r, snd (stop_context drv st')))"

definition get_trigger_period_samples :: "rat driver \<Rightarrow> i32 \<Rightarrow> u64 card_op" where
  "get_trigger_period_samples drv triggers =
     card_then (on_card (set_record_size drv 1024)) (\<lambda>_.
     card_then (on_card (configure_cst drv ''Channel1'')) (\<lambda>channel.
     stop_on_leaving drv
       (card_then (acquire_with_retry drv (new_streaming_context channel) (scast triggers)
                     (new_pool (scast triggers) 1024 10 10)) (\<lambda>data.
        card_give (median_difference (stamps data))))))"

section \<open>The record size\<close>

definition max_sample_rate :: rat where
  "max_sample_rate = 2000000000"

definition whole_blocks :: "u64 \<Rightarrow> u64" where
  "whole_blocks n = (if n mod 32 \<noteq> 0 then n div 32 * 32 else n)"

definition get_optimal_record_size :: "rounding \<Rightarrow> u64 \<Rightarrow> rat \<Rightarrow> rat \<Rightarrow> rat \<Rightarrow> (u64 \<times> u64 \<times> u64) result" where
  "get_optimal_record_size rnd width delay_s rate rearm_s =
     bindR (to_u64 (rnd (double_of rnd width * rnd (rate / max_sample_rate)))) (\<lambda>actual.
     bindR (to_u64 (rnd (rearm_s * rate))) (\<lambda>rearm.
     bindR (to_u64 (rnd (delay_s * rate))) (\<lambda>delay.
       if actual \<le> delay + rearm
       then Inl (Runtime_error (''a pusher period of '' @ nat_to_string (unat actual) @
         '' samples leaves no record: the post-trigger delay is '' @ nat_to_string (unat delay) @
         '' samples and the trigger rearm time '' @ nat_to_string (unat rearm)))
       else Inr (delay, whole_blocks (actual - delay - rearm), rearm))))"

record timing_information =
  ti_samples_per_trigger :: u64
  ti_record_size :: u64
  ti_post_trigger_delay_samples :: u64
  ti_trigger_rearm_samples :: u64
  ti_post_trigger_delay_seconds :: rat
  ti_trigger_rearm_time_seconds :: rat

definition min_pusher_period_seconds :: "rounding \<Rightarrow> rat" where
  "min_pusher_period_seconds rnd = rnd (1 / 1000000)"

definition max_pusher_period_seconds :: "rounding \<Rightarrow> rat" where
  "max_pusher_period_seconds rnd = rnd (1 / 10)"

text \<open>
  The period against the believable band. A rate of zero makes it infinite, which is outside, or not a
  number when the sample count is zero as well, which compares as inside.
\<close>

definition outside_band :: "rounding \<Rightarrow> u64 \<Rightarrow> rat \<Rightarrow> bool" where
  "outside_band rnd samples rate =
     (if rate = 0 then samples \<noteq> 0
      else let period = rnd (double_of rnd samples / rate) in
           period < min_pusher_period_seconds rnd \<or> max_pusher_period_seconds rnd < period)"

text \<open>\<open>band_text\<close> is the text \<open>std::format\<close> makes of the refused period.\<close>

definition create_timing_information :: "rounding \<Rightarrow> (u64 \<Rightarrow> rat \<Rightarrow> string) \<Rightarrow> rat driver \<Rightarrow> rat \<Rightarrow> rat \<Rightarrow> rat \<Rightarrow>
    timing_information card_op" where
  "create_timing_information rnd band_text drv rate delay_s rearm_s =
     card_then (get_trigger_period_samples drv 20) (\<lambda>samples.
       if outside_band rnd samples rate then card_give (Inl (Runtime_error (band_text samples rate)))
       else
         card_give (bindR (get_optimal_record_size rnd samples delay_s rate rearm_s) (\<lambda>(delay, size, rearm).
           Inr \<lparr>ti_samples_per_trigger = samples, ti_record_size = size,
                ti_post_trigger_delay_samples = delay, ti_trigger_rearm_samples = rearm,
                ti_post_trigger_delay_seconds = delay_s, ti_trigger_rearm_time_seconds = rearm_s\<rparr>)))"

section \<open>The median\<close>

lemma sorted_below_nth:
  assumes "sorted xs" "k < length xs"
  shows "length (filter (\<lambda>x. x < xs ! k) xs) \<le> k" and "length (filter (\<lambda>x. xs ! k < x) xs) < length xs - k"
proof -
  have split: "xs = take k xs @ xs ! k # drop (Suc k) xs"
    using assms(2) by (rule id_take_nth_drop)
  have "\<not> x < xs ! k" if "x \<in> set (xs ! k # drop (Suc k) xs)" for x
    using that assms by (auto simp: in_set_conv_nth intro!: sorted_nth_mono simp: not_less)
  then have "filter (\<lambda>x. x < xs ! k) (xs ! k # drop (Suc k) xs) = []"
    by (subst filter_empty_conv) blast
  then have "filter (\<lambda>x. x < xs ! k) xs = filter (\<lambda>x. x < xs ! k) (take k xs)"
    by (subst split) (simp only: filter_append append_Nil2)
  then show "length (filter (\<lambda>x. x < xs ! k) xs) \<le> k"
    using length_filter_le [of _ "take k xs"] by (metis le_trans length_take min.cobounded2)
  have "\<not> xs ! k < x" if "x \<in> set (take k xs)" for x
    using that assms by (auto simp: in_set_conv_nth not_less intro!: sorted_nth_mono)
  then have "filter (\<lambda>x. xs ! k < x) (take k xs) = []"
    by (subst filter_empty_conv) blast
  then have "filter (\<lambda>x. xs ! k < x) xs = filter (\<lambda>x. xs ! k < x) (drop (Suc k) xs)"
    by (subst split) (simp only: filter_append append_Nil filter.simps less_irrefl if_False)
  then show "length (filter (\<lambda>x. xs ! k < x) xs) < length xs - k"
    using length_filter_le [of "\<lambda>x. xs ! k < x" "drop (Suc k) xs"] assms(2) by simp
qed

lemma length_filter_sort: "length (filter P (sort xs)) = length (filter P xs)"
  by (metis mset_filter mset_sort size_mset)

lemma filter_length_mono: "(\<And>x. P x \<Longrightarrow> Q x) \<Longrightarrow> length (filter P xs) \<le> length (filter Q xs)"
  by (induction xs) (auto intro: le_SucI)

lemma median_of_majority:
  assumes "ds \<noteq> []" "length ds < 2 * length (filter (\<lambda>d. lo \<le> d \<and> d \<le> hi) ds)"
  shows "lo \<le> sort ds ! (length ds div 2)" "sort ds ! (length ds div 2) \<le> hi"
proof -
  let ?k = "length ds div 2" and ?m = "sort ds ! (length ds div 2)" and ?in = "\<lambda>d. lo \<le> d \<and> d \<le> hi"
  have k: "?k < length (sort ds)" using assms(1) by simp
  have below: "length (filter (\<lambda>d. d < ?m) ds) \<le> ?k" and above: "length (filter (\<lambda>d. ?m < d) ds) < length ds - ?k"
    using sorted_below_nth [OF sorted_sort k] by (simp_all add: length_filter_sort)
  show "lo \<le> ?m"
  proof (rule ccontr)
    assume "\<not> lo \<le> ?m"
    then have "length (filter ?in ds) \<le> length (filter (\<lambda>d. ?m < d) ds)"
      by (intro filter_length_mono) auto
    with above assms(2) show False by linarith
  qed
  show "?m \<le> hi"
  proof (rule ccontr)
    assume "\<not> ?m \<le> hi"
    then have "length (filter ?in ds) \<le> length (filter (\<lambda>d. d < ?m) ds)"
      by (intro filter_length_mono) auto
    with below assms(2) show False by linarith
  qed
qed

section \<open>Which calls are made\<close>

definition makes :: "'r vi_call set \<Rightarrow> ('r, 'a) card_method \<Rightarrow> bool" where
  "makes C f \<longleftrightarrow> (\<forall>calls. \<exists>cs. snd (f calls) = calls @ cs \<and> set cs \<subseteq> C)"

lemma makes_do [intro!]: "c \<in> C \<Longrightarrow> makes C (check_call (vi_do drv c))"
  by (simp add: makes_def check_call_def vi_do_def)

lemma makes_give [intro!]: "makes C (give a)"
  by (simp add: makes_def give_def)

lemma makes_then [intro!]:
  assumes "makes C f" "\<And>a. makes C (g a)"
  shows "makes C (then_do f g)"
  unfolding makes_def
proof
  fix calls
  from assms(1) obtain cs where cs: "snd (f calls) = calls @ cs" "set cs \<subseteq> C" unfolding makes_def by blast
  show "\<exists>cs. snd (then_do f g calls) = calls @ cs \<and> set cs \<subseteq> C"
  proof (cases "f calls")
    case (Pair r calls')
    then have calls': "calls' = calls @ cs" using cs by simp
    show ?thesis
    proof (cases r)
      case (Inl e)
      with Pair cs show ?thesis by (auto simp: then_do_def)
    next
      case (Inr a)
      from assms(2) [of a] obtain ds where "snd (g a calls') = calls' @ ds" "set ds \<subseteq> C"
        unfolding makes_def by blast
      with Pair Inr cs calls' show ?thesis by (auto simp: then_do_def intro!: exI [of _ "cs @ ds"])
    qed
  qed
qed

lemma makes_all [intro!]: "list_all (\<lambda>f. makes C (check_call f)) fs \<Longrightarrow> makes C (check_all fs)"
  by (induction fs) auto

lemma makes_calibrate:
  "Get_bool ''AQMD3_ATTR_CALIBRATION_IS_REQUIRED'' \<in> C \<Longrightarrow> Self_calibrate \<in> C \<Longrightarrow> makes C (calibrate_if_required drv)"
  unfolding calibrate_if_required_def
proof (rule makes_then)
  assume "Get_bool ''AQMD3_ATTR_CALIBRATION_IS_REQUIRED'' \<in> C"
  then show "makes C (check_value (get_calibration_required drv))"
    by (simp add: makes_def check_value_def get_calibration_required_def Let_def)
qed (auto simp: self_calibrate_def)

lemma set_record_size_makes: "makes (- {Initiate_acquisition}) (set_record_size drv n)"
  unfolding set_record_size_def by (auto simp: digitizer_methods)

lemma configure_cst_makes: "makes (- {Initiate_acquisition}) (configure_cst drv channel)"
  unfolding configure_cst_def by (auto simp: digitizer_methods intro!: makes_calibrate)

lemma on_card_makes:
  assumes "makes C f" "on_card f st = (e, st')"
  shows "\<exists>cs. card_calls st' = card_calls st @ cs \<and> set cs \<subseteq> C"
proof -
  from assms(1) obtain cs where "snd (f (card_calls st)) = card_calls st @ cs" "set cs \<subseteq> C"
    unfolding makes_def by blast
  with assms(2) show ?thesis by (auto simp: on_card_def split: prod.splits sum.splits)
qed

lemma stop_context_calls: "card_calls (snd (stop_context drv st)) = card_calls st @ [Abort]"
  by (auto simp: stop_context_def on_card_def abort_acquisition_def vi_do_def split: prod.split sum.split)

lemma stop_on_leaving_last:
  "stop_on_leaving drv f st = (e, st') \<Longrightarrow> e \<noteq> Waiting \<Longrightarrow> \<exists>calls. card_calls st' = calls @ [Abort]"
  by (cases "f st") (auto simp: stop_on_leaving_def stop_context_calls split: ending.splits)

lemma card_thenE:
  assumes "card_then f g st = (e, st')"
  obtains (ok) a st1 where "f st = (Done a, st1)" "g a st1 = (e, st')"
    | (threw) x where "f st = (Threw x, st')" "e = Threw x"
    | (waiting) "f st = (Waiting, st')" "e = Waiting"
  using assms by (auto simp: card_then_def split: prod.splits ending.splits)

section \<open>Properties\<close>

text \<open>C29: the measured period is the median of the differences of consecutive timestamps, so when more than
  half of them lie in an interval the period does, whatever the others are.\<close>

theorem period_rides_out_a_minority:
  assumes "median_difference ts = Inr period"
    and "length (time_differences ts) < 2 * length (filter (\<lambda>d. lo \<le> d \<and> d \<le> hi) (time_differences ts))"
  shows "lo \<le> period \<and> period \<le> hi"
proof -
  have ne: "time_differences ts \<noteq> []" and p: "period = sort (time_differences ts) ! (length (time_differences ts) div 2)"
    using assms(1) by (auto simp: median_difference_def Let_def time_differences_def split: if_splits)
  from median_of_majority [OF ne assms(2)] show ?thesis unfolding p by blast
qed

theorem period_rides_out_a_minority_witness:
  "\<exists>period. median_difference (map (\<lambda>t. new_trigger_data t 0 0) [0, 100, 201, 5, 107]) = Inr period \<and>
    100 \<le> period \<and> period \<le> 102"
proof -
  let ?ts = "map (\<lambda>t. new_trigger_data t 0 0) [0, 100, 201, 5, 107]"
  have "case median_difference ?ts of Inr period \<Rightarrow> True | Inl e \<Rightarrow> False"
    and "length (time_differences ?ts) < 2 * length (filter (\<lambda>d. 100 \<le> d \<and> d \<le> 102) (time_differences ?ts))"
    by code_simp+
  then obtain period where "median_difference ?ts = Inr period" by (auto split: sum.splits)
  with period_rides_out_a_minority [OF this, of 100 102]
    \<open>length (time_differences ?ts) < 2 * length (filter (\<lambda>d. 100 \<le> d \<and> d \<le> 102) (time_differences ?ts))\<close>
  show ?thesis by blast
qed

text \<open>C22: however the measurement of the period leaves, returning or throwing, a card that was told to start
  acquiring has been told to stop last.\<close>

theorem measurement_stops_the_card:
  assumes "get_trigger_period_samples drv n st = (e, st')" "e \<noteq> Waiting"
    and "card_calls st' = card_calls st @ cs" "Initiate_acquisition \<in> set cs"
  shows "last cs = Abort"
proof -
  have "\<exists>calls. card_calls st' = calls @ [Abort]"
    using assms(1)
    unfolding get_trigger_period_samples_def
  proof (cases rule: card_thenE)
    case size: (ok a st1)
    from on_card_makes [OF set_record_size_makes size(1)] obtain cs1 where
      cs1: "card_calls st1 = card_calls st @ cs1" "set cs1 \<subseteq> - {Initiate_acquisition}" by blast
    from size(2) show ?thesis
    proof (cases rule: card_thenE)
      case (ok channel st2)
      with assms(2) show ?thesis by (blast intro: stop_on_leaving_last)
    next
      case (threw x)
      from on_card_makes [OF configure_cst_makes threw(1)] obtain cs2 where
        "card_calls st' = card_calls st1 @ cs2" "set cs2 \<subseteq> - {Initiate_acquisition}" by blast
      with cs1 assms(3,4) show ?thesis by auto
    qed (use assms(2) in simp)
  next
    case (threw x)
    from on_card_makes [OF set_record_size_makes threw(1)] assms(3,4) show ?thesis by auto
  qed (use assms(2) in simp)
  then obtain calls where "card_calls st @ cs = calls @ [Abort]" using assms(3) by auto
  moreover have "cs \<noteq> []" using assms(4) by auto
  ultimately show ?thesis by (metis last_appendR last_snoc)
qed

definition always_ok :: "rat driver" where
  "always_ok calls c =
     \<lparr>vi_status = 0, vi_code = 0, vi_message = '''', vi_flag = False, vi_result = '''', vi_text = ''''\<rparr>"

theorem measurement_stops_the_card_witness:
  "last [Set_attribute '''' ''AQMD3_ATTR_RECORD_SIZE'' (Vi_int 1024),
     Set_attribute '''' ''AQMD3_ATTR_STREAMING_MODE'' (Vi_named ''AQMD3_VAL_STREAMING_MODE_TRIGGERED''),
     Set_attribute '''' ''AQMD3_ATTR_ACQUISITION_MODE'' (Vi_named ''AQMD3_VAL_ACQUISITION_MODE_NORMAL''),
     Set_attribute '''' ''AQMD3_ATTR_ACQUISITION_DATA_REDUCTION_MODE''
       (Vi_named ''AQMD3_VAL_ACQUISITION_DATA_REDUCTION_MODE_DISABLED''),
     Apply_setup, Get_bool ''AQMD3_ATTR_CALIBRATION_IS_REQUIRED'', Initiate_acquisition, Abort,
     Initiate_acquisition, Abort :: rat vi_call] = Abort"
proof -
  let ?st = "\<lparr>card_calls = [], card_replies = []\<rparr>"
  let ?r = "get_trigger_period_samples always_ok 0 ?st"
  have eq: "?r = (fst ?r, snd ?r)" by simp
  have threw: "fst ?r \<noteq> Waiting" by code_simp
  have calls: "card_calls (snd ?r) = card_calls ?st @
     [Set_attribute '''' ''AQMD3_ATTR_RECORD_SIZE'' (Vi_int 1024),
      Set_attribute '''' ''AQMD3_ATTR_STREAMING_MODE'' (Vi_named ''AQMD3_VAL_STREAMING_MODE_TRIGGERED''),
      Set_attribute '''' ''AQMD3_ATTR_ACQUISITION_MODE'' (Vi_named ''AQMD3_VAL_ACQUISITION_MODE_NORMAL''),
      Set_attribute '''' ''AQMD3_ATTR_ACQUISITION_DATA_REDUCTION_MODE''
        (Vi_named ''AQMD3_VAL_ACQUISITION_DATA_REDUCTION_MODE_DISABLED''),
      Apply_setup, Get_bool ''AQMD3_ATTR_CALIBRATION_IS_REQUIRED'', Initiate_acquisition, Abort,
      Initiate_acquisition, Abort]"
    by code_simp
  show ?thesis by (rule measurement_stops_the_card [OF eq threw calls]) simp
qed

lemma unat_whole_blocks: "unat (whole_blocks n) = unat n div 32 * 32"
proof -
  have "unat n div 32 * 32 \<le> unat n" by simp
  moreover have "unat n < 18446744073709551616" using unsigned_less [of n] by simp
  ultimately have "unat n div 32 * 32 < 18446744073709551616" by linarith
  then have d: "unat (n div 32 * 32) = unat n div 32 * 32" by (simp add: unat_word_ariths unat_div_distrib)
  show ?thesis
  proof (cases "n mod 32 = 0")
    case True
    then have "unat (n mod 32) = 0" by simp
    then have "unat n mod 32 = 0" unfolding unat_mod_distrib by simp
    with True show ?thesis by (simp add: whole_blocks_def minus_mod_eq_div_mult [symmetric])
  qed (use d in \<open>simp add: whole_blocks_def\<close>)
qed

lemma record_size_fits:
  assumes "get_optimal_record_size rnd width delay_s rate rearm_s = Inr (delay, n, rearm)"
    and "unat delay + unat rearm < 18446744073709551616"
  shows "unat n mod 32 = 0" and "\<exists>actual. to_u64 (rnd (double_of rnd width * rnd (rate / max_sample_rate))) = Inr actual \<and>
      unat delay + unat n + unat rearm \<le> unat actual \<and> unat actual < unat delay + unat n + unat rearm + 32"
proof -
  from assms(1) obtain actual where
    a: "to_u64 (rnd (double_of rnd width * rnd (rate / max_sample_rate))) = Inr actual"
      "\<not> actual \<le> delay + rearm" "n = whole_blocks (actual - delay - rearm)"
    by (auto simp: get_optimal_record_size_def bindR_Inr_iff Let_def split: if_splits)
  let ?n = "actual - delay - rearm"
  have sum: "unat (delay + rearm) = unat delay + unat rearm"
    using assms(2) by (simp add: unat_word_ariths)
  then have gt: "unat delay + unat rearm < unat actual"
    using a(2) by (simp add: word_le_nat_alt)
  have d: "unat (actual - delay) = unat actual - unat delay"
    using gt by (simp add: unat_sub word_le_nat_alt)
  then have m: "unat ?n = unat actual - unat delay - unat rearm"
    using gt by (subst unat_sub) (simp_all add: word_le_nat_alt)
  have r: "unat n = unat ?n div 32 * 32"
    unfolding a(3) by (rule unat_whole_blocks)
  then show "unat n mod 32 = 0" by simp
  have "unat ?n = unat ?n div 32 * 32 + unat ?n mod 32" by simp
  moreover have "unat ?n mod 32 < 32" by simp
  ultimately have "unat n \<le> unat ?n" "unat ?n < unat n + 32" using r by linarith+
  with a(1) m gt show "\<exists>actual. to_u64 (rnd (double_of rnd width * rnd (rate / max_sample_rate))) = Inr actual \<and>
      unat delay + unat n + unat rearm \<le> unat actual \<and> unat actual < unat delay + unat n + unat rearm + 32"
    by (intro exI [of _ actual]) auto
qed

text \<open>C30: timing information is only made of a period inside the believable band, and its record is a multiple
  of 32 samples that, with the post-trigger delay and the rearm time, takes up the period but for less than
  32 samples.\<close>

theorem timing_information_fits:
  assumes "create_timing_information rnd band_text drv rate delay_s rearm_s st = (Done ti, st')"
    and "unat (ti_post_trigger_delay_samples ti) + unat (ti_trigger_rearm_samples ti) < 18446744073709551616"
  shows "\<not> outside_band rnd (ti_samples_per_trigger ti) rate \<and> unat (ti_record_size ti) mod 32 = 0 \<and>
    (\<exists>actual. to_u64 (rnd (double_of rnd (ti_samples_per_trigger ti) * rnd (rate / max_sample_rate))) = Inr actual \<and>
       unat (ti_post_trigger_delay_samples ti) + unat (ti_record_size ti) + unat (ti_trigger_rearm_samples ti) \<le> unat actual \<and>
       unat actual < unat (ti_post_trigger_delay_samples ti) + unat (ti_record_size ti) +
         unat (ti_trigger_rearm_samples ti) + 32)"
proof -
  from assms(1) obtain samples where s: "\<not> outside_band rnd samples rate" "ti_samples_per_trigger ti = samples"
      "get_optimal_record_size rnd samples delay_s rate rearm_s =
        Inr (ti_post_trigger_delay_samples ti, ti_record_size ti, ti_trigger_rearm_samples ti)"
    unfolding create_timing_information_def
    by (cases rule: card_thenE) (auto simp: card_give_def bindR_Inr_iff split: if_splits sum.splits)
  from record_size_fits [OF s(3) assms(2)] s(1,2) show ?thesis by blast
qed

definition timing_markers :: fetch_reply where
  "timing_markers = \<lparr>reply_status = 0, reply_code = 0, reply_message = '''',
     reply_data = concat (map (\<lambda>i. [1, i * 25600000, 0] @ replicate 13 0)
       [0, 1, 2, 3, 4, 5, 6, 7, 8, 9, 10, 11, 12, 13, 14, 15, 16, 17, 18, 19]),
     reply_available = 320, reply_actual = 320, reply_first = 0, reply_late = False\<rparr>"

definition timing_samples :: fetch_reply where
  "timing_samples = \<lparr>reply_status = 0, reply_code = 0, reply_message = '''',
     reply_data = replicate 10240 0, reply_available = 10240, reply_actual = 10240, reply_first = 0,
     reply_late = False\<rparr>"

definition timing_card :: card_state where
  "timing_card = \<lparr>card_calls = [], card_replies = [timing_markers, timing_samples]\<rparr>"

lemma always_ok_call [simp]: "check_call (vi_do always_ok c) calls = (Inr (), calls @ [c])"
  by (simp add: check_call_def vi_do_def always_ok_def vi_error_def check_error_def check_and_throw_on_error_def)

lemma always_ok_calibrate [simp]:
  "calibrate_if_required always_ok calls = (Inr (), calls @ [Get_bool ''AQMD3_ATTR_CALIBRATION_IS_REQUIRED''])"
  by (simp add: calibrate_if_required_def then_do_def check_value_def get_calibration_required_def Let_def give_def
      always_ok_def vi_error_def check_error_def check_and_throw_value_def)

lemma measured_period:
  assumes "cst_acquire (new_streaming_context ''Channel1'') 20 True (card_replies st) (new_pool 20 1024 10 10) =
      ((p', reqs), Done (data, rs))" "median_difference (stamps data) = Inr p"
  shows "fst (get_trigger_period_samples always_ok 20 st) = Done p"
  using assms
  by (auto simp: get_trigger_period_samples_def card_then_def on_card_def set_record_size_def configure_cst_def
      digitizer_methods then_do_def give_def stop_on_leaving_def acquire_with_retry_def start_context_def
      streaming_start_def vi_do_def vi_error_def always_ok_def check_error_def check_and_throw_on_error_def
      acquire_on_def card_give_def split: prod.splits)

lemma pool_first_buffer:
  assumes "0 < unat i"
  obtains p where "get_buffer (new_pool m s i x) = (0, p)" "buffer_of p 0 = new_buffer m s"
proof -
  obtain k where k: "unat i = Suc k" using assms gr0_implies_Suc by blast
  have "reset_buffer (new_buffer m s) = new_buffer m s"
    by (simp add: reset_buffer_def new_buffer_def)
  then show ?thesis
    by (intro that [of "snd (get_buffer (new_pool m s i x))"])
      (simp_all add: get_buffer_def new_pool_def Let_def k probe_def use_count_def buffer_of_def)
qed

lemma timing_replies_period:
  assumes "card_replies st = [timing_markers, timing_samples]"
  shows "fst (get_trigger_period_samples always_ok 20 st) = Done 100000"
proof -
  obtain p where p: "get_buffer (new_pool 20 1024 10 10) = (0, p)" "buffer_of p 0 = new_buffer 20 1024"
    using pool_first_buffer [of 10 20 1024 10] by auto
  have len: "length (buf_data (buffer_of p 0)) = 20480" "buf_samples_per_trigger (buffer_of p 0) = 1024"
    by (simp_all add: p(2) new_buffer_def)
  have wanted: "elements_to_acquire 20 (buffer_of p 0) = 10240"
    by (simp add: elements_to_acquire_def len(2))
  have "\<exists>p' reqs. cst_acquire (new_streaming_context ''Channel1'') 20 True ([timing_markers] @ timing_samples # [])
      (new_pool 20 1024 10 10) =
      ((p', reqs), Done (\<lparr>samples_slot = 0, stamps = map cst_trigger (take (unat (20 :: u64)) (trigger_hunks [timing_markers])),
         samples_count = buf_samples_per_trigger (buffer_of p 0)\<rparr>, [])) \<and>
      unprocessed (buffer_of p' 0) = valid_elements timing_samples"
  proof (rule cst_acquire_sound [OF _ p(1)])
    show "cst_size_ok 20" by (simp add: cst_size_ok_def)
    show "length (buf_data (buffer_of p 0)) < 2147483648" by (simp add: len)
    show "list_all (sound_reply (256 * unat (20 :: u64) + 15)) [timing_markers]"
      by (simp add: sound_reply_def timing_markers_def)
    show "length (trigger_hunks (butlast [timing_markers])) < unat (20 :: u64)" by (simp add: trigger_hunks_def)
    show "unat (20 :: u64) \<le> length (trigger_hunks [timing_markers])" by code_simp
    show "sound_reply (length (buf_data (buffer_of p 0))) timing_samples"
      unfolding len by (simp add: sound_reply_def timing_samples_def)
    show "check_fetch_alignment (sc_samples_channel (new_streaming_context ''Channel1''))
        (elements_to_acquire 20 (buffer_of p 0)) = Inr ()"
      unfolding wanted by (simp add: check_fetch_alignment_def)
    show "\<not> reply_actual timing_samples <s elements_to_acquire 20 (buffer_of p 0)"
      unfolding wanted by (simp add: timing_samples_def)
  qed simp
  then obtain p' reqs data where a: "cst_acquire (new_streaming_context ''Channel1'') 20 True (card_replies st)
      (new_pool 20 1024 10 10) = ((p', reqs), Done (data, []))"
      "stamps data = map cst_trigger (take (unat (20 :: u64)) (trigger_hunks [timing_markers]))"
    by (auto simp: assms)
  have "median_difference (stamps data) = Inr 100000"
    unfolding a(2) by code_simp
  with a(1) show ?thesis by (rule measured_period)
qed

lemma timing_card_period: "fst (get_trigger_period_samples always_ok 20 timing_card) = Done 100000"
  by (rule timing_replies_period) (simp add: timing_card_def)

theorem timing_information_fits_witness:
  "\<exists>ti. fst (create_timing_information id (\<lambda>_ _. '''') always_ok 1000000000 (1 / 100000) (1 / 1000000) timing_card) = Done ti \<and>
    unat (ti_record_size ti) mod 32 = 0 \<and>
    unat (ti_post_trigger_delay_samples ti) + unat (ti_record_size ti) + unat (ti_trigger_rearm_samples ti) \<le> 50000"
proof -
  let ?c = "create_timing_information id (\<lambda>_ _. '''') always_ok 1000000000 (1 / 100000) (1 / 1000000) timing_card"
  obtain st1 where g: "get_trigger_period_samples always_ok 20 timing_card = (Done 100000, st1)"
    using timing_card_period by (metis prod.collapse)
  have "\<not> outside_band id 100000 1000000000"
    by (simp add: outside_band_def double_of_def min_pusher_period_seconds_def max_pusher_period_seconds_def Let_def)
  moreover have "get_optimal_record_size id 100000 (1 / 100000) 1000000000 (1 / 1000000) = Inr (10000, 38976, 1000)"
    by (simp add: get_optimal_record_size_def double_of_def to_u64_def max_sample_rate_def Let_def whole_blocks_def)
  ultimately obtain ti where ti: "?c = (Done ti, st1)" "ti_post_trigger_delay_samples ti = 10000"
      "ti_trigger_rearm_samples ti = 1000" "ti_samples_per_trigger ti = 100000"
    by (simp add: create_timing_information_def card_then_def g card_give_def)
  have "to_u64 (id (double_of id 100000 * id (1000000000 / max_sample_rate))) = Inr 50000"
    by (simp add: double_of_def to_u64_def max_sample_rate_def)
  with timing_information_fits [OF ti(1)] ti show ?thesis by auto
qed

end
