(* ===== verification/Server.thy ===== *)
theory Server
  imports Prelude
begin

text \<open>
  \<open>Server\<close>: the command socket. A frame on the wire is its text and whether another frame of
  the same message follows. The handler of the console is a parameter: what it answers, in order, whether
  it then throws, and the state it leaves. Log lines are left out, and \<open>zmq\<close> delivers frames
  in order.
\<close>

section \<open>Frames\<close>

type_synonym frame = "string \<times> bool"

definition server_one_line :: "string \<Rightarrow> string" where
  "server_one_line text = map (\<lambda>c. if line_breaking c then CHR '' '' else c) text"

definition server_send :: "string \<Rightarrow> frame list \<Rightarrow> frame list" where
  "server_send m sent = sent @ [(m, False)]"

definition send_more :: "string \<Rightarrow> frame list \<Rightarrow> frame list" where
  "send_more m sent = sent @ [(m, True)]"

section \<open>Replies\<close>

record server =
  should_run :: bool
  router_sent :: "frame list"
  responded_to_request :: bool

definition new_server :: server where
  "new_server = \<lparr>should_run = True, router_sent = [], responded_to_request = False\<rparr>"

definition respond :: "string \<Rightarrow> string \<Rightarrow> server \<Rightarrow> server" where
  "respond client response s =
     s\<lparr>responded_to_request := True,
       router_sent := server_send response (send_more '''' (send_more client (router_sent s)))\<rparr>"

definition respond_more :: "string \<Rightarrow> string list \<Rightarrow> server \<Rightarrow> server" where
  "respond_more client responses s =
     (case responses of
        [] \<Rightarrow> s
      | [r] \<Rightarrow> respond client r s
      | _ \<Rightarrow>
          s\<lparr>responded_to_request := True,
            router_sent := server_send (last responses)
              (fold send_more (butlast responses) (send_more '''' (send_more client (router_sent s))))\<rparr>)"

section \<open>Requests\<close>

text \<open>
  A request is read from the frames that have arrived: the client, the empty frame, and frames up to one
  that no other follows. Reading past what has arrived blocks.
\<close>

fun receive_payload :: "frame list \<Rightarrow> (string list \<times> frame list) option" where
  "receive_payload [] = None"
| "receive_payload ((m, again) # fs) =
     (if again then map_option (\<lambda>(ms, rest). (m # ms, rest)) (receive_payload fs) else Some ([m], fs))"

definition receive :: "frame list \<Rightarrow> ((string \<times> string list) \<times> frame list) option" where
  "receive frames =
     (case frames of
        (client, _) # _ # fs \<Rightarrow> map_option (\<lambda>(ms, rest). ((client, ms), rest)) (receive_payload fs)
      | _ \<Rightarrow> None)"

text \<open>What a handler does with a request.\<close>

record 'w answer =
  answer_responses :: "string list list"
  answer_exception :: "exn option"
  answer_world :: 'w

type_synonym 'w handler = "string list \<Rightarrow> 'w \<Rightarrow> 'w answer"

text \<open>
  An exception is answered only when nothing has been. \<open>Undefined\<close> is no exception and leaves
  the server without a state.
\<close>

definition handle_request :: "'w handler \<Rightarrow> string \<Rightarrow> string list \<Rightarrow> 'w \<times> server \<Rightarrow> ('w \<times> server) result" where
  "handle_request handler client msgs ws =
     (let a = handler msgs (fst ws);
          s = fold (respond_more client) (answer_responses a) ((snd ws)\<lparr>responded_to_request := False\<rparr>) in
      case answer_exception a of
        None \<Rightarrow> Inr (answer_world a, s)
      | Some (Undefined e) \<Rightarrow> Inl (Undefined e)
      | Some (Other_throw e) \<Rightarrow>
          Inr (answer_world a,
            if responded_to_request s then s
            else respond client (''error unknown error handling command '' @ hd msgs) s)
      | Some e \<Rightarrow>
          Inr (answer_world a,
            if responded_to_request s then s else respond client (''error '' @ server_one_line (what e)) s))"

definition server_stop :: "server \<Rightarrow> server" where
  "server_stop s = s\<lparr>should_run := False\<rparr>"

lemma receive_payload_shorter: "receive_payload fs = Some (ms, rest) \<Longrightarrow> length rest < length fs"
  by (induction fs arbitrary: ms rest) (fastforce split: if_splits prod.splits)+

lemma receive_shorter: "receive frames = Some (r, rest) \<Longrightarrow> length rest < length frames"
  by (auto simp: receive_def dest!: receive_payload_shorter split: list.splits)

text \<open>
  The loop of \<open>run\<close> on the frames that arrive, with a request each round. A server without a
  handler drops its requests, and one that has read everything polls.
\<close>

function run_server :: "'w handler option \<Rightarrow> frame list \<Rightarrow> 'w \<times> server \<Rightarrow> ('w \<times> server) result" where
  "run_server handler frames ws =
     (if \<not> should_run (snd ws) then Inr ws
      else
        (case receive frames of
           None \<Rightarrow> Inr ws
         | Some ((client, msgs), rest) \<Rightarrow>
             (case handler of
                None \<Rightarrow> run_server handler rest ws
              | Some h \<Rightarrow> bindR (handle_request h client msgs ws) (run_server handler rest))))"
  by pat_completeness auto

termination
  by (relation "measure (\<lambda>(h, frames, ws). length frames)") (auto dest: receive_shorter)

declare run_server.simps [simp del]

definition run_begin :: "server \<Rightarrow> server" where
  "run_begin s = s\<lparr>should_run := True\<rparr>"

section \<open>The status and data topics\<close>

text \<open>\<open>Server::Publisher::send\<close>: the subject and the message, when the lock was had in time.\<close>

definition publisher_send :: "bool \<Rightarrow> string \<Rightarrow> string \<Rightarrow> frame list \<Rightarrow> bool \<times> frame list" where
  "publisher_send acquired subject message sent =
     (True, if acquired then sent @ [(subject, True), (message, False)] else sent)"

text \<open>
  One publisher for an address while somebody holds it: \<open>alive\<close> says whether the last one
  made for the address still is.
\<close>

record publisher_table =
  table_publishers :: "string \<Rightarrow> nat option"
  table_next :: nat

definition get_publisher :: "(nat \<Rightarrow> bool) \<Rightarrow> string \<Rightarrow> publisher_table \<Rightarrow> nat \<times> publisher_table" where
  "get_publisher alive address t =
     (case table_publishers t address of
        Some p \<Rightarrow>
          (if alive p then (p, t)
           else (table_next t, t\<lparr>table_publishers := (table_publishers t)(address \<mapsto> table_next t), table_next := table_next t + 1\<rparr>))
      | None \<Rightarrow>
          (table_next t, t\<lparr>table_publishers := (table_publishers t)(address \<mapsto> table_next t), table_next := table_next t + 1\<rparr>))"

section \<open>Replies on the wire\<close>

fun reply_frames :: "string \<Rightarrow> string list \<Rightarrow> frame list" where
  "reply_frames client [] = []"
| "reply_frames client rs = (client, True) # ('''', True) # map (\<lambda>r. (r, True)) (butlast rs) @ [(last rs, False)]"

lemma fold_send_more: "fold send_more ms sent = sent @ map (\<lambda>m. (m, True)) ms"
  by (induction ms arbitrary: sent) (auto simp: send_more_def)

lemma respond_more_frames:
  "router_sent (respond_more client rs s) = router_sent s @ reply_frames client rs"
  "should_run (respond_more client rs s) = should_run s"
  "responded_to_request (respond_more client rs s) = (responded_to_request s \<or> rs \<noteq> [])"
  by (cases rs; cases "tl rs";
      auto simp: respond_more_def respond_def server_send_def send_more_def fold_send_more split: list.split)+

lemma respond_is_respond_more: "respond client r s = respond_more client [r] s"
  by (simp add: respond_more_def)

lemma fold_respond_more:
  "router_sent (fold (respond_more client) rss s) = router_sent s @ concat (map (reply_frames client) rss)"
  "should_run (fold (respond_more client) rss s) = should_run s"
  "responded_to_request (fold (respond_more client) rss s) = (responded_to_request s \<or> list_ex (\<lambda>rs. rs \<noteq> []) rss)"
  by (induction rss arbitrary: s) (simp_all add: respond_more_frames)

lemma receive_payload_reply:
  "receive_payload (map (\<lambda>r. (r, True)) ms @ (m, False) # rest) = Some (ms @ [m], rest)"
  by (induction ms) auto

section \<open>Properties\<close>

text \<open>C37: a reply read with the framing of \<open>receive\<close> is the client it is for and exactly the responses,
  and what follows it on the wire is untouched.\<close>

theorem reply_roundtrip:
  assumes "rs \<noteq> []"
  shows "receive (drop (length (router_sent s)) (router_sent (respond_more client rs s)) @ rest) = Some ((client, rs), rest)"
proof -
  have "reply_frames client rs = (client, True) # ('''', True) # map (\<lambda>r. (r, True)) (butlast rs) @ [(last rs, False)]"
    using assms by (cases rs) simp_all
  then show ?thesis
    using assms by (simp add: respond_more_frames receive_def receive_payload_reply)
qed

theorem reply_roundtrip_witness:
  "receive (drop (length (router_sent new_server)) (router_sent (respond_more ''c'' [''a'', '''', ''b''] new_server)) @
     [(''x'', False)]) = Some ((''c'', [''a'', '''', ''b'']), [(''x'', False)])"
  by (rule reply_roundtrip) simp

text \<open>
  What a request is answered with when its handler throws. The replies of the handler are the responses it gave
  that are not empty.
\<close>

definition error_reply :: "exn \<Rightarrow> string list \<Rightarrow> string" where
  "error_reply e msgs =
     (case e of
        Other_throw u \<Rightarrow> ''error unknown error handling command '' @ hd msgs
      | _ \<Rightarrow> ''error '' @ server_one_line (what e))"

definition handler_replies :: "'w answer \<Rightarrow> string list list" where
  "handler_replies a = filter (\<lambda>rs. rs \<noteq> []) (answer_responses a)"

lemma reply_frames_filter:
  "concat (map (reply_frames client) (filter (\<lambda>rs. rs \<noteq> []) rss)) = concat (map (reply_frames client) rss)"
  by (induction rss) simp_all

lemma handler_replies_sent: "list_ex (\<lambda>rs. rs \<noteq> []) (answer_responses a) \<longleftrightarrow> handler_replies a \<noteq> []"
  by (simp add: handler_replies_def filter_empty_conv list_ex_iff)

text \<open>C10: the server survives every exception of a handler, of whatever type, and goes on with the state the
  handler left; only undefined behaviour, which is none, is excluded. The request of a handler that throws is
  never left unanswered and never gets an error after a reply: what goes out for it is exactly what the handler
  had replied when it threw, in order, and when that is nothing one frame with the error.\<close>

theorem throwing_handler_is_answered:
  assumes "answer_exception (handler msgs w) = Some e" "\<And>u. e \<noteq> Undefined u"
  shows "\<exists>s' replies. handle_request handler client msgs (w, s) = Inr (answer_world (handler msgs w), s') \<and>
    should_run s' = should_run s \<and>
    replies = (if handler_replies (handler msgs w) = [] then [[error_reply e msgs]] else handler_replies (handler msgs w)) \<and>
    replies \<noteq> [] \<and> [] \<notin> set replies \<and>
    router_sent s' = router_sent s @ concat (map (reply_frames client) replies)"
proof -
  let ?a = "handler msgs w" and ?s0 = "s\<lparr>responded_to_request := False\<rparr>"
  have "handle_request handler client msgs (w, s) = Inr (answer_world ?a,
      if handler_replies ?a = [] then respond client (error_reply e msgs) (fold (respond_more client) (answer_responses ?a) ?s0)
      else fold (respond_more client) (answer_responses ?a) ?s0)"
    using assms by (cases e) (auto simp: handle_request_def Let_def fold_respond_more handler_replies_sent error_reply_def)
  moreover have "concat (map (reply_frames client) (answer_responses ?a)) = concat (map (reply_frames client) (handler_replies ?a))"
    by (simp add: handler_replies_def reply_frames_filter)
  ultimately show ?thesis
    by (auto simp: fold_respond_more respond_is_respond_more respond_more_frames handler_replies_def)
qed

text \<open>A handler that replies to \<open>info\<close> and throws on every command, what it throws depending on it.\<close>

definition failing_handler :: "nat handler" where
  "failing_handler msgs w =
     \<lparr>answer_responses = (if msgs = [''info''] then [[''model'']] else []),
      answer_exception = Some (if msgs = [''init''] then Other_throw ''int'' else Runtime_error (''no'' @ [CHR 0x0A] @ ''card'')),
      answer_world = w + 1\<rparr>"

theorem throwing_handler_is_answered_witness:
  "(\<exists>s'. handle_request failing_handler ''c'' [''tof width''] (0, new_server) = Inr (1, s') \<and>
     router_sent s' = [(''c'', True), ('''', True), (''error no card'', False)]) \<and>
   (\<exists>s'. handle_request failing_handler ''c'' [''init''] (0, new_server) = Inr (1, s') \<and>
     router_sent s' = [(''c'', True), ('''', True), (''error unknown error handling command init'', False)]) \<and>
   (\<exists>s'. handle_request failing_handler ''c'' [''info''] (0, new_server) = Inr (1, s') \<and>
     router_sent s' = [(''c'', True), ('''', True), (''model'', False)])"
proof (intro conjI)
  note run = throwing_handler_is_answered [where handler = failing_handler and client = "''c''" and s = new_server and w = 0]
  note defs = failing_handler_def handler_replies_def error_reply_def new_server_def server_one_line_def line_breaking_def
  have "answer_exception (failing_handler [''tof width''] 0) = Some (Runtime_error (''no'' @ [CHR 0x0A] @ ''card''))"
    by (simp add: failing_handler_def)
  from run [OF this] show "\<exists>s'. handle_request failing_handler ''c'' [''tof width''] (0, new_server) = Inr (1, s') \<and>
     router_sent s' = [(''c'', True), ('''', True), (''error no card'', False)]"
    by (auto simp: defs)
  have "answer_exception (failing_handler [''init''] 0) = Some (Other_throw ''int'')" by (simp add: failing_handler_def)
  from run [OF this] show "\<exists>s'. handle_request failing_handler ''c'' [''init''] (0, new_server) = Inr (1, s') \<and>
     router_sent s' = [(''c'', True), ('''', True), (''error unknown error handling command init'', False)]"
    by (auto simp: defs)
  have "answer_exception (failing_handler [''info''] 0) = Some (Runtime_error (''no'' @ [CHR 0x0A] @ ''card''))"
    by (simp add: failing_handler_def)
  from run [OF this] show "\<exists>s'. handle_request failing_handler ''c'' [''info''] (0, new_server) = Inr (1, s') \<and>
     router_sent s' = [(''c'', True), ('''', True), (''model'', False)]"
    by (auto simp: defs)
qed

end
