(* ===== verification/Settings.thy ===== *)
theory Settings
  imports Complex_Main Digitizer
begin

text \<open>
  \<open>Config\<close> and the settings of the console: the text of \<open>config.txt\<close> as a map from
  keys to values, the numbers read from the values, the checks and the refusals. A file is its text, and
  one that does not exist has none. A \<open>double\<close> is the rational number it stands for and
  \<open>rnd\<close> rounds to one; hexadecimal numbers, infinities and NaNs in the file are not modelled.
  \<open>lf\<close> is the text of a number under \<open>%f\<close>.
\<close>

section \<open>Config\<close>

text \<open>What repeated \<open>std::getline\<close> with a delimiter reads: no empty piece after a last one.\<close>

fun split_on :: "char \<Rightarrow> string \<Rightarrow> string list" where
  "split_on sep [] = []"
| "split_on sep (c # cs) =
     (if c = sep then [] # split_on sep cs
      else (case split_on sep cs of [] \<Rightarrow> [[c]] | tok # toks \<Rightarrow> (c # tok) # toks))"

type_synonym files = "string \<Rightarrow> string option"

record config =
  config_filename :: string
  config_map :: "string \<Rightarrow> string option"

definition new_config :: "string \<Rightarrow> config" where
  "new_config name = \<lparr>config_filename = name, config_map = Map.empty\<rparr>"

definition config_exists :: "files \<Rightarrow> config \<Rightarrow> bool" where
  "config_exists fs c \<longleftrightarrow> fs (config_filename c) \<noteq> None"

definition config_insert :: "string \<Rightarrow> string \<Rightarrow> (string \<Rightarrow> string option) \<Rightarrow> string \<Rightarrow> string option" where
  "config_insert key v m = (case m key of None \<Rightarrow> m(key \<mapsto> v) | Some _ \<Rightarrow> m)"

definition read_line :: "string \<Rightarrow> (string \<Rightarrow> string option) \<Rightarrow> string \<Rightarrow> string option" where
  "read_line line m =
     (if line = [] then m
      else if hd line = CHR ''#'' then m
      else (case split_on (CHR ''='') line of [key, v] \<Rightarrow> config_insert key v m | _ \<Rightarrow> m))"

definition config_read :: "files \<Rightarrow> config \<Rightarrow> config" where
  "config_read fs c =
     (case fs (config_filename c) of
        None \<Rightarrow> c
      | Some content \<Rightarrow> c\<lparr>config_map := fold read_line (split_on (CHR 0x0A) content) (config_map c)\<rparr>)"

definition get_value :: "config \<Rightarrow> string \<Rightarrow> string result" where
  "get_value c key =
     (case config_map c key of
        None \<Rightarrow> Inl (Runtime_error (''key '' @ key @ '' not found'' @ [CHR 0x0A]))
      | Some v \<Rightarrow> Inr v)"

definition has_key :: "config \<Rightarrow> string \<Rightarrow> bool" where
  "has_key c key \<longleftrightarrow> config_map c key \<noteq> None"

section \<open>Numbers\<close>

definition is_space :: "char \<Rightarrow> bool" where
  "is_space c \<longleftrightarrow> c = CHR '' '' \<or> (9 \<le> (of_char c :: nat) \<and> (of_char c :: nat) \<le> 13)"

definition is_digit :: "char \<Rightarrow> bool" where
  "is_digit c \<longleftrightarrow> 48 \<le> (of_char c :: nat) \<and> (of_char c :: nat) \<le> 57"

definition decimal :: "string \<Rightarrow> nat" where
  "decimal ds = foldl (\<lambda>n c. 10 * n + (of_char c - 48)) 0 ds"

definition read_sign :: "string \<Rightarrow> bool \<times> string" where
  "read_sign s =
     (case s of
        [] \<Rightarrow> (False, [])
      | c # cs \<Rightarrow> if c = CHR ''-'' then (True, cs) else if c = CHR ''+'' then (False, cs) else (False, s))"

text \<open>The number a text starts with, as its sign and its magnitude; what follows it is not looked at.\<close>

definition parse_integer :: "string \<Rightarrow> (bool \<times> nat) option" where
  "parse_integer s =
     (case read_sign (dropWhile is_space s) of
        (neg, s') \<Rightarrow>
          (let ds = takeWhile is_digit s' in if ds = [] then None else Some (neg, decimal ds)))"

definition signed_of :: "bool \<times> nat \<Rightarrow> int" where
  "signed_of nm = (if fst nm then - int (snd nm) else int (snd nm))"

definition stoi :: "string \<Rightarrow> i32 result" where
  "stoi s =
     (case parse_integer s of
        None \<Rightarrow> Inl (Invalid_argument ''invalid stoi argument'')
      | Some nm \<Rightarrow>
          if - 2147483648 \<le> signed_of nm \<and> signed_of nm < 2147483648 then Inr (word_of_int (signed_of nm))
          else Inl (Out_of_range ''stoi argument out of range''))"

definition stoll :: "string \<Rightarrow> i64 result" where
  "stoll s =
     (case parse_integer s of
        None \<Rightarrow> Inl (Invalid_argument ''invalid stoll argument'')
      | Some nm \<Rightarrow>
          if - 9223372036854775808 \<le> signed_of nm \<and> signed_of nm < 9223372036854775808
          then Inr (word_of_int (signed_of nm))
          else Inl (Out_of_range ''stoll argument out of range''))"

text \<open>A minus sign before an unsigned number negates it in 64 bits.\<close>

definition stoull :: "string \<Rightarrow> u64 result" where
  "stoull s =
     (case parse_integer s of
        None \<Rightarrow> Inl (Invalid_argument ''invalid stoull argument'')
      | Some nm \<Rightarrow>
          if snd nm < 18446744073709551616 then Inr (word_of_int (signed_of nm))
          else Inl (Out_of_range ''stoull argument out of range''))"

definition read_exponent :: "string \<Rightarrow> int" where
  "read_exponent s =
     (case s of
        [] \<Rightarrow> 0
      | e # t \<Rightarrow>
          if e = CHR ''e'' \<or> e = CHR ''E''
          then (case read_sign t of (neg, t') \<Rightarrow> signed_of (neg, decimal (takeWhile is_digit t')))
          else 0)"

definition scale10 :: "rat \<Rightarrow> int \<Rightarrow> rat" where
  "scale10 q k = (if 0 \<le> k then q * 10 ^ nat k else q / 10 ^ nat (- k))"

definition parse_decimal :: "string \<Rightarrow> rat option" where
  "parse_decimal s =
     (case read_sign (dropWhile is_space s) of
        (neg, s1) \<Rightarrow>
          (let whole = takeWhile is_digit s1;
               s2 = dropWhile is_digit s1;
               (fraction, s3) =
                 (case s2 of
                    [] \<Rightarrow> ([], [])
                  | c # t \<Rightarrow> if c = CHR ''.'' then (takeWhile is_digit t, dropWhile is_digit t) else ([], s2));
               magnitude = scale10 (of_nat (decimal (whole @ fraction))) (read_exponent s3 - int (length fraction)) in
           if whole = [] \<and> fraction = [] then None else Some (if neg then - magnitude else magnitude)))"

definition stod :: "(rat \<Rightarrow> rat) \<Rightarrow> string \<Rightarrow> rat result" where
  "stod rnd s =
     (case parse_decimal s of
        None \<Rightarrow> Inl (Invalid_argument ''invalid stod argument'')
      | Some q \<Rightarrow>
          if 2 ^ 1024 \<le> \<bar>rnd q\<bar> \<or> (rnd q = 0 \<and> q \<noteq> 0) then Inl (Out_of_range ''stod argument out of range'')
          else Inr (rnd q))"

text \<open>The bound written out, so that evaluating a number does not multiply it out each time.\<close>

lemma double_limit [code_unfold]:
  "(2 :: rat) ^ 1024 =
   179769313486231590772930519078902473361797697894230657273430081157732675805500963132708477322407536021120113879871393357658789768814416622492847430639474124377767893424865485276302219601246094119453082952085005768838150682342462881473913110540827237163350510684586298239947245938479716304835356329624224137216"
  by simp

section \<open>Settings\<close>

record settings =
  post_trigger_delay :: rat
  estimated_trigger_rearm_time :: rat
  notify_on_scans_count :: u64
  resource_name :: string
  acquisition_timeout_ms :: i64
  acquisition_initial_buffer_count :: u64
  acquisition_max_buffer_count :: u64
  acquisition_buffer_reserve_elements_count :: u64
  log_level :: string
  trigger_level :: rat
  trigger_rising :: bool
  full_scale_range :: rat
  zero_suppress_threshold :: i32
  zero_suppress_hysteresis :: i32
  control_io_port :: i32
  marker_diagnostics :: i32

definition default_settings :: "(rat \<Rightarrow> rat) \<Rightarrow> settings" where
  "default_settings rnd =
     \<lparr>post_trigger_delay = rnd (1 / 100000), estimated_trigger_rearm_time = rnd (2048 / 1000000000),
      notify_on_scans_count = 500, resource_name = ''PXI0::0::0::INSTR'', acquisition_timeout_ms = 100,
      acquisition_initial_buffer_count = 40, acquisition_max_buffer_count = 100,
      acquisition_buffer_reserve_elements_count = 2048, log_level = ''info'', trigger_level = 2,
      trigger_rising = True, full_scale_range = 1 / 2, zero_suppress_threshold = - 32667,
      zero_suppress_hysteresis = 100, control_io_port = 2, marker_diagnostics = 0\<rparr>"

definition value_or :: "config \<Rightarrow> string \<Rightarrow> (string \<Rightarrow> 'a result) \<Rightarrow> 'a \<Rightarrow> 'a result" where
  "value_or c key parse fallback = (if has_key c key then bindR (get_value c key) parse else Inr fallback)"

definition quoted :: "string \<Rightarrow> string" where
  "quoted s = CHR 0x22 # s @ [CHR 0x22]"

text \<open>An exception of the conversion is replaced by one that names the key.\<close>

definition config_number :: "(string \<Rightarrow> 'a result) \<Rightarrow> string \<Rightarrow> config \<Rightarrow> string \<Rightarrow> 'a \<Rightarrow> 'a result" where
  "config_number parse kind c key fallback =
     (if \<not> has_key c key then Inr fallback
      else
        (case bindR (get_value c key) parse of
           Inr v \<Rightarrow> Inr v
         | Inl _ \<Rightarrow>
             bindR (get_value c key) (\<lambda>text.
               Inl (Runtime_error (key @ '' must be a '' @ kind @ '', got '' @ quoted text)))))"

definition config_double :: "(rat \<Rightarrow> rat) \<Rightarrow> config \<Rightarrow> string \<Rightarrow> rat \<Rightarrow> rat result" where
  "config_double rnd = config_number (stod rnd) ''number''"

definition config_int :: "config \<Rightarrow> string \<Rightarrow> i32 \<Rightarrow> i32 result" where
  "config_int = config_number stoi ''whole number''"

definition control_io_port_name :: "settings \<Rightarrow> string" where
  "control_io_port_name s =
     (if control_io_port s = 1 then ''ControlIO1''
      else if control_io_port s = 3 then ''ControlIO3''
      else ''ControlIO2'')"

definition int_text :: "i32 \<Rightarrow> string" where
  "int_text v = int_to_string (sint v)"

definition reject_bad_settings :: "(rat \<Rightarrow> string) \<Rightarrow> settings \<Rightarrow> settings result" where
  "reject_bad_settings lf s =
     (if zero_suppress_threshold s <s - 32768 \<or> 32767 <s zero_suppress_threshold s
      then Inl (Runtime_error (''ZeroSuppressThreshold must be between -32768 and 32767, got '' @
        int_text (zero_suppress_threshold s)))
      else if zero_suppress_hysteresis s <s 100 \<or> 1023 <s zero_suppress_hysteresis s
      then Inl (Runtime_error (''ZeroSuppressHysteresis must be between 100 and 1023, got '' @
        int_text (zero_suppress_hysteresis s)))
      else if full_scale_range s \<noteq> 1 / 2 \<and> full_scale_range s \<noteq> 5 / 2
      then Inl (Runtime_error (''FullScaleRange must be 0.5 or 2.5, got '' @ lf (full_scale_range s)))
      else if control_io_port s <s 1 \<or> 3 <s control_io_port s
      then Inl (Runtime_error (''ControlIoPort must be 1, 2 or 3, got '' @ int_text (control_io_port s)))
      else Inr s)"

definition to_lower :: "char \<Rightarrow> char" where
  "to_lower c = (if 65 \<le> (of_char c :: nat) \<and> (of_char c :: nat) \<le> 90 then char_of ((of_char c :: nat) + 32) else c)"

definition trim_right :: "string \<Rightarrow> string" where
  "trim_right s = rev (dropWhile (\<lambda>c. c = CHR '' '' \<or> line_breaking c) (rev s))"

definition read_slope :: "config \<Rightarrow> settings \<Rightarrow> settings result" where
  "read_slope c s =
     (if \<not> has_key c ''TriggerSlope'' then Inr s
      else
        bindR (get_value c ''TriggerSlope'') (\<lambda>text.
          let slope = map to_lower (trim_right text) in
          if slope = ''rising'' then Inr (s\<lparr>trigger_rising := True\<rparr>)
          else if slope = ''falling'' then Inr (s\<lparr>trigger_rising := False\<rparr>)
          else Inl (Runtime_error (''TriggerSlope must be rising or falling, got '' @ slope))))"

text \<open>One assignment after the other, up to the first that throws.\<close>

fun in_turn :: "('s \<Rightarrow> 's result) list \<Rightarrow> 's \<Rightarrow> 's result" where
  "in_turn [] s = Inr s"
| "in_turn (f # fs) s = bindR (f s) (in_turn fs)"

definition assign :: "('s \<Rightarrow> 'a result) \<Rightarrow> ('a \<Rightarrow> 's \<Rightarrow> 's) \<Rightarrow> 's \<Rightarrow> 's result" where
  "assign f put s = bindR (f s) (\<lambda>v. Inr (put v s))"

definition read_settings :: "(rat \<Rightarrow> rat) \<Rightarrow> (rat \<Rightarrow> string) \<Rightarrow> config \<Rightarrow> settings \<Rightarrow> settings result" where
  "read_settings rnd lf c = in_turn
     [assign (\<lambda>s. value_or c ''PostTriggerDelay'' (stod rnd) (post_trigger_delay s)) (\<lambda>v s. s\<lparr>post_trigger_delay := v\<rparr>),
      assign (\<lambda>s. value_or c ''TriggerRearmDeadTime'' (stod rnd) (estimated_trigger_rearm_time s))
        (\<lambda>v s. s\<lparr>estimated_trigger_rearm_time := v\<rparr>),
      assign (\<lambda>s. value_or c ''ResourceName'' Inr (resource_name s)) (\<lambda>v s. s\<lparr>resource_name := v\<rparr>),
      assign (\<lambda>s. value_or c ''NotifyOnScansCount'' stoull (notify_on_scans_count s)) (\<lambda>v s. s\<lparr>notify_on_scans_count := v\<rparr>),
      assign (\<lambda>s. value_or c ''AcquisitionTimeoutMs'' stoll (acquisition_timeout_ms s)) (\<lambda>v s. s\<lparr>acquisition_timeout_ms := v\<rparr>),
      assign (\<lambda>s. value_or c ''AcquisitionInitialBufferCount'' stoull (acquisition_initial_buffer_count s))
        (\<lambda>v s. s\<lparr>acquisition_initial_buffer_count := v\<rparr>),
      assign (\<lambda>s. value_or c ''AcquisitionMaxBufferCount'' stoull (acquisition_max_buffer_count s))
        (\<lambda>v s. s\<lparr>acquisition_max_buffer_count := v\<rparr>),
      assign (\<lambda>s. value_or c ''AcquisitionBufferReserveElementsCount'' stoull (acquisition_buffer_reserve_elements_count s))
        (\<lambda>v s. s\<lparr>acquisition_buffer_reserve_elements_count := v\<rparr>),
      assign (\<lambda>s. value_or c ''LogLevel'' Inr (log_level s)) (\<lambda>v s. s\<lparr>log_level := v\<rparr>),
      assign (\<lambda>s. config_double rnd c ''TriggerLevel'' (trigger_level s)) (\<lambda>v s. s\<lparr>trigger_level := v\<rparr>),
      assign (\<lambda>s. config_double rnd c ''FullScaleRange'' (full_scale_range s)) (\<lambda>v s. s\<lparr>full_scale_range := v\<rparr>),
      assign (\<lambda>s. config_int c ''ZeroSuppressThreshold'' (zero_suppress_threshold s)) (\<lambda>v s. s\<lparr>zero_suppress_threshold := v\<rparr>),
      assign (\<lambda>s. config_int c ''ZeroSuppressHysteresis'' (zero_suppress_hysteresis s)) (\<lambda>v s. s\<lparr>zero_suppress_hysteresis := v\<rparr>),
      assign (\<lambda>s. config_int c ''ControlIoPort'' (control_io_port s)) (\<lambda>v s. s\<lparr>control_io_port := v\<rparr>),
      assign (\<lambda>s. config_int c ''MarkerDiagnostics'' (marker_diagnostics s)) (\<lambda>v s. s\<lparr>marker_diagnostics := v\<rparr>),
      (\<lambda>s. if marker_diagnostics s \<noteq> 0 \<and> marker_diagnostics s \<noteq> 1
           then Inl (Runtime_error (''MarkerDiagnostics must be 0 or 1, got '' @ int_text (marker_diagnostics s)))
           else Inr s),
      read_slope c,
      reject_bad_settings lf]"

text \<open>Without a file nothing is read or checked.\<close>

definition configure_settings :: "(rat \<Rightarrow> rat) \<Rightarrow> (rat \<Rightarrow> string) \<Rightarrow> files \<Rightarrow> settings \<Rightarrow> (config option \<times> settings) result" where
  "configure_settings rnd lf fs s =
     (let c = new_config ''config.txt'' in
      if config_exists fs c
      then bindR (read_settings rnd lf (config_read fs c) s) (\<lambda>s'. Inr (Some (config_read fs c), s'))
      else Inr (None, s))"

definition diagnostics :: "settings \<Rightarrow> bool" where
  "diagnostics s \<longleftrightarrow> marker_diagnostics s = 1"

section \<open>The log\<close>

definition print_config_value :: "string \<Rightarrow> string \<Rightarrow> bool \<Rightarrow> string" where
  "print_config_value key v is_found =
     (''Config value '' @ [CHR 0x22] @ key) @
     (if is_found then CHR 0x22 # '' found, value set to '' @ v else '' not found, value defaulted to '' @ v)"

definition print_config :: "(rat \<Rightarrow> string) \<Rightarrow> config \<Rightarrow> settings \<Rightarrow> string list" where
  "print_config lf c s =
     map (\<lambda>(key, v). print_config_value key v (has_key c key))
       [(''PostTriggerDelay'', lf (post_trigger_delay s)),
        (''TriggerRearmDeadTime'', lf (estimated_trigger_rearm_time s)),
        (''ResourceName'', resource_name s),
        (''NotifyOnScansCount'', nat_to_string (unat (notify_on_scans_count s))),
        (''AcquisitionTimeoutMs'', int_to_string (sint (acquisition_timeout_ms s))),
        (''AcquisitionInitialBufferCount'', nat_to_string (unat (acquisition_initial_buffer_count s))),
        (''AcquisitionMaxBufferCount'', nat_to_string (unat (acquisition_max_buffer_count s))),
        (''AcquisitionBufferReserveElementsCount'', nat_to_string (unat (acquisition_buffer_reserve_elements_count s))),
        (''TriggerLevel'', lf (trigger_level s)),
        (''TriggerSlope'', if trigger_rising s then ''rising'' else ''falling''),
        (''FullScaleRange'', lf (full_scale_range s)),
        (''ZeroSuppressThreshold'', int_text (zero_suppress_threshold s)),
        (''ZeroSuppressHysteresis'', int_text (zero_suppress_hysteresis s)),
        (''ControlIoPort'', int_text (control_io_port s)),
        (''MarkerDiagnostics'', int_text (marker_diagnostics s))]"

datatype log_level_enum = Level_trace | Level_debug | Level_info | Level_warn | Level_err | Level_critical | Level_off

definition get_log_levels_map :: "string \<Rightarrow> log_level_enum option" where
  "get_log_levels_map = map_of
     [(''trace'', Level_trace), (''debug'', Level_debug), (''info'', Level_info), (''warn'', Level_warn),
      (''err'', Level_err), (''critical'', Level_critical), (''off'', Level_off)]"

definition get_log_level_from_string :: "string \<Rightarrow> log_level_enum" where
  "get_log_level_from_string level =
     (case get_log_levels_map (map to_lower level) of Some l \<Rightarrow> l | None \<Rightarrow> Level_info)"

section \<open>Reading lines back\<close>

lemma split_on_piece: "sep \<notin> set xs \<Longrightarrow> split_on sep (xs @ sep # ys) = xs # split_on sep ys"
  by (induction xs) auto

lemma split_on_last: "sep \<notin> set xs \<Longrightarrow> xs \<noteq> [] \<Longrightarrow> split_on sep xs = [xs]"
proof (induction xs)
  case (Cons x xs)
  then show ?case by (cases xs) auto
qed simp

definition config_line :: "string \<times> string \<Rightarrow> string" where
  "config_line kv = fst kv @ CHR ''='' # snd kv"

definition plain_entry :: "string \<times> string \<Rightarrow> bool" where
  "plain_entry kv \<longleftrightarrow>
     CHR ''='' \<notin> set (fst kv) \<and> CHR 0x0A \<notin> set (fst kv) \<and> CHR ''='' \<notin> set (snd kv) \<and> CHR 0x0A \<notin> set (snd kv) \<and>
     snd kv \<noteq> [] \<and> take 1 (fst kv) \<noteq> ''#''"

lemma read_config_line:
  assumes "plain_entry kv"
  shows "read_line (config_line kv) m = config_insert (fst kv) (snd kv) m"
proof -
  have "hd (config_line kv) \<noteq> CHR ''#''"
    using assms by (cases "fst kv") (auto simp: plain_entry_def config_line_def)
  then show ?thesis
    using assms by (simp add: read_line_def config_line_def plain_entry_def split_on_piece split_on_last)
qed

lemma split_config_lines:
  "list_all plain_entry kvs \<Longrightarrow>
   split_on (CHR 0x0A) (concat (map (\<lambda>kv. config_line kv @ [CHR 0x0A]) kvs)) = map config_line kvs"
proof (induction kvs)
  case (Cons kv kvs)
  then have "CHR 0x0A \<notin> set (config_line kv)" by (simp add: plain_entry_def config_line_def)
  with Cons show ?case by (simp add: split_on_piece)
qed simp

lemma config_insert_add: "m ++ config_insert k v m' = m(k \<mapsto> v) ++ m'"
  by (auto simp: config_insert_def map_add_def fun_eq_iff split: option.splits)

lemma fold_read_config_lines:
  "list_all plain_entry kvs \<Longrightarrow> fold read_line (map config_line kvs) m = map_of kvs ++ m"
proof (induction kvs arbitrary: m)
  case (Cons kv kvs)
  then show ?case by (cases kv) (simp add: read_config_line config_insert_add fun_upd_def)
qed simp

section \<open>The last check\<close>

lemma in_turn_drop: "in_turn fs s = Inr s' \<Longrightarrow> n \<le> length fs \<Longrightarrow> \<exists>s0. in_turn (drop n fs) s0 = Inr s'"
proof (induction fs arbitrary: s n)
  case (Cons f fs)
  then obtain s1 where "in_turn fs s1 = Inr s'" by (auto simp: bindR_Inr_iff)
  with Cons show ?case by (cases n) auto
qed auto

lemma read_settings_checked:
  assumes "read_settings rnd lf c s = Inr s'"
  shows "reject_bad_settings lf s' = Inr s' \<and> (marker_diagnostics s' = 0 \<or> marker_diagnostics s' = 1)"
proof -
  obtain s0 s1 where s1: "marker_diagnostics s0 = 0 \<or> marker_diagnostics s0 = 1" "read_slope c s0 = Inr s1"
      "reject_bad_settings lf s1 = Inr s'"
    using in_turn_drop [OF assms [unfolded read_settings_def], of 15] by (auto simp: bindR_Inr_iff split: if_splits)
  have "marker_diagnostics s1 = marker_diagnostics s0"
    using s1(2) by (auto simp: read_slope_def bindR_Inr_iff Let_def split: if_splits)
  moreover have "s1 = s'" using s1(3) by (simp add: reject_bad_settings_def split: if_splits)
  ultimately show ?thesis using s1 by simp
qed

text \<open>
  What the checks leave: a threshold of 16 bits, a hysteresis and a full scale the card has, one of the three ports
  and a switch that is on or off. The other settings are in no check.
\<close>

definition checks_passed :: "settings \<Rightarrow> bool" where
  "checks_passed s \<longleftrightarrow>
     - 32768 \<le> sint (zero_suppress_threshold s) \<and> sint (zero_suppress_threshold s) \<le> 32767 \<and>
     100 \<le> sint (zero_suppress_hysteresis s) \<and> sint (zero_suppress_hysteresis s) \<le> 1023 \<and>
     (full_scale_range s = 1 / 2 \<or> full_scale_range s = 5 / 2) \<and>
     1 \<le> sint (control_io_port s) \<and> sint (control_io_port s) \<le> 3"

lemma reject_bad_settings_iff: "reject_bad_settings lf s = Inr s \<longleftrightarrow> checks_passed s"
  by (auto simp: reject_bad_settings_def checks_passed_def word_sless_alt)

definition settings_fit :: "settings \<Rightarrow> bool" where
  "settings_fit s \<longleftrightarrow>
     sint (scast (zero_suppress_threshold s) :: i16) = sint (zero_suppress_threshold s) \<and>
     sint (zero_suppress_threshold s + 32768) = sint (zero_suppress_threshold s) + 32768 \<and>
     uint (ucast (zero_suppress_hysteresis s) :: u16) = sint (zero_suppress_hysteresis s) \<and>
     100 \<le> sint (zero_suppress_hysteresis s) \<and> sint (zero_suppress_hysteresis s) \<le> 1023 \<and>
     (full_scale_range s = 1 / 2 \<or> full_scale_range s = 5 / 2) \<and>
     control_io_port_name s = ''ControlIO'' @ int_text (control_io_port s)"

lemma int_text_port: "int_text 1 = ''1''" "int_text 2 = ''2''" "int_text 3 = ''3''"
  by code_simp+

lemma checked_settings_fit:
  assumes "reject_bad_settings lf s = Inr s"
  shows "settings_fit s"
proof -
  have t: "- 32768 \<le> sint (zero_suppress_threshold s)" "sint (zero_suppress_threshold s) \<le> 32767"
    and h: "100 \<le> sint (zero_suppress_hysteresis s)" "sint (zero_suppress_hysteresis s) \<le> 1023"
    and f: "full_scale_range s = 1 / 2 \<or> full_scale_range s = 5 / 2"
    and p: "1 \<le> sint (control_io_port s)" "sint (control_io_port s) \<le> 3"
    using assms by (auto simp: reject_bad_settings_def word_sless_alt split: if_splits)
  have "sint (scast (zero_suppress_threshold s) :: i16) = signed_take_bit 15 (sint (zero_suppress_threshold s))"
    by (simp add: sint_word_ariths signed_scast_eq)
  moreover have "signed_take_bit 15 (sint (zero_suppress_threshold s)) = sint (zero_suppress_threshold s)"
    using t by (simp add: signed_take_bit_int_eq_self)
  moreover have "sint (zero_suppress_threshold s + 32768) = sint (zero_suppress_threshold s) + 32768"
    using t by (subst sint32_add) auto
  moreover have "uint (ucast (zero_suppress_hysteresis s) :: u16) = sint (zero_suppress_hysteresis s)"
  proof -
    have "uint (zero_suppress_hysteresis s) = sint (zero_suppress_hysteresis s)"
      using h by (simp add: uint_sint take_bit_int_eq_self)
    then show ?thesis using h by (simp add: unsigned_ucast_eq take_bit_int_eq_self)
  qed
  moreover have "control_io_port_name s = ''ControlIO'' @ int_text (control_io_port s)"
  proof -
    from p have "sint (control_io_port s) = 1 \<or> sint (control_io_port s) = 2 \<or> sint (control_io_port s) = 3"
      by linarith
    moreover have "word_of_int (sint (control_io_port s)) = control_io_port s" by simp
    ultimately have "control_io_port s = word_of_int 1 \<or> control_io_port s = word_of_int 2 \<or> control_io_port s = word_of_int 3"
      by metis
    then show ?thesis
      by (auto simp: control_io_port_name_def int_text_port)
  qed
  ultimately show ?thesis using f h by (simp add: settings_fit_def)
qed

lemma accepted_checked:
  assumes "configure_settings rnd lf fs (default_settings rnd) = Inr (c, s)"
  shows "checks_passed s \<and> (marker_diagnostics s = 0 \<or> marker_diagnostics s = 1)"
proof (cases "config_exists fs (new_config ''config.txt'')")
  case True
  then show ?thesis
    using assms read_settings_checked reject_bad_settings_iff
    by (fastforce simp: configure_settings_def Let_def bindR_Inr_iff)
next
  case False
  then have "s = default_settings rnd" using assms by (simp add: configure_settings_def Let_def)
  then show ?thesis by (simp add: checks_passed_def default_settings_def)
qed

lemma accepted_fit:
  "configure_settings rnd lf fs (default_settings rnd) = Inr (c, s) \<Longrightarrow> settings_fit s"
  using accepted_checked reject_bad_settings_iff checked_settings_fit by blast

section \<open>Properties\<close>

text \<open>C33: the settings the console goes on with have passed every check of its start, with a file or without: the
  threshold is of 16 bits, the hysteresis between 100 and 1023, the full scale 0.5 or 2.5, the port 1, 2 or 3 and
  the diagnostics switch 0 or 1. So the conversions of threshold and hysteresis for the card keep their values,
  the alignment floor does not overflow, the port is the one named, and a file with any of these values out of
  range stops the start. Nothing is claimed of the other settings, which no check reads: the counts, the
  timeout, the delays and the trigger level are what the file says, and a threshold may still be below the least
  one the card takes at that hysteresis.\<close>

theorem accepted_settings_pass_the_checks:
  assumes "configure_settings rnd lf fs (default_settings rnd) = Inr (c, s)"
  shows "checks_passed s \<and> (diagnostics s \<longleftrightarrow> marker_diagnostics s \<noteq> 0) \<and> (\<forall>lf'. reject_bad_settings lf' s = Inr s) \<and>
    sint (scast (zero_suppress_threshold s) :: i16) = sint (zero_suppress_threshold s) \<and>
    uint (ucast (zero_suppress_hysteresis s) :: u16) = sint (zero_suppress_hysteresis s) \<and>
    sint (zero_suppress_threshold s + 32768) = sint (zero_suppress_threshold s) + 32768 \<and>
    control_io_port_name s = ''ControlIO'' @ int_text (control_io_port s)"
proof -
  note checked = accepted_checked [OF assms]
  have "settings_fit s" by (rule accepted_fit [OF assms])
  with checked reject_bad_settings_iff show ?thesis
    by (auto simp: settings_fit_def diagnostics_def)
qed

definition small_config :: files where
  "small_config = (\<lambda>_. Some (''ControlIoPort=3'' @ [CHR 0x0A] @ ''FullScaleRange=25e-1V'' @ [CHR 0x0A] @
     ''ZeroSuppressHysteresis=1023'' @ [CHR 0x0A] @
     ''# comment'' @ [CHR 0x0A] @ ''TriggerSlope=Falling '' @ [CHR 0x0A]))"

definition outcome_settings :: "(config option \<times> settings) result \<Rightarrow> settings option" where
  "outcome_settings r = (case r of Inr (c, s) \<Rightarrow> Some s | Inl _ \<Rightarrow> None)"

text \<open>
  A file that is accepted: it passes the checks, with a threshold below what the card takes at its hysteresis.
\<close>

theorem accepted_settings_pass_the_checks_witness:
  "\<exists>s. outcome_settings (configure_settings id (\<lambda>_. '''') small_config (default_settings id)) = Some s \<and>
     checks_passed s \<and> control_io_port_name s = ''ControlIO3'' \<and> full_scale_range s = 5 / 2 \<and> \<not> trigger_rising s \<and>
     sint (zero_suppress_threshold s) < sint (zero_suppress_hysteresis s) - 32768"
proof -
  let ?r = "configure_settings id (\<lambda>_. '''') small_config (default_settings id)"
  have "case ?r of Inl e \<Rightarrow> False | Inr (c, s) \<Rightarrow>
      control_io_port_name s = ''ControlIO3'' \<and> full_scale_range s = 5 / 2 \<and> \<not> trigger_rising s \<and>
      sint (zero_suppress_threshold s) < sint (zero_suppress_hysteresis s) - 32768"
    by code_simp
  then obtain c s where s: "?r = Inr (c, s)"
      "control_io_port_name s = ''ControlIO3''" "full_scale_range s = 5 / 2" "\<not> trigger_rising s"
      "sint (zero_suppress_threshold s) < sint (zero_suppress_hysteresis s) - 32768"
    by (auto split: sum.splits)
  from accepted_settings_pass_the_checks [OF s(1)] have "checks_passed s" by simp
  with s show ?thesis by (simp add: outcome_settings_def)
qed

text \<open>C35: a file of plain entries is read back as the map of its entries, the first one for a key winning.\<close>

theorem config_reads_entries:
  assumes "list_all plain_entry kvs" "fs name = Some (concat (map (\<lambda>kv. config_line kv @ [CHR 0x0A]) kvs))"
  shows "config_map (config_read fs (new_config name)) = map_of kvs"
  using assms by (simp add: config_read_def new_config_def split_config_lines fold_read_config_lines)

theorem config_reads_entries_witness:
  "config_map (config_read (\<lambda>_. Some (''a=1'' @ [CHR 0x0A] @ ''b=2'' @ [CHR 0x0A] @ ''a=3'' @ [CHR 0x0A])) (new_config ''f'')) =
     map_of [(''a'', ''1''), (''b'', ''2''), (''a'', ''3'')]"
  by (rule config_reads_entries) (simp_all add: plain_entry_def config_line_def)

end
