(* ===== verification/Startup.thy ===== *)
theory Startup
  imports Settings
begin

unbundle bit_operations_syntax

text \<open>
  What \<open>main\<close> does before it opens the card (the first half of aqmd3_console.cpp): it switches the quick edit
  mode of the Windows console off, reads the settings and sets the logger up. The answers of Windows and whether
  the logger could open its sinks are parameters. The lines of the log are the result, with the level each is
  logged at; which of them a logger keeps is its own business.
\<close>

section \<open>The console window\<close>

record windows_console =
  std_input_valid :: bool
  console_mode :: "u32 option"
  takes_mode :: "u32 \<Rightarrow> bool"

definition enable_quick_edit_mode :: u32 where
  "enable_quick_edit_mode = 0x40"

definition enable_extended_flags :: u32 where
  "enable_extended_flags = 0x80"

text \<open>The mode that is set.\<close>

definition disable_quick_edit :: "windows_console \<Rightarrow> u32 result" where
  "disable_quick_edit win =
     (if \<not> std_input_valid win
      then Inl (Runtime_error (''Error getting standard device handle'' @ [CHR 0x0A]))
      else
        (case console_mode win of
           None \<Rightarrow> Inl (Runtime_error ''Error getting console mode'')
         | Some current \<Rightarrow>
             (let mode = enable_extended_flags OR (current AND NOT enable_quick_edit_mode) in
              if takes_mode win mode then Inr mode else Inl (Runtime_error ''Error setting console mode''))))"

lemma quick_edit_is_off:
  assumes "disable_quick_edit win = Inr mode"
  shows "mode AND enable_quick_edit_mode = 0" "\<exists>current. console_mode win = Some current \<and>
    (\<forall>flag. flag AND enable_quick_edit_mode = 0 \<longrightarrow> flag AND enable_extended_flags = 0 \<longrightarrow>
       mode AND flag = current AND flag)"
proof -
  from assms obtain current where mode: "console_mode win = Some current"
      "mode = enable_extended_flags OR (current AND NOT enable_quick_edit_mode)"
    by (auto simp: disable_quick_edit_def Let_def split: option.splits if_splits)
  have "enable_extended_flags AND enable_quick_edit_mode = 0"
    by (simp add: enable_extended_flags_def enable_quick_edit_mode_def)
  then show "mode AND enable_quick_edit_mode = 0"
    unfolding mode(2) by (auto simp: bit_eq_iff bit_simps)
  show "\<exists>current. console_mode win = Some current \<and>
    (\<forall>flag. flag AND enable_quick_edit_mode = 0 \<longrightarrow> flag AND enable_extended_flags = 0 \<longrightarrow>
       mode AND flag = current AND flag)"
    unfolding mode by (auto simp: bit_eq_iff bit_simps)
qed

section \<open>The logger\<close>

datatype log_line = Logged log_level_enum string | Printed string

text \<open>The argument \<open>failure\<close> is the message of the exception when a sink cannot be opened.\<close>

definition configure_logger :: "string option \<Rightarrow> log_line list" where
  "configure_logger failure =
     (case failure of
        None \<Rightarrow> [Logged Level_info ''Logger initialized'']
      | Some m \<Rightarrow> [Printed (''Log init failed: '' @ m)])"

section \<open>The start of main\<close>

text \<open>The handlers at the end of \<open>main\<close>, which returns 1 after either.\<close>

definition give_up :: "exn \<Rightarrow> log_line list" where
  "give_up e =
     (if is_std_exception e
      then [Logged Level_critical
              ''AqMD3 console application has encountered an error that it cannot recover from, application exiting'',
            Logged Level_critical (what e)]
      else [Logged Level_critical
              ''AqMD3 console application has encountered an unknown error that it cannot recover from, application exiting''])"

datatype start_end = Exited int "log_line list" | Ready settings log_level_enum "log_line list"

definition main_start :: "windows_console \<Rightarrow> string option \<Rightarrow> (rat \<Rightarrow> rat) \<Rightarrow> (rat \<Rightarrow> string) \<Rightarrow> files \<Rightarrow> start_end" where
  "main_start win failure rnd lf fs =
     (case disable_quick_edit win of
        Inl e \<Rightarrow> Exited 1 (give_up e)
      | Inr _ \<Rightarrow>
          (case configure_settings rnd lf fs (default_settings rnd) of
             Inl e \<Rightarrow>
               if is_std_exception e
               then Exited 1 (configure_logger failure @
                 [Logged Level_critical ''config.txt is not usable, application exiting'', Logged Level_critical (what e)])
               else Exited 1 (give_up e)
           | Inr (None, s) \<Rightarrow>
               Ready s Level_info (configure_logger failure @ [Logged Level_info ''No config found, using default values.''])
           | Inr (Some c, s) \<Rightarrow>
               (case (if has_key c ''LogLevel'' then get_value c ''LogLevel'' else Inr ''info'') of
                  Inl e \<Rightarrow> Exited 1 (give_up e)
                | Inr level_str \<Rightarrow>
                    Ready s (get_log_level_from_string level_str)
                      (configure_logger failure @ map (Logged Level_info) (print_config lf c s)))))"

section \<open>What a start leaves\<close>

text \<open>A start that goes on has settings that fit. One that does not returns 1, and the last thing it logs is a
  critical line.\<close>

lemma start_is_sound:
  "case main_start win failure rnd lf fs of
     Ready s level lines \<Rightarrow> settings_fit s \<and> (fs ''config.txt'' = None \<longrightarrow> s = default_settings rnd \<and> level = Level_info)
   | Exited code lines \<Rightarrow> code = 1 \<and> (\<exists>m. last lines = Logged Level_critical m)"
proof -
  have fit: "configure_settings rnd lf fs (default_settings rnd) = Inr (c, s) \<Longrightarrow> settings_fit s" for c s
    by (rule accepted_fit)
  have none: "fs ''config.txt'' = None \<Longrightarrow>
      configure_settings rnd lf fs (default_settings rnd) = Inr (None, default_settings rnd)"
    by (simp add: configure_settings_def Let_def config_exists_def new_config_def)
  show ?thesis
    using fit none
    by (auto simp: main_start_def give_up_def split: sum.splits option.splits prod.splits if_splits)
qed

text \<open>A file that is refused is named with what is wrong with it.\<close>

lemma refused_file_is_explained:
  assumes "disable_quick_edit win = Inr mode" "configure_settings rnd lf fs (default_settings rnd) = Inl e"
    and "is_std_exception e"
  shows "main_start win None rnd lf fs = Exited 1
    [Logged Level_info ''Logger initialized'', Logged Level_critical ''config.txt is not usable, application exiting'',
     Logged Level_critical (what e)]"
  using assms by (simp add: main_start_def configure_logger_def)

text \<open>A start logs one line for each of the settings it prints, which says whether the file names it; the level
  and the quick edit mode are not among them.\<close>

lemma start_reports_settings:
  assumes "disable_quick_edit win = Inr mode" "configure_settings rnd lf fs (default_settings rnd) = Inr (Some c, s)"
  shows "\<exists>level. main_start win failure rnd lf fs =
    Ready s level (configure_logger failure @ map (Logged Level_info) (print_config lf c s))"
  using assms by (auto simp: main_start_def get_value_def has_key_def split: option.splits)

text \<open>Without a console as its standard input, as under a service, the program ends before it has a log file.\<close>

lemma no_console_no_log:
  "console_mode win = None \<Longrightarrow> \<exists>m. main_start win failure rnd lf fs = Exited 1 (give_up (Runtime_error m))"
  by (auto simp: main_start_def disable_quick_edit_def)

end
