(* ===== verification/Wire.thy ===== *)
theory Wire
  imports Prelude
begin

text \<open>
  What the generated message code uses of the protobuf library, as a record of its functions, and the
  loop every \<open>_InternalParse\<close> has. The laws are the library's documented wire format: what a
  writer writes, its reader reads, and the size functions give the lengths. \<open>varint_wire\<close> is an
  encoding that has them, with the base-128 varints of the format. Octets are characters, as in the
  \<open>std::string\<close> they are kept in.
\<close>

section \<open>The library\<close>

record 'f wire =
  wire_tag :: "nat \<Rightarrow> nat \<Rightarrow> string"
  wire_varint32 :: "u32 \<Rightarrow> string"
  wire_int32 :: "i32 \<Rightarrow> string"
  wire_uint32 :: "u32 \<Rightarrow> string"
  wire_uint64 :: "u64 \<Rightarrow> string"
  wire_enum :: "i32 \<Rightarrow> string"
  wire_string :: "string \<Rightarrow> string"
  int32_size :: "i32 \<Rightarrow> nat"
  uint32_size :: "u32 \<Rightarrow> nat"
  uint64_size :: "u64 \<Rightarrow> nat"
  enum_size :: "i32 \<Rightarrow> nat"
  string_size :: "string \<Rightarrow> nat"
  to_cached_size :: "nat \<Rightarrow> i32"
  utf8 :: "string \<Rightarrow> bool"
  read_tag :: "string \<Rightarrow> (u32 \<times> string) option"
  read_varint :: "string \<Rightarrow> u64 \<times> string option"
  packed_int32 :: "string \<Rightarrow> i32 list \<times> string option"
  packed_uint32 :: "string \<Rightarrow> u32 list \<times> string option"
  packed_uint64 :: "string \<Rightarrow> u64 list \<times> string option"
  read_string :: "string \<Rightarrow> string \<times> string option"
  no_unknown :: 'f
  have_unknown :: "'f \<Rightarrow> bool"
  parse_unknown :: "u32 \<Rightarrow> string \<Rightarrow> 'f \<Rightarrow> 'f \<times> string option"
  wire_unknown :: "'f \<Rightarrow> string"
  unknown_size :: "'f \<Rightarrow> nat"
  merge_unknown :: "'f \<Rightarrow> 'f \<Rightarrow> 'f"

definition varint_type :: nat where "varint_type = 0"
definition length_delimited_type :: nat where "length_delimited_type = 2"

locale wire_format =
  fixes lib :: "'f wire"
  assumes tag_read: "1 \<le> f \<Longrightarrow> f \<le> 15 \<Longrightarrow> t < 8 \<Longrightarrow>
      read_tag lib (wire_tag lib f t @ rest) = Some (of_nat (8 * f + t), rest)"
    and tag_length: "1 \<le> f \<Longrightarrow> f \<le> 15 \<Longrightarrow> t < 8 \<Longrightarrow> length (wire_tag lib f t) = 1"
    and uint64_read: "read_varint lib (wire_uint64 lib v64 @ rest) = (v64, Some rest)"
    and uint32_read: "read_varint lib (wire_uint32 lib v32 @ rest) = (ucast v32, Some rest)"
    and enum_read: "read_varint lib (wire_enum lib e @ rest) = (scast e, Some rest)"
    and string_read: "utf8 lib s \<Longrightarrow> length s < 2147483648 \<Longrightarrow>
      read_string lib (wire_string lib s @ rest) = (s, Some rest)"
    and int32s_read: "length (concat (map (wire_int32 lib) xs)) < 2147483648 \<Longrightarrow>
      packed_int32 lib (wire_varint32 lib (of_nat (length (concat (map (wire_int32 lib) xs)))) @
        concat (map (wire_int32 lib) xs) @ rest) = (xs, Some rest)"
    and uint32s_read: "length (concat (map (wire_uint32 lib) ys)) < 2147483648 \<Longrightarrow>
      packed_uint32 lib (wire_varint32 lib (of_nat (length (concat (map (wire_uint32 lib) ys)))) @
        concat (map (wire_uint32 lib) ys) @ rest) = (ys, Some rest)"
    and uint64s_read: "length (concat (map (wire_uint64 lib) zs)) < 2147483648 \<Longrightarrow>
      packed_uint64 lib (wire_varint32 lib (of_nat (length (concat (map (wire_uint64 lib) zs)))) @
        concat (map (wire_uint64 lib) zs) @ rest) = (zs, Some rest)"
    and int32_length: "length (wire_int32 lib i) = int32_size lib i" "0 < int32_size lib i"
    and uint32_length: "length (wire_uint32 lib v32) = uint32_size lib v32" "0 < uint32_size lib v32"
    and uint64_length: "length (wire_uint64 lib v64) = uint64_size lib v64" "0 < uint64_size lib v64"
    and enum_length: "length (wire_enum lib e) = enum_size lib e"
    and string_length: "length (wire_string lib s) = string_size lib s"
    and varint32_length: "n < 2147483648 \<Longrightarrow> length (wire_varint32 lib (of_nat n)) = int32_size lib (of_nat n)"
    and cached: "n < 2147483648 \<Longrightarrow> to_cached_size lib n = of_nat n"
    and none_unknown: "\<not> have_unknown lib (no_unknown lib)"
    and unknown_length: "length (wire_unknown lib u) = unknown_size lib u"

section \<open>The parse loop\<close>

text \<open>
  A field's reader gives the message and what is left to read, nothing when it failed; \<open>None\<close>
  sends the tag to \<open>handle_unusual\<close>. A round reads at least a tag.
\<close>

datatype parse_status = At_end | At_tag u32 string | Parse_failed | Unfinished_parse

type_synonym 'm field_reader = "u32 \<Rightarrow> string \<Rightarrow> 'm \<Rightarrow> ('m \<times> string option) option"

fun parse_loop :: "'f wire \<Rightarrow> 'm field_reader \<Rightarrow> ('m \<Rightarrow> 'f) \<Rightarrow> ('f \<Rightarrow> 'm \<Rightarrow> 'm) \<Rightarrow> nat \<Rightarrow> string \<Rightarrow> 'm \<Rightarrow>
    'm \<times> parse_status" where
  "parse_loop lib field metadata put 0 bs m = (m, Unfinished_parse)"
| "parse_loop lib field metadata put (Suc n) bs m =
     (if bs = [] then (m, At_end)
      else
        (case read_tag lib bs of
           None \<Rightarrow> (m, Parse_failed)
         | Some (tag, bs1) \<Rightarrow>
             (case field tag bs1 m of
                Some (m', None) \<Rightarrow> (m', Parse_failed)
              | Some (m', Some bs2) \<Rightarrow> parse_loop lib field metadata put n bs2 m'
              | None \<Rightarrow>
                  if tag AND 7 = 4 \<or> tag = 0 then (m, At_tag tag bs1)
                  else
                    (case parse_unknown lib tag bs1 (metadata m) of
                       (u, None) \<Rightarrow> (put u m, Parse_failed)
                     | (u, Some bs2) \<Rightarrow> parse_loop lib field metadata put n bs2 (put u m)))))"

text \<open>With more rounds than octets the loop reads \<open>bs\<close> to its end.\<close>

definition reads_to :: "'f wire \<Rightarrow> 'm field_reader \<Rightarrow> ('m \<Rightarrow> 'f) \<Rightarrow> ('f \<Rightarrow> 'm \<Rightarrow> 'm) \<Rightarrow> string \<Rightarrow> 'm \<Rightarrow> 'm \<Rightarrow> bool" where
  "reads_to lib field metadata put bs m m' \<longleftrightarrow>
     (\<forall>n. length bs < n \<longrightarrow> parse_loop lib field metadata put n bs m = (m', At_end))"

lemma reads_to_nothing [intro]: "reads_to lib field metadata put [] m m"
  unfolding reads_to_def
proof (intro allI impI)
  fix n :: nat
  assume "length ([] :: string) < n"
  then show "parse_loop lib field metadata put n [] m = (m, At_end)" by (cases n) simp_all
qed

declare parse_loop.simps [simp del]

lemma reads_to_start: "reads_to lib field metadata put bs m m' \<Longrightarrow>
  parse_loop lib field metadata put (Suc (length bs)) bs m = (m', At_end)"
  by (simp add: reads_to_def)

context wire_format
begin

lemma reads_to_field:
  assumes "1 \<le> f" "f \<le> 15" "t < 8"
    and "field (of_nat (8 * f + t)) (body @ rest) m = Some (m1, Some rest)"
    and "reads_to lib field metadata put rest m1 m'"
  shows "reads_to lib field metadata put (wire_tag lib f t @ body @ rest) m m'"
  unfolding reads_to_def
proof (intro allI impI)
  fix n
  assume n: "length (wire_tag lib f t @ body @ rest) < n"
  then obtain k where k: "n = Suc k" "length rest < k"
    using tag_length [OF assms(1-3)] by (cases n) auto
  have "wire_tag lib f t \<noteq> []" using tag_length [OF assms(1-3)] by auto
  then show "parse_loop lib field metadata put n (wire_tag lib f t @ body @ rest) m = (m', At_end)"
    using k assms(4,5) tag_read [OF assms(1-3), of "body @ rest"] by (simp add: reads_to_def parse_loop.simps)
qed

lemma packed_size: "length (concat (map (wire_int32 lib) is)) = sum_list (map (int32_size lib) is)"
  "length (concat (map (wire_uint32 lib) us)) = sum_list (map (uint32_size lib) us)"
  "length (concat (map (wire_uint64 lib) ls)) = sum_list (map (uint64_size lib) ls)"
  by (simp_all add: length_concat comp_def int32_length uint32_length uint64_length)

lemma wire_not_empty: "wire_int32 lib i \<noteq> []" "wire_uint32 lib u \<noteq> []" "wire_uint64 lib l \<noteq> []"
  using int32_length [of i] uint32_length [of u] uint64_length [of l] by auto

lemma packed_empty: "concat (map (wire_int32 lib) is) = [] \<longleftrightarrow> is = []"
  "concat (map (wire_uint32 lib) us) = [] \<longleftrightarrow> us = []"
  "concat (map (wire_uint64 lib) ls) = [] \<longleftrightarrow> ls = []"
  by (cases "is"; cases us; cases ls; simp add: wire_not_empty)+

end

section \<open>Varints\<close>

fun varint :: "nat \<Rightarrow> string" where
  "varint n = (if n < 128 then [char_of n] else char_of (n mod 128 + 128) # varint (n div 128))"

declare varint.simps [simp del]

fun unvarint :: "string \<Rightarrow> (nat \<times> string) option" where
  "unvarint [] = None"
| "unvarint (b # bs) =
     (if (of_char b :: nat) < 128 then Some (of_char b, bs)
      else map_option (\<lambda>(n, rest). (of_char b - 128 + 128 * n, rest)) (unvarint bs))"

fun unvarints :: "nat \<Rightarrow> string \<Rightarrow> nat list option" where
  "unvarints 0 bs = (if bs = [] then Some [] else None)"
| "unvarints (Suc k) bs =
     (if bs = [] then Some []
      else (case unvarint bs of None \<Rightarrow> None | Some (n, rest) \<Rightarrow> map_option ((#) n) (unvarints k rest)))"

definition read_delimited :: "string \<Rightarrow> (string \<times> string) option" where
  "read_delimited bs =
     (case unvarint bs of
        None \<Rightarrow> None
      | Some (n, rest) \<Rightarrow> if length rest < n then None else Some (take n rest, drop n rest))"

definition read_packed :: "(nat \<Rightarrow> 'v) \<Rightarrow> string \<Rightarrow> 'v list \<times> string option" where
  "read_packed f bs =
     (case read_delimited bs of
        None \<Rightarrow> ([], None)
      | Some (d, rest) \<Rightarrow>
          (case unvarints (length d) d of None \<Rightarrow> ([], None) | Some ns \<Rightarrow> (map f ns, Some rest)))"

definition varint_wire :: "unit wire" where
  "varint_wire =
     \<lparr>wire_tag = (\<lambda>f t. varint (8 * f + t)), wire_varint32 = (\<lambda>v. varint (unat v)),
      wire_int32 = (\<lambda>v. varint (unat (scast v :: u64))), wire_uint32 = (\<lambda>v. varint (unat v)),
      wire_uint64 = (\<lambda>v. varint (unat v)), wire_enum = (\<lambda>v. varint (unat (scast v :: u64))),
      wire_string = (\<lambda>s. varint (length s) @ s),
      int32_size = (\<lambda>v. length (varint (unat (scast v :: u64)))), uint32_size = (\<lambda>v. length (varint (unat v))),
      uint64_size = (\<lambda>v. length (varint (unat v))), enum_size = (\<lambda>v. length (varint (unat (scast v :: u64)))),
      string_size = (\<lambda>s. length (varint (length s)) + length s),
      to_cached_size = of_nat, utf8 = (\<lambda>_. True),
      read_tag = (\<lambda>bs. map_option (\<lambda>(n, rest). (of_nat n, rest)) (unvarint bs)),
      read_varint = (\<lambda>bs. case unvarint bs of None \<Rightarrow> (0, None) | Some (n, rest) \<Rightarrow> (of_nat n, Some rest)),
      packed_int32 = read_packed of_nat, packed_uint32 = read_packed of_nat, packed_uint64 = read_packed of_nat,
      read_string = (\<lambda>bs. case read_delimited bs of None \<Rightarrow> ([], None) | Some (d, rest) \<Rightarrow> (d, Some rest)),
      no_unknown = (), have_unknown = (\<lambda>_. False), parse_unknown = (\<lambda>_ _ _. ((), None)),
      wire_unknown = (\<lambda>_. []), unknown_size = (\<lambda>_. 0), merge_unknown = (\<lambda>_ _. ())\<rparr>"

lemma unvarint_varint: "unvarint (varint n @ rest) = Some (n, rest)"
proof (induction n rule: varint.induct)
  case (1 n)
  show ?case
  proof (cases "n < 128")
    case True
    then show ?thesis by (subst varint.simps) simp
  next
    case False
    have "(of_char (char_of (n mod 128 + 128) :: char) :: nat) = n mod 128 + 128" by simp
    with False 1 show ?thesis by (subst varint.simps) simp
  qed
qed

lemma varint_not_empty: "varint n \<noteq> []"
  by (subst varint.simps) simp

lemma varint_small: "n < 128 \<Longrightarrow> varint n = [char_of n]"
  by (subst varint.simps) simp

lemma unvarints_varints:
  "length ns \<le> k \<Longrightarrow> unvarints k (concat (map varint ns)) = Some ns"
proof (induction ns arbitrary: k)
  case Nil
  then show ?case by (cases k) auto
next
  case (Cons n ns)
  then obtain k' where "k = Suc k'" "length ns \<le> k'" by (cases k) auto
  with Cons.IH show ?case by (simp add: unvarint_varint varint_not_empty)
qed

lemma length_concat_varints: "length ns \<le> length (concat (map varint ns))"
proof (induction ns)
  case (Cons n ns)
  have "1 \<le> length (varint n)" using varint_not_empty [of n] by (simp add: Suc_le_eq)
  with Cons show ?case by simp
qed simp

lemma read_delimited_varint: "read_delimited (varint (length d) @ d @ rest) = Some (d, rest)"
  by (simp add: read_delimited_def unvarint_varint)

lemma read_packed_varints:
  assumes "\<And>v. v \<in> set vs \<Longrightarrow> f (g v) = v"
  shows "read_packed f (varint (length (concat (map (\<lambda>v. varint (g v)) vs))) @
    concat (map (\<lambda>v. varint (g v)) vs) @ rest) = (vs, Some rest)"
proof -
  have e: "concat (map (\<lambda>v. varint (g v)) vs) = concat (map varint (map g vs))"
    by (simp add: comp_def)
  have "map f (map g vs) = vs" using assms by (simp add: map_idI)
  then show ?thesis
    using unvarints_varints [OF length_concat_varints, of "map g vs"]
    by (simp add: read_packed_def read_delimited_varint e del: map_map)
qed

lemma unat_of_length: "n < 2147483648 \<Longrightarrow> unat (word_of_nat n :: u32) = n"
  by (simp add: unsigned_of_nat take_bit_nat_eq_self)

lemma unat_of_int_length: "n < 2147483648 \<Longrightarrow> unat (scast (word_of_nat n :: i32) :: u64) = n"
  by transfer (simp add: signed_take_bit_int_eq_self take_bit_int_eq_self)

lemma narrowed_again: "word_of_nat (unat (scast (i :: i32) :: u64)) = i"
  by simp (transfer, simp add: take_bit_signed_take_bit)

lemma read_packed_int32s:
  "read_packed word_of_nat (varint (length (concat (map (\<lambda>v :: i32. varint (unat (scast v :: u64))) vs))) @
     concat (map (\<lambda>v. varint (unat (scast v :: u64))) vs) @ rest) = (vs, Some rest)"
  by (rule read_packed_varints) (rule narrowed_again)

interpretation varint: wire_format varint_wire
  by unfold_locales
    (simp_all add: varint_wire_def unvarint_varint varint_not_empty varint_small read_delimited_varint
      unat_of_length unat_of_int_length read_packed_int32s read_packed_varints)

end
