(* ===== verification/Messages.thy ===== *)
theory Messages
  imports Wire Zmq_Subscriber
begin

text \<open>
  The three messages the console exchanges with its clients, as \<open>message.pb.cpp\<close> handles them:
  \<open>TofWidthMessage\<close>, \<open>UimfRequestMessage\<close> and \<open>Message\<close>. A message keeps the
  sizes \<open>ByteSizeLong\<close> has computed, which the serialisers write; its unknown fields are a value
  of the library's type. Serialising appends to what has been written.
\<close>

section \<open>TofWidthMessage\<close>

record 'f tof_width_message =
  pusher_pulse_width :: u64
  tof_num_samples :: u64
  tof_cached_size :: i32
  tof_unknown :: 'f

definition new_tof_width :: "'f wire \<Rightarrow> 'f tof_width_message" where
  "new_tof_width lib =
     \<lparr>pusher_pulse_width = 0, tof_num_samples = 0, tof_cached_size = 0, tof_unknown = no_unknown lib\<rparr>"

definition tof_field :: "'f wire \<Rightarrow> 'f tof_width_message field_reader" where
  "tof_field lib tag bs m =
     (if drop_bit 3 tag = 1 \<and> tag AND 255 = 8
      then (case read_varint lib bs of (v, rest) \<Rightarrow> Some (m\<lparr>pusher_pulse_width := v\<rparr>, rest))
      else if drop_bit 3 tag = 2 \<and> tag AND 255 = 16
      then (case read_varint lib bs of (v, rest) \<Rightarrow> Some (m\<lparr>tof_num_samples := v\<rparr>, rest))
      else None)"

definition tof_parse :: "'f wire \<Rightarrow> string \<Rightarrow> 'f tof_width_message \<Rightarrow> 'f tof_width_message \<times> parse_status" where
  "tof_parse lib bs =
     parse_loop lib (tof_field lib) tof_unknown (\<lambda>u m. m\<lparr>tof_unknown := u\<rparr>) (Suc (length bs)) bs"

text \<open>A tagged number is left out when it is zero.\<close>

definition write_uint64 :: "'f wire \<Rightarrow> nat \<Rightarrow> u64 \<Rightarrow> string \<Rightarrow> string" where
  "write_uint64 lib f v out = (if v \<noteq> 0 then out @ wire_tag lib f varint_type @ wire_uint64 lib v else out)"

definition write_uint32 :: "'f wire \<Rightarrow> nat \<Rightarrow> u32 \<Rightarrow> string \<Rightarrow> string" where
  "write_uint32 lib f v out = (if v \<noteq> 0 then out @ wire_tag lib f varint_type @ wire_uint32 lib v else out)"

definition write_enum :: "'f wire \<Rightarrow> nat \<Rightarrow> i32 \<Rightarrow> string \<Rightarrow> string" where
  "write_enum lib f v out = (if v \<noteq> 0 then out @ wire_tag lib f varint_type @ wire_enum lib v else out)"

definition write_string :: "'f wire \<Rightarrow> nat \<Rightarrow> string \<Rightarrow> string \<Rightarrow> string" where
  "write_string lib f s out =
     (if 0 < length s then out @ wire_tag lib f length_delimited_type @ wire_string lib s else out)"

definition write_unknown :: "'f wire \<Rightarrow> 'f \<Rightarrow> string \<Rightarrow> string" where
  "write_unknown lib u out = (if have_unknown lib u then out @ wire_unknown lib u else out)"

definition tof_serialize :: "'f wire \<Rightarrow> 'f tof_width_message \<Rightarrow> string \<Rightarrow> string" where
  "tof_serialize lib m out =
     write_unknown lib (tof_unknown m)
       (write_uint64 lib 2 (tof_num_samples m)
         (write_uint64 lib 1 (pusher_pulse_width m) out))"

definition size_unknown :: "'f wire \<Rightarrow> 'f \<Rightarrow> nat" where
  "size_unknown lib u = (if have_unknown lib u then unknown_size lib u else 0)"

definition size_uint64 :: "'f wire \<Rightarrow> u64 \<Rightarrow> nat" where
  "size_uint64 lib v = (if v \<noteq> 0 then 1 + uint64_size lib v else 0)"

definition size_uint32 :: "'f wire \<Rightarrow> u32 \<Rightarrow> nat" where
  "size_uint32 lib v = (if v \<noteq> 0 then 1 + uint32_size lib v else 0)"

definition tof_byte_size :: "'f wire \<Rightarrow> 'f tof_width_message \<Rightarrow> nat \<times> 'f tof_width_message" where
  "tof_byte_size lib m =
     (let n = size_unknown lib (tof_unknown m) + size_uint64 lib (pusher_pulse_width m) +
        size_uint64 lib (tof_num_samples m) in
      (n, m\<lparr>tof_cached_size := to_cached_size lib n\<rparr>))"

text \<open>\<open>SerializeAsString\<close> of the library sizes a message and then serialises it.\<close>

definition tof_serialize_as_string :: "'f wire \<Rightarrow> 'f tof_width_message \<Rightarrow> string" where
  "tof_serialize_as_string lib m = tof_serialize lib (snd (tof_byte_size lib m)) []"

definition tof_merge :: "'f wire \<Rightarrow> 'f tof_width_message \<Rightarrow> 'f tof_width_message \<Rightarrow> 'f tof_width_message" where
  "tof_merge lib from m =
     (let m1 = m\<lparr>tof_unknown := merge_unknown lib (tof_unknown m) (tof_unknown from)\<rparr>;
          m2 = (if pusher_pulse_width from \<noteq> 0 then m1\<lparr>pusher_pulse_width := pusher_pulse_width from\<rparr> else m1) in
      if tof_num_samples from \<noteq> 0 then m2\<lparr>tof_num_samples := tof_num_samples from\<rparr> else m2)"

definition tof_clear :: "'f wire \<Rightarrow> 'f tof_width_message \<Rightarrow> 'f tof_width_message" where
  "tof_clear lib m = m\<lparr>pusher_pulse_width := 0, tof_num_samples := 0, tof_unknown := no_unknown lib\<rparr>"

definition tof_copy :: "'f wire \<Rightarrow> 'f tof_width_message \<Rightarrow> 'f tof_width_message \<Rightarrow> 'f tof_width_message" where
  "tof_copy lib from m = tof_merge lib from (tof_clear lib m)"

definition tof_swap :: "'f tof_width_message \<times> 'f tof_width_message \<Rightarrow> 'f tof_width_message \<times> 'f tof_width_message" where
  "tof_swap p =
     (case p of (a, b) \<Rightarrow>
        (a\<lparr>pusher_pulse_width := pusher_pulse_width b, tof_num_samples := tof_num_samples b, tof_unknown := tof_unknown b\<rparr>,
         b\<lparr>pusher_pulse_width := pusher_pulse_width a, tof_num_samples := tof_num_samples a, tof_unknown := tof_unknown a\<rparr>))"

section \<open>UimfRequestMessage\<close>

record 'f uimf_request_message =
  req_start_trigger :: u64
  req_nbr_samples :: u64
  req_frame_length :: u64
  req_nbr_accumulations :: u64
  req_frame_number :: u32
  req_offset_bins :: u32
  req_file_name :: string
  req_frame_type :: i32
  req_cached_size :: i32
  req_unknown :: 'f

definition new_uimf_request :: "'f wire \<Rightarrow> 'f uimf_request_message" where
  "new_uimf_request lib =
     \<lparr>req_start_trigger = 0, req_nbr_samples = 0, req_frame_length = 0, req_nbr_accumulations = 0,
      req_frame_number = 0, req_offset_bins = 0, req_file_name = [], req_frame_type = 0, req_cached_size = 0,
      req_unknown = no_unknown lib\<rparr>"

definition uimf_field :: "'f wire \<Rightarrow> 'f uimf_request_message field_reader" where
  "uimf_field lib tag bs m =
     (if drop_bit 3 tag = 1 \<and> tag AND 255 = 8
      then (case read_varint lib bs of (v, rest) \<Rightarrow> Some (m\<lparr>req_start_trigger := v\<rparr>, rest))
      else if drop_bit 3 tag = 2 \<and> tag AND 255 = 16
      then (case read_varint lib bs of (v, rest) \<Rightarrow> Some (m\<lparr>req_nbr_samples := v\<rparr>, rest))
      else if drop_bit 3 tag = 3 \<and> tag AND 255 = 24
      then (case read_varint lib bs of (v, rest) \<Rightarrow> Some (m\<lparr>req_frame_length := v\<rparr>, rest))
      else if drop_bit 3 tag = 4 \<and> tag AND 255 = 32
      then (case read_varint lib bs of (v, rest) \<Rightarrow> Some (m\<lparr>req_nbr_accumulations := v\<rparr>, rest))
      else if drop_bit 3 tag = 5 \<and> tag AND 255 = 40
      then (case read_varint lib bs of (v, rest) \<Rightarrow> Some (m\<lparr>req_frame_number := ucast v\<rparr>, rest))
      else if drop_bit 3 tag = 6 \<and> tag AND 255 = 48
      then (case read_varint lib bs of (v, rest) \<Rightarrow> Some (m\<lparr>req_offset_bins := ucast v\<rparr>, rest))
      else if drop_bit 3 tag = 7 \<and> tag AND 255 = 58
      then (case read_string lib bs of (s, rest) \<Rightarrow> Some (m\<lparr>req_file_name := s\<rparr>, rest))
      else if drop_bit 3 tag = 8 \<and> tag AND 255 = 64
      then (case read_varint lib bs of
          (v, None) \<Rightarrow> Some (m, None)
        | (v, Some rest) \<Rightarrow> Some (m\<lparr>req_frame_type := ucast v\<rparr>, Some rest))
      else None)"

definition uimf_parse :: "'f wire \<Rightarrow> string \<Rightarrow> 'f uimf_request_message \<Rightarrow> 'f uimf_request_message \<times> parse_status" where
  "uimf_parse lib bs =
     parse_loop lib (uimf_field lib) req_unknown (\<lambda>u m. m\<lparr>req_unknown := u\<rparr>) (Suc (length bs)) bs"

definition uimf_serialize :: "'f wire \<Rightarrow> 'f uimf_request_message \<Rightarrow> string \<Rightarrow> string" where
  "uimf_serialize lib m out =
     write_unknown lib (req_unknown m)
       (write_enum lib 8 (req_frame_type m)
         (write_string lib 7 (req_file_name m)
           (write_uint32 lib 6 (req_offset_bins m)
             (write_uint32 lib 5 (req_frame_number m)
               (write_uint64 lib 4 (req_nbr_accumulations m)
                 (write_uint64 lib 3 (req_frame_length m)
                   (write_uint64 lib 2 (req_nbr_samples m)
                     (write_uint64 lib 1 (req_start_trigger m) out))))))))"

definition uimf_byte_size :: "'f wire \<Rightarrow> 'f uimf_request_message \<Rightarrow> nat \<times> 'f uimf_request_message" where
  "uimf_byte_size lib m =
     (let n = size_unknown lib (req_unknown m) +
        (if 0 < length (req_file_name m) then 1 + string_size lib (req_file_name m) else 0) +
        size_uint64 lib (req_start_trigger m) + size_uint64 lib (req_nbr_samples m) +
        size_uint64 lib (req_frame_length m) + size_uint64 lib (req_nbr_accumulations m) +
        size_uint32 lib (req_frame_number m) + size_uint32 lib (req_offset_bins m) +
        (if req_frame_type m \<noteq> 0 then 1 + enum_size lib (req_frame_type m) else 0) in
      (n, m\<lparr>req_cached_size := to_cached_size lib n\<rparr>))"

definition uimf_serialize_as_string :: "'f wire \<Rightarrow> 'f uimf_request_message \<Rightarrow> string" where
  "uimf_serialize_as_string lib m = uimf_serialize lib (snd (uimf_byte_size lib m)) []"

definition uimf_merge :: "'f wire \<Rightarrow> 'f uimf_request_message \<Rightarrow> 'f uimf_request_message \<Rightarrow> 'f uimf_request_message" where
  "uimf_merge lib from m =
     m\<lparr>req_unknown := merge_unknown lib (req_unknown m) (req_unknown from),
       req_file_name := (if 0 < length (req_file_name from) then req_file_name from else req_file_name m),
       req_start_trigger := (if req_start_trigger from \<noteq> 0 then req_start_trigger from else req_start_trigger m),
       req_nbr_samples := (if req_nbr_samples from \<noteq> 0 then req_nbr_samples from else req_nbr_samples m),
       req_frame_length := (if req_frame_length from \<noteq> 0 then req_frame_length from else req_frame_length m),
       req_nbr_accumulations :=
         (if req_nbr_accumulations from \<noteq> 0 then req_nbr_accumulations from else req_nbr_accumulations m),
       req_frame_number := (if req_frame_number from \<noteq> 0 then req_frame_number from else req_frame_number m),
       req_offset_bins := (if req_offset_bins from \<noteq> 0 then req_offset_bins from else req_offset_bins m),
       req_frame_type := (if req_frame_type from \<noteq> 0 then req_frame_type from else req_frame_type m)\<rparr>"

definition uimf_clear :: "'f wire \<Rightarrow> 'f uimf_request_message \<Rightarrow> 'f uimf_request_message" where
  "uimf_clear lib m =
     m\<lparr>req_file_name := [], req_start_trigger := 0, req_nbr_samples := 0, req_frame_length := 0,
       req_nbr_accumulations := 0, req_frame_number := 0, req_offset_bins := 0, req_frame_type := 0,
       req_unknown := no_unknown lib\<rparr>"

definition uimf_copy :: "'f wire \<Rightarrow> 'f uimf_request_message \<Rightarrow> 'f uimf_request_message \<Rightarrow> 'f uimf_request_message" where
  "uimf_copy lib from m = uimf_merge lib from (uimf_clear lib m)"

definition uimf_swap :: "'f uimf_request_message \<times> 'f uimf_request_message \<Rightarrow>
    'f uimf_request_message \<times> 'f uimf_request_message" where
  "uimf_swap p =
     (case p of (a, b) \<Rightarrow>
        (b\<lparr>req_cached_size := req_cached_size a\<rparr>, a\<lparr>req_cached_size := req_cached_size b\<rparr>))"

section \<open>Message\<close>

record 'f message_pb = message +
  mz_cached_byte_size :: i32
  tic_cached_byte_size :: i32
  time_stamps_cached_byte_size :: i32
  message_cached_size :: i32
  message_unknown :: 'f

definition new_message :: "'f wire \<Rightarrow> 'f message_pb" where
  "new_message lib =
     \<lparr>msg_mz = [], msg_tic = [], msg_time_stamps = [], mz_cached_byte_size = 0, tic_cached_byte_size = 0,
      time_stamps_cached_byte_size = 0, message_cached_size = 0, message_unknown = no_unknown lib\<rparr>"

definition message_field :: "'f wire \<Rightarrow> 'f message_pb field_reader" where
  "message_field lib tag bs m =
     (if drop_bit 3 tag = 1 \<and> tag AND 255 = 10
      then (case packed_int32 lib bs of (vs, rest) \<Rightarrow> Some (m\<lparr>msg_mz := msg_mz m @ vs\<rparr>, rest))
      else if drop_bit 3 tag = 1 \<and> tag AND 255 = 8
      then (case read_varint lib bs of (v, rest) \<Rightarrow> Some (m\<lparr>msg_mz := msg_mz m @ [ucast v]\<rparr>, rest))
      else if drop_bit 3 tag = 2 \<and> tag AND 255 = 18
      then (case packed_uint32 lib bs of (vs, rest) \<Rightarrow> Some (m\<lparr>msg_tic := msg_tic m @ vs\<rparr>, rest))
      else if drop_bit 3 tag = 2 \<and> tag AND 255 = 16
      then (case read_varint lib bs of (v, rest) \<Rightarrow> Some (m\<lparr>msg_tic := msg_tic m @ [ucast v]\<rparr>, rest))
      else if drop_bit 3 tag = 3 \<and> tag AND 255 = 26
      then (case packed_uint64 lib bs of (vs, rest) \<Rightarrow> Some (m\<lparr>msg_time_stamps := msg_time_stamps m @ vs\<rparr>, rest))
      else if drop_bit 3 tag = 3 \<and> tag AND 255 = 24
      then (case read_varint lib bs of (v, rest) \<Rightarrow> Some (m\<lparr>msg_time_stamps := msg_time_stamps m @ [v]\<rparr>, rest))
      else None)"

definition message_parse :: "'f wire \<Rightarrow> string \<Rightarrow> 'f message_pb \<Rightarrow> 'f message_pb \<times> parse_status" where
  "message_parse lib bs =
     parse_loop lib (message_field lib) message_unknown (\<lambda>u m. m\<lparr>message_unknown := u\<rparr>) (Suc (length bs)) bs"

text \<open>
  A packed field is its tag, the size kept for it and its values. The stream serialiser writes one value
  at a time, the array serialiser hands the whole field to the library.
\<close>

definition write_packed :: "'f wire \<Rightarrow> nat \<Rightarrow> i32 \<Rightarrow> ('v \<Rightarrow> string) \<Rightarrow> 'v list \<Rightarrow> string \<Rightarrow> string" where
  "write_packed lib f cached_size write vs out =
     (if 0 < length vs
      then out @ wire_tag lib f length_delimited_type @ wire_varint32 lib (ucast cached_size) @ concat (map write vs)
      else out)"

fun stream_values :: "('v \<Rightarrow> string) \<Rightarrow> 'v list \<Rightarrow> string \<Rightarrow> string" where
  "stream_values write [] out = out"
| "stream_values write (v # vs) out = stream_values write vs (out @ write v)"

definition stream_packed :: "'f wire \<Rightarrow> nat \<Rightarrow> i32 \<Rightarrow> ('v \<Rightarrow> string) \<Rightarrow> 'v list \<Rightarrow> string \<Rightarrow> string" where
  "stream_packed lib f cached_size write vs out =
     stream_values write vs
       (if 0 < length vs
        then (out @ wire_tag lib f length_delimited_type) @ wire_varint32 lib (ucast cached_size)
        else out)"

definition message_serialize :: "'f wire \<Rightarrow> 'f message_pb \<Rightarrow> string \<Rightarrow> string" where
  "message_serialize lib m out =
     write_unknown lib (message_unknown m)
       (write_packed lib 3 (time_stamps_cached_byte_size m) (wire_uint64 lib) (msg_time_stamps m)
         (write_packed lib 2 (tic_cached_byte_size m) (wire_uint32 lib) (msg_tic m)
           (write_packed lib 1 (mz_cached_byte_size m) (wire_int32 lib) (msg_mz m) out)))"

definition message_serialize_stream :: "'f wire \<Rightarrow> 'f message_pb \<Rightarrow> string \<Rightarrow> string" where
  "message_serialize_stream lib m out =
     write_unknown lib (message_unknown m)
       (stream_packed lib 3 (time_stamps_cached_byte_size m) (wire_uint64 lib) (msg_time_stamps m)
         (stream_packed lib 2 (tic_cached_byte_size m) (wire_uint32 lib) (msg_tic m)
           (stream_packed lib 1 (mz_cached_byte_size m) (wire_int32 lib) (msg_mz m) out)))"

definition size_packed :: "'f wire \<Rightarrow> nat \<Rightarrow> nat" where
  "size_packed lib data_size = (if 0 < data_size then 1 + int32_size lib (of_nat data_size) else 0) + data_size"

definition message_byte_size :: "'f wire \<Rightarrow> 'f message_pb \<Rightarrow> nat \<times> 'f message_pb" where
  "message_byte_size lib m =
     (let d1 = sum_list (map (int32_size lib) (msg_mz m));
          d2 = sum_list (map (uint32_size lib) (msg_tic m));
          d3 = sum_list (map (uint64_size lib) (msg_time_stamps m));
          n = size_unknown lib (message_unknown m) + size_packed lib d1 + size_packed lib d2 + size_packed lib d3 in
      (n, m\<lparr>mz_cached_byte_size := to_cached_size lib d1, tic_cached_byte_size := to_cached_size lib d2,
            time_stamps_cached_byte_size := to_cached_size lib d3, message_cached_size := to_cached_size lib n\<rparr>))"

definition message_serialize_as_string :: "'f wire \<Rightarrow> 'f message_pb \<Rightarrow> string" where
  "message_serialize_as_string lib m = message_serialize lib (snd (message_byte_size lib m)) []"

definition message_merge :: "'f wire \<Rightarrow> 'f message_pb \<Rightarrow> 'f message_pb \<Rightarrow> 'f message_pb" where
  "message_merge lib from m =
     m\<lparr>message_unknown := merge_unknown lib (message_unknown m) (message_unknown from),
       msg_mz := msg_mz m @ msg_mz from, msg_tic := msg_tic m @ msg_tic from,
       msg_time_stamps := msg_time_stamps m @ msg_time_stamps from\<rparr>"

definition message_clear :: "'f wire \<Rightarrow> 'f message_pb \<Rightarrow> 'f message_pb" where
  "message_clear lib m = m\<lparr>msg_mz := [], msg_tic := [], msg_time_stamps := [], message_unknown := no_unknown lib\<rparr>"

definition message_copy :: "'f wire \<Rightarrow> 'f message_pb \<Rightarrow> 'f message_pb \<Rightarrow> 'f message_pb" where
  "message_copy lib from m = message_merge lib from (message_clear lib m)"

definition message_swap :: "'f message_pb \<times> 'f message_pb \<Rightarrow> 'f message_pb \<times> 'f message_pb" where
  "message_swap p =
     (case p of (a, b) \<Rightarrow>
        (a\<lparr>msg_mz := msg_mz b, msg_tic := msg_tic b, msg_time_stamps := msg_time_stamps b,
           message_unknown := message_unknown b\<rparr>,
         b\<lparr>msg_mz := msg_mz a, msg_tic := msg_tic a, msg_time_stamps := msg_time_stamps a,
           message_unknown := message_unknown a\<rparr>))"

end
