(* ===== verification/Messages_Roundtrip.thy ===== *)
theory Messages_Roundtrip
  imports Messages
begin

text \<open>
  What is serialised is parsed back: the contract of each message with its clients, from the laws of the
  wire format alone. The stream and the array serialiser agree, and \<open>ByteSizeLong\<close> is the length of
  what they write.
\<close>

section \<open>Pieces of a message\<close>

lemma write_appends:
  "NO_MATCH [] out \<Longrightarrow> write_uint64 lib f v out = out @ write_uint64 lib f v []"
  "NO_MATCH [] out \<Longrightarrow> write_uint32 lib f w out = out @ write_uint32 lib f w []"
  "NO_MATCH [] out \<Longrightarrow> write_enum lib f e out = out @ write_enum lib f e []"
  "NO_MATCH [] out \<Longrightarrow> write_string lib f s out = out @ write_string lib f s []"
  "NO_MATCH [] out \<Longrightarrow> write_packed lib f c wr vs out = out @ write_packed lib f c wr vs []"
  "NO_MATCH [] out \<Longrightarrow> write_unknown lib u out = out @ write_unknown lib u []"
  by (simp_all add: write_uint64_def write_uint32_def write_enum_def write_string_def write_packed_def write_unknown_def)

lemma stream_values_concat: "stream_values write vs out = out @ concat (map write vs)"
  by (induction vs arbitrary: out) auto

lemma stream_packed_eq: "stream_packed lib f c write vs out = write_packed lib f c write vs out"
  by (simp add: stream_packed_def write_packed_def stream_values_concat)

lemma narrowed_values: "ucast (ucast (w :: u32) :: u64) = w" "ucast (scast (e :: i32) :: u64) = e"
  by (transfer, simp add: take_bit_signed_take_bit)+

context wire_format
begin

lemma reads_to_uint64:
  assumes "1 \<le> f" "f \<le> 15" "field (of_nat (8 * f)) (wire_uint64 lib v @ rest) m = Some (m1, Some rest)" "v = 0 \<Longrightarrow> m1 = m"
    and "reads_to lib field md put rest m1 m'"
  shows "reads_to lib field md put (write_uint64 lib f v [] @ rest) m m'"
  using reads_to_field [of f 0 field "wire_uint64 lib v" rest m m1 md put m'] assms
  by (auto simp: write_uint64_def varint_type_def)

lemma reads_to_uint32:
  assumes "1 \<le> f" "f \<le> 15" "field (of_nat (8 * f)) (wire_uint32 lib v @ rest) m = Some (m1, Some rest)" "v = 0 \<Longrightarrow> m1 = m"
    and "reads_to lib field md put rest m1 m'"
  shows "reads_to lib field md put (write_uint32 lib f v [] @ rest) m m'"
  using reads_to_field [of f 0 field "wire_uint32 lib v" rest m m1 md put m'] assms
  by (auto simp: write_uint32_def varint_type_def)

lemma reads_to_enum:
  assumes "1 \<le> f" "f \<le> 15" "field (of_nat (8 * f)) (wire_enum lib v @ rest) m = Some (m1, Some rest)" "v = 0 \<Longrightarrow> m1 = m"
    and "reads_to lib field md put rest m1 m'"
  shows "reads_to lib field md put (write_enum lib f v [] @ rest) m m'"
  using reads_to_field [of f 0 field "wire_enum lib v" rest m m1 md put m'] assms
  by (auto simp: write_enum_def varint_type_def)

lemma reads_to_string:
  assumes "1 \<le> f" "f \<le> 15" "field (of_nat (8 * f + 2)) (wire_string lib s @ rest) m = Some (m1, Some rest)" "s = [] \<Longrightarrow> m1 = m"
    and "reads_to lib field md put rest m1 m'"
  shows "reads_to lib field md put (write_string lib f s [] @ rest) m m'"
  using reads_to_field [of f 2 field "wire_string lib s" rest m m1 md put m'] assms
  by (auto simp: write_string_def length_delimited_type_def)

lemma reads_to_packed:
  assumes "1 \<le> f" "f \<le> 15" "vs = [] \<Longrightarrow> m1 = m"
    and "field (of_nat (8 * f + 2)) (wire_varint32 lib (ucast c) @ concat (map write vs) @ rest) m = Some (m1, Some rest)"
    and "reads_to lib field md put rest m1 m'"
  shows "reads_to lib field md put (write_packed lib f c write vs [] @ rest) m m'"
  using reads_to_field [of f 2 field "wire_varint32 lib (ucast c) @ concat (map write vs)" rest m m1 md put m'] assms
  by (auto simp: write_packed_def length_delimited_type_def)

lemma piece_lengths:
  "1 \<le> f \<Longrightarrow> f \<le> 15 \<Longrightarrow> length (write_uint64 lib f v []) = size_uint64 lib v"
  "1 \<le> f \<Longrightarrow> f \<le> 15 \<Longrightarrow> length (write_uint32 lib f w []) = size_uint32 lib w"
  "1 \<le> f \<Longrightarrow> f \<le> 15 \<Longrightarrow> length (write_enum lib f e []) = (if e \<noteq> 0 then 1 + enum_size lib e else 0)"
  "1 \<le> f \<Longrightarrow> f \<le> 15 \<Longrightarrow> length (write_string lib f s []) = (if 0 < length s then 1 + string_size lib s else 0)"
  "length (write_unknown lib u []) = size_unknown lib u"
  by (simp_all add: write_uint64_def write_uint32_def write_enum_def write_string_def write_unknown_def
      size_uint64_def size_uint32_def size_unknown_def tag_length uint64_length uint32_length enum_length
      string_length unknown_length varint_type_def length_delimited_type_def)

section \<open>TofWidthMessage and UimfRequestMessage\<close>

lemma tof_fields:
  "tof_field lib 8 (wire_uint64 lib v @ rest) m = Some (m\<lparr>pusher_pulse_width := v\<rparr>, Some rest)"
  "tof_field lib 16 (wire_uint64 lib v @ rest) m = Some (m\<lparr>tof_num_samples := v\<rparr>, Some rest)"
  by (simp_all add: tof_field_def uint64_read)

lemma tof_parses:
  assumes "tof_unknown m = no_unknown lib"
  shows "tof_parse lib (tof_serialize_as_string lib m) (new_tof_width lib) = (m\<lparr>tof_cached_size := 0\<rparr>, At_end)"
proof -
  have bytes: "tof_serialize_as_string lib m =
      write_uint64 lib 1 (pusher_pulse_width m) [] @ write_uint64 lib 2 (tof_num_samples m) [] @ []"
    by (simp add: tof_serialize_as_string_def tof_byte_size_def tof_serialize_def Let_def write_unknown_def none_unknown
        assms write_appends)
  have "reads_to lib (tof_field lib) tof_unknown (\<lambda>u m. m\<lparr>tof_unknown := u\<rparr>) (tof_serialize_as_string lib m)
      (new_tof_width lib) (m\<lparr>tof_cached_size := 0\<rparr>)"
    unfolding bytes
    by (rule reads_to_uint64, simp, simp, simp add: tof_fields del: append_Nil2, simp add: new_tof_width_def,
        rule reads_to_uint64, simp, simp, simp add: tof_fields del: append_Nil2, simp add: new_tof_width_def)
      (use assms in \<open>cases m; simp add: new_tof_width_def reads_to_nothing\<close>)
  from reads_to_start [OF this] show ?thesis by (simp add: tof_parse_def)
qed

lemma uimf_fields:
  "uimf_field lib 8 (wire_uint64 lib v @ rest) m = Some (m\<lparr>req_start_trigger := v\<rparr>, Some rest)"
  "uimf_field lib 16 (wire_uint64 lib v @ rest) m = Some (m\<lparr>req_nbr_samples := v\<rparr>, Some rest)"
  "uimf_field lib 24 (wire_uint64 lib v @ rest) m = Some (m\<lparr>req_frame_length := v\<rparr>, Some rest)"
  "uimf_field lib 32 (wire_uint64 lib v @ rest) m = Some (m\<lparr>req_nbr_accumulations := v\<rparr>, Some rest)"
  "uimf_field lib 40 (wire_uint32 lib w @ rest) m = Some (m\<lparr>req_frame_number := w\<rparr>, Some rest)"
  "uimf_field lib 48 (wire_uint32 lib w @ rest) m = Some (m\<lparr>req_offset_bins := w\<rparr>, Some rest)"
  "utf8 lib s \<Longrightarrow> length s < 2147483648 \<Longrightarrow>
     uimf_field lib 58 (wire_string lib s @ rest) m = Some (m\<lparr>req_file_name := s\<rparr>, Some rest)"
  "uimf_field lib 64 (wire_enum lib e @ rest) m = Some (m\<lparr>req_frame_type := e\<rparr>, Some rest)"
  by (simp_all add: uimf_field_def uint64_read uint32_read string_read enum_read narrowed_values)

lemma uimf_parses:
  assumes "req_unknown m = no_unknown lib" "utf8 lib (req_file_name m)" "length (req_file_name m) < 2147483648"
  shows "uimf_parse lib (uimf_serialize_as_string lib m) (new_uimf_request lib) = (m\<lparr>req_cached_size := 0\<rparr>, At_end)"
proof -
  have bytes: "uimf_serialize_as_string lib m =
      write_uint64 lib 1 (req_start_trigger m) [] @ write_uint64 lib 2 (req_nbr_samples m) [] @
      write_uint64 lib 3 (req_frame_length m) [] @ write_uint64 lib 4 (req_nbr_accumulations m) [] @
      write_uint32 lib 5 (req_frame_number m) [] @ write_uint32 lib 6 (req_offset_bins m) [] @
      write_string lib 7 (req_file_name m) [] @ write_enum lib 8 (req_frame_type m) [] @ []"
    by (simp add: uimf_serialize_as_string_def uimf_byte_size_def uimf_serialize_def Let_def write_unknown_def
        none_unknown assms(1) write_appends)
  have "reads_to lib (uimf_field lib) req_unknown (\<lambda>u m. m\<lparr>req_unknown := u\<rparr>) (uimf_serialize_as_string lib m)
      (new_uimf_request lib) (m\<lparr>req_cached_size := 0\<rparr>)"
    unfolding bytes
    by (rule reads_to_uint64, simp, simp, simp add: uimf_fields del: append_Nil2, simp add: new_uimf_request_def)+
      (rule reads_to_uint32, simp, simp, simp add: uimf_fields del: append_Nil2, simp add: new_uimf_request_def,
       rule reads_to_uint32, simp, simp, simp add: uimf_fields del: append_Nil2, simp add: new_uimf_request_def,
       rule reads_to_string, simp, simp, simp add: uimf_fields assms del: append_Nil2, simp add: new_uimf_request_def,
       rule reads_to_enum, simp, simp, simp add: uimf_fields del: append_Nil2, simp add: new_uimf_request_def,
       use assms in \<open>cases m; simp add: new_uimf_request_def reads_to_nothing\<close>)
  from reads_to_start [OF this] show ?thesis by (simp add: uimf_parse_def)
qed

lemma uimf_length: "length (uimf_serialize_as_string lib m) = fst (uimf_byte_size lib m)"
  by (simp add: uimf_serialize_as_string_def uimf_byte_size_def uimf_serialize_def Let_def write_appends piece_lengths)

section \<open>Message\<close>

lemma packed_fields:
  "length (concat (map (wire_int32 lib) xs)) < 2147483648 \<Longrightarrow>
   message_field lib 10 (wire_varint32 lib (ucast (to_cached_size lib (length (concat (map (wire_int32 lib) xs))))) @
     concat (map (wire_int32 lib) xs) @ rest) m = Some (m\<lparr>msg_mz := msg_mz m @ xs\<rparr>, Some rest)"
  "length (concat (map (wire_uint32 lib) ys)) < 2147483648 \<Longrightarrow>
   message_field lib 18 (wire_varint32 lib (ucast (to_cached_size lib (length (concat (map (wire_uint32 lib) ys))))) @
     concat (map (wire_uint32 lib) ys) @ rest) m = Some (m\<lparr>msg_tic := msg_tic m @ ys\<rparr>, Some rest)"
  "length (concat (map (wire_uint64 lib) zs)) < 2147483648 \<Longrightarrow>
   message_field lib 26 (wire_varint32 lib (ucast (to_cached_size lib (length (concat (map (wire_uint64 lib) zs))))) @
     concat (map (wire_uint64 lib) zs) @ rest) m = Some (m\<lparr>msg_time_stamps := msg_time_stamps m @ zs\<rparr>, Some rest)"
  by (simp_all add: message_field_def cached int32s_read uint32s_read uint64s_read)

lemma size_packed_length:
  assumes "length (concat (map write vs)) < 2147483648" "1 \<le> f" "f \<le> 15"
    and "concat (map write vs) = [] \<longleftrightarrow> vs = []"
  shows "length (write_packed lib f (to_cached_size lib (length (concat (map write vs)))) write vs []) =
    size_packed lib (length (concat (map write vs)))"
proof -
  let ?n = "length (concat (map write vs))"
  have "wire_varint32 lib (ucast (of_nat ?n :: i32)) = wire_varint32 lib (of_nat ?n)" by simp
  then show ?thesis
    using assms varint32_length [OF assms(1)] cached [OF assms(1)]
    by (auto simp: write_packed_def size_packed_def length_delimited_type_def tag_length)
qed

lemma sized_message:
  "snd (message_byte_size lib m) =
     m\<lparr>mz_cached_byte_size := to_cached_size lib (length (concat (map (wire_int32 lib) (msg_mz m)))),
       tic_cached_byte_size := to_cached_size lib (length (concat (map (wire_uint32 lib) (msg_tic m)))),
       time_stamps_cached_byte_size := to_cached_size lib (length (concat (map (wire_uint64 lib) (msg_time_stamps m)))),
       message_cached_size := to_cached_size lib (fst (message_byte_size lib m))\<rparr>"
  by (simp add: message_byte_size_def Let_def packed_size)

lemma fields_within:
  assumes "fst (message_byte_size lib m) < 2147483648"
  shows "length (concat (map (wire_int32 lib) (msg_mz m))) < 2147483648"
    "length (concat (map (wire_uint32 lib) (msg_tic m))) < 2147483648"
    "length (concat (map (wire_uint64 lib) (msg_time_stamps m))) < 2147483648"
  using assms by (simp_all add: message_byte_size_def Let_def packed_size size_packed_def)

lemma message_parses:
  assumes "message_unknown m = no_unknown lib" "fst (message_byte_size lib m) < 2147483648"
  shows "message_parse lib (message_serialize_as_string lib m) (new_message lib) =
    (m\<lparr>mz_cached_byte_size := 0, tic_cached_byte_size := 0, time_stamps_cached_byte_size := 0, message_cached_size := 0\<rparr>,
     At_end)"
    (is "_ = (?m, _)")
proof -
  note within = fields_within [OF assms(2)]
  let ?c = "\<lambda>wr vs. to_cached_size lib (length (concat (map wr vs)))"
  have bytes: "message_serialize_as_string lib m =
      write_packed lib 1 (?c (wire_int32 lib) (msg_mz m)) (wire_int32 lib) (msg_mz m) [] @
      write_packed lib 2 (?c (wire_uint32 lib) (msg_tic m)) (wire_uint32 lib) (msg_tic m) [] @
      write_packed lib 3 (?c (wire_uint64 lib) (msg_time_stamps m)) (wire_uint64 lib) (msg_time_stamps m) [] @ []"
    by (simp add: message_serialize_as_string_def sized_message message_serialize_def write_unknown_def none_unknown
        assms(1) write_appends)
  let ?reads = "reads_to lib (message_field lib) message_unknown (\<lambda>u m. m\<lparr>message_unknown := u\<rparr>)"
  let ?m1 = "(new_message lib)\<lparr>msg_mz := msg_mz m\<rparr>"
  let ?m2 = "?m1\<lparr>msg_tic := msg_tic m\<rparr>"
  have m: "?m2\<lparr>msg_time_stamps := msg_time_stamps m\<rparr> = ?m"
    using assms(1) by (cases m) (simp add: new_message_def)
  have last: "?m = ?m2" if "msg_time_stamps m = []"
    using assms(1) that by (cases m) (simp add: new_message_def)
  have empty: "msg_time_stamps ?m2 = []" "msg_tic ?m1 = []" "msg_mz (new_message lib) = []"
    by (simp_all add: new_message_def)
  have times: "?reads (write_packed lib 3 (?c (wire_uint64 lib) (msg_time_stamps m)) (wire_uint64 lib) (msg_time_stamps m) [] @ [])
      ?m2 ?m"
    by (rule reads_to_packed [OF _ _ _ _ reads_to_nothing])
      (use packed_fields(3) [OF within(3), of "[]" ?m2] m last empty in \<open>simp_all del: append_Nil2\<close>)
  have tics: "?reads (write_packed lib 2 (?c (wire_uint32 lib) (msg_tic m)) (wire_uint32 lib) (msg_tic m) [] @
      write_packed lib 3 (?c (wire_uint64 lib) (msg_time_stamps m)) (wire_uint64 lib) (msg_time_stamps m) [] @ []) ?m1 ?m"
    by (rule reads_to_packed [OF _ _ _ _ times])
      (use packed_fields(2) [OF within(2), of _ ?m1] in \<open>simp_all add: new_message_def del: append_Nil2\<close>)
  have "?reads (message_serialize_as_string lib m) (new_message lib) ?m"
    unfolding bytes
    by (rule reads_to_packed [OF _ _ _ _ tics])
      (use packed_fields(1) [OF within(1), of _ "new_message lib"] in \<open>simp_all add: new_message_def del: append_Nil2\<close>)
  from reads_to_start [OF this] show ?thesis by (simp add: message_parse_def)
qed

lemma message_length:
  assumes "fst (message_byte_size lib m) < 2147483648"
  shows "length (message_serialize_as_string lib m) = fst (message_byte_size lib m)"
proof -
  note within = fields_within [OF assms]
  have "length (message_serialize_as_string lib m) =
      size_packed lib (length (concat (map (wire_int32 lib) (msg_mz m)))) +
      size_packed lib (length (concat (map (wire_uint32 lib) (msg_tic m)))) +
      size_packed lib (length (concat (map (wire_uint64 lib) (msg_time_stamps m)))) + size_unknown lib (message_unknown m)"
    using size_packed_length [OF within(1) _ _ packed_empty(1), of 1] size_packed_length [OF within(2) _ _ packed_empty(2), of 2]
      size_packed_length [OF within(3) _ _ packed_empty(3), of 3]
    by (simp add: message_serialize_as_string_def sized_message message_serialize_def write_appends piece_lengths packed_empty)
  then show ?thesis by (simp add: message_byte_size_def Let_def packed_size)
qed

end

section \<open>The body of a data message\<close>

text \<open>
  What the data topic carries: the message without cached sizes, sized, serialised and compressed. The
  compression of \<open>snappy\<close> is a parameter.
\<close>

definition as_message_pb :: "'f wire \<Rightarrow> message \<Rightarrow> 'f message_pb" where
  "as_message_pb lib msg =
     (new_message lib)\<lparr>msg_mz := msg_mz msg, msg_tic := msg_tic msg, msg_time_stamps := msg_time_stamps msg\<rparr>"

definition encode_message :: "'f wire \<Rightarrow> (string \<Rightarrow> string) \<Rightarrow> message \<Rightarrow> string" where
  "encode_message lib compress msg = compress (message_serialize_as_string lib (as_message_pb lib msg))"

section \<open>Properties\<close>

text \<open>C11: a frame request is read back by the console as the request the client wrote, whichever of its fields
  are zero, and \<open>ByteSizeLong\<close> is the length of what was written.\<close>

theorem uimf_request_roundtrip:
  assumes "wire_format lib" "req_unknown m = no_unknown lib" "utf8 lib (req_file_name m)"
    and "length (req_file_name m) < 2147483648"
  shows "uimf_parse lib (uimf_serialize_as_string lib m) (new_uimf_request lib) = (m\<lparr>req_cached_size := 0\<rparr>, At_end) \<and>
    length (uimf_serialize_as_string lib m) = fst (uimf_byte_size lib m)"
  using wire_format.uimf_parses [OF assms] wire_format.uimf_length [OF assms(1)] by simp

definition small_request :: "unit uimf_request_message" where
  "small_request =
     \<lparr>req_start_trigger = 0, req_nbr_samples = 300, req_frame_length = 1000, req_nbr_accumulations = 1,
      req_frame_number = 7, req_offset_bins = 0, req_file_name = ''a.uimf'', req_frame_type = - 1,
      req_cached_size = 5, req_unknown = ()\<rparr>"

theorem uimf_request_roundtrip_witness:
  "uimf_parse varint_wire (uimf_serialize_as_string varint_wire small_request) (new_uimf_request varint_wire) =
     (small_request\<lparr>req_cached_size := 0\<rparr>, At_end) \<and>
   length (uimf_serialize_as_string varint_wire small_request) = fst (uimf_byte_size varint_wire small_request)"
  by (rule uimf_request_roundtrip [OF varint.wire_format_axioms]) (simp_all add: varint_wire_def small_request_def)

text \<open>C34: the two serialisers of a sized \<open>Message\<close> write the same octets, as many as
  \<open>ByteSizeLong\<close> said, whatever the sizes it kept before.\<close>

theorem message_serializers_agree:
  assumes "wire_format lib" "fst (message_byte_size lib m) < 2147483648"
  shows "message_serialize_stream lib (snd (message_byte_size lib m)) [] = message_serialize_as_string lib m \<and>
    length (message_serialize_as_string lib m) = fst (message_byte_size lib m)"
  using wire_format.message_length [OF assms]
  by (simp add: message_serialize_as_string_def message_serialize_stream_def message_serialize_def stream_packed_eq)

lemmas small_sizes = message_byte_size_def as_message_pb_def new_message_def varint_wire_def varint.simps
  size_unknown_def size_packed_def Let_def

theorem message_serializers_agree_witness:
  "let m = as_message_pb varint_wire \<lparr>msg_mz = [5, 100, 300], msg_tic = [], msg_time_stamps = [9]\<rparr> in
   message_serialize_stream varint_wire (snd (message_byte_size varint_wire m)) [] = message_serialize_as_string varint_wire m \<and>
   length (message_serialize_as_string varint_wire m) = fst (message_byte_size varint_wire m)"
  unfolding Let_def by (rule message_serializers_agree [OF varint.wire_format_axioms]) (simp add: small_sizes)

text \<open>C12: the body of the message the subscriber publishes for a batch inside its vector, uncompressed and
  parsed, is the bin-by-bin sum with the total ion current and the time of every scan.\<close>

theorem published_sums_read_back:
  assumes "wire_format lib" "\<And>bs. uncompress (compress bs) = Some bs"
    and "batch_inside (length (data_vector s)) (encoded_data item)" "length (data_vector s) < 2147483647"
    and "msg = \<lparr>msg_mz = map (column_sum (batch_bins (encoded_data item))) [0 ..< length (data_vector s)],
      msg_tic = map (\<lambda>er. ucast (er_tic er)) (encoded_data item),
      msg_time_stamps = map er_timestamp (encoded_data item)\<rparr>"
    and "fst (message_byte_size lib (as_message_pb lib msg)) < 2147483648"
  shows "\<exists>body s'. zmq_on_notify (encode_message lib compress) item s =
      Inr (check_alignment s item @ [(''data'', body)], s') \<and>
    map_option (\<lambda>bs. message_parse lib bs (new_message lib)) (uncompress body) = Some (as_message_pb lib msg, At_end)"
proof -
  have "message_unknown (as_message_pb lib msg) = no_unknown lib"
    by (simp add: as_message_pb_def new_message_def)
  from wire_format.message_parses [OF assms(1) this assms(6)]
  have "message_parse lib (message_serialize_as_string lib (as_message_pb lib msg)) (new_message lib) =
      (as_message_pb lib msg, At_end)"
    by (simp add: as_message_pb_def new_message_def)
  then show ?thesis
    using zmq_publishes_sums [OF assms(3,4), of "encode_message lib compress"]
    by (simp add: assms(2) encode_message_def assms(5))
qed

theorem published_sums_read_back_witness:
  "\<exists>body s'. zmq_on_notify (encode_message varint_wire id) (sample_frame two_scans) (new_zmq_subscriber 5 3) =
      Inr ([(''data'', body)], s') \<and>
    msg_mz (fst (message_parse varint_wire body (new_message varint_wire))) = [0, 7, 13, 0, 4]"
proof -
  let ?s = "new_zmq_subscriber 5 3" and ?f = "sample_frame two_scans"
  let ?msg = "\<lparr>msg_mz = map (column_sum (batch_bins (encoded_data ?f))) [0 ..< length (data_vector ?s)],
      msg_tic = map (\<lambda>er. ucast (er_tic er)) (encoded_data ?f), msg_time_stamps = map er_timestamp (encoded_data ?f)\<rparr>"
  have inside: "batch_inside (length (data_vector ?s)) (encoded_data ?f)" "length (data_vector ?s) < 2147483647"
    by (simp_all add: new_zmq_subscriber_def batch_inside_def sample_frame_defs)
  have sums: "msg_mz ?msg = [0, 7, 13, 0, 4]"
    by (simp add: new_zmq_subscriber_def sample_frame_defs batch_bins_def column_sum_def upt_rec)
  have size: "fst (message_byte_size varint_wire (as_message_pb varint_wire ?msg)) < 2147483648"
    by (simp add: small_sizes new_zmq_subscriber_def sample_frame_defs batch_bins_def column_sum_def upt_rec)
  from published_sums_read_back [where uncompress = Some and compress = id, OF varint.wire_format_axioms _ inside refl size]
  obtain body s' where
    "zmq_on_notify (encode_message varint_wire id) ?f ?s = Inr (check_alignment ?s ?f @ [(''data'', body)], s')"
    "message_parse varint_wire body (new_message varint_wire) = (as_message_pb varint_wire ?msg, At_end)"
    by auto
  moreover have "check_alignment ?s ?f = []"
    by (simp add: new_zmq_subscriber_def sample_frame_defs check_alignment_def alignment_counts_def)
  moreover have "msg_mz (as_message_pb varint_wire ?msg) = [0, 7, 13, 0, 4]"
    using sums by (simp add: as_message_pb_def)
  ultimately show ?thesis by auto
qed

end
