(* ===== verification/Setup_Messages.thy ===== *)
theory Setup_Messages
  imports Messages
begin

text \<open>
  The messages of \<open>message.pb.cpp\<close> that set a digitizer up: \<open>TrigClassMessage\<close>,
  \<open>TrigSourceMessage\<close>, \<open>SetupMessage\<close>, which holds the other two, and
  \<open>DigitizerSetupMessage\<close>. The console handles none of them, a client may. A double is its 64 bits; what
  the library does for doubles and for a message inside a message is the record \<open>setup_wire\<close>.
\<close>

section \<open>Doubles and messages inside a message\<close>

type_synonym double = u64

definition fixed64_type :: nat where "fixed64_type = 1"

text \<open>\<open>load_double\<close> takes its eight octets from wherever it is pointed to, and the check for the end of the
  buffer comes with the next tag. \<open>payload\<close> reads the length of a message and splits its octets off; when the
  buffer ends first it gives those that are there and no rest. \<open>message_size\<close> adds the size of the length.\<close>

record setup_wire =
  wire_double :: "double \<Rightarrow> string"
  load_double :: "string \<Rightarrow> double"
  payload :: "string \<Rightarrow> (string \<times> string option) option"
  message_size :: "nat \<Rightarrow> nat"

text \<open>The comparison of the generated code: both zeros are zero, a NaN is not.\<close>

definition zero_double :: "double \<Rightarrow> bool" where
  "zero_double d \<longleftrightarrow> d AND 0x7FFFFFFFFFFFFFFF = 0"

definition read_double :: "setup_wire \<Rightarrow> string \<Rightarrow> double \<times> string option" where
  "read_double sw bs = (load_double sw bs, if length bs < 8 then None else Some (drop 8 bs))"

definition write_double :: "'f wire \<Rightarrow> setup_wire \<Rightarrow> nat \<Rightarrow> double \<Rightarrow> string \<Rightarrow> string" where
  "write_double lib sw f v out = (if \<not> zero_double v then out @ wire_tag lib f fixed64_type @ wire_double sw v else out)"

definition size_double :: "double \<Rightarrow> nat" where
  "size_double v = (if \<not> zero_double v then 1 + 8 else 0)"

definition write_int32 :: "'f wire \<Rightarrow> nat \<Rightarrow> i32 \<Rightarrow> string \<Rightarrow> string" where
  "write_int32 lib f v out = (if v \<noteq> 0 then out @ wire_tag lib f varint_type @ wire_int32 lib v else out)"

definition size_int32 :: "'f wire \<Rightarrow> i32 \<Rightarrow> nat" where
  "size_int32 lib v = (if v \<noteq> 0 then 1 + int32_size lib v else 0)"

definition parse_payload :: "setup_wire \<Rightarrow> (string \<Rightarrow> 'm \<Rightarrow> 'm \<times> parse_status) \<Rightarrow> string \<Rightarrow> 'm \<Rightarrow> 'm \<times> string option" where
  "parse_payload sw parse bs m =
     (case payload sw bs of
        None \<Rightarrow> (m, None)
      | Some (p, rest) \<Rightarrow> (case parse p m of (m', At_end) \<Rightarrow> (m', rest) | (m', _) \<Rightarrow> (m', None)))"

text \<open>A message inside a message is written with the size kept in it.\<close>

definition write_message :: "'f wire \<Rightarrow> nat \<Rightarrow> i32 \<Rightarrow> (string \<Rightarrow> string) \<Rightarrow> string \<Rightarrow> string" where
  "write_message lib f cached_size serialize out =
     serialize (out @ wire_tag lib f length_delimited_type @ wire_varint32 lib (ucast cached_size))"

section \<open>TrigClassMessage\<close>

record 'f trig_class_message =
  tclass_trig_class :: i32
  tclass_source_pattern :: i32
  tclass_cached_size :: i32
  tclass_unknown :: 'f

definition new_trig_class_message :: "'f wire \<Rightarrow> 'f trig_class_message" where
  "new_trig_class_message lib =
     \<lparr>tclass_trig_class = 0, tclass_source_pattern = 0,
      tclass_cached_size = 0, tclass_unknown = no_unknown lib\<rparr>"

definition tclass_field :: "'f wire \<Rightarrow> 'f trig_class_message field_reader" where
  "tclass_field lib tag bs m =
     (if drop_bit 3 tag = 1 \<and> tag AND 255 = 8
      then (case read_varint lib bs of
          (v, None) \<Rightarrow> Some (m, None)
        | (v, Some rest) \<Rightarrow> Some (m\<lparr>tclass_trig_class := ucast v\<rparr>, Some rest))
      else if drop_bit 3 tag = 2 \<and> tag AND 255 = 16
      then (case read_varint lib bs of (v, rest) \<Rightarrow> Some (m\<lparr>tclass_source_pattern := ucast v\<rparr>, rest))
      else None)"

definition tclass_parse :: "'f wire \<Rightarrow> string \<Rightarrow> 'f trig_class_message \<Rightarrow> 'f trig_class_message \<times> parse_status" where
  "tclass_parse lib bs =
     parse_loop lib (tclass_field lib) tclass_unknown (\<lambda>u m. m\<lparr>tclass_unknown := u\<rparr>) (Suc (length bs)) bs"

definition tclass_serialize :: "'f wire \<Rightarrow> 'f trig_class_message \<Rightarrow> string \<Rightarrow> string" where
  "tclass_serialize lib m out =
     write_unknown lib (tclass_unknown m)
       (write_int32 lib 2 (tclass_source_pattern m)
         (write_enum lib 1 (tclass_trig_class m) out))"

definition tclass_byte_size :: "'f wire \<Rightarrow> 'f trig_class_message \<Rightarrow> nat \<times> 'f trig_class_message" where
  "tclass_byte_size lib m =
     (let n = size_unknown lib (tclass_unknown m) +
        (if tclass_trig_class m \<noteq> 0 then 1 + enum_size lib (tclass_trig_class m) else 0) +
        size_int32 lib (tclass_source_pattern m) in
      (n, m\<lparr>tclass_cached_size := to_cached_size lib n\<rparr>))"

definition tclass_serialize_as_string :: "'f wire \<Rightarrow> 'f trig_class_message \<Rightarrow> string" where
  "tclass_serialize_as_string lib m = tclass_serialize lib (snd (tclass_byte_size lib m)) []"

definition tclass_merge :: "'f wire \<Rightarrow> 'f trig_class_message \<Rightarrow> 'f trig_class_message \<Rightarrow> 'f trig_class_message" where
  "tclass_merge lib from m =
     m\<lparr>tclass_unknown := merge_unknown lib (tclass_unknown m) (tclass_unknown from),
       tclass_trig_class := (if tclass_trig_class from \<noteq> 0 then tclass_trig_class from else tclass_trig_class m),
       tclass_source_pattern := (if tclass_source_pattern from \<noteq> 0 then tclass_source_pattern from else tclass_source_pattern m)\<rparr>"

definition tclass_clear :: "'f wire \<Rightarrow> 'f trig_class_message \<Rightarrow> 'f trig_class_message" where
  "tclass_clear lib m =
     m\<lparr>tclass_trig_class := 0, tclass_source_pattern := 0,
       tclass_unknown := no_unknown lib\<rparr>"

definition tclass_copy :: "'f wire \<Rightarrow> bool \<Rightarrow> 'f trig_class_message \<Rightarrow> 'f trig_class_message \<Rightarrow> 'f trig_class_message" where
  "tclass_copy lib same from m = (if same then m else tclass_merge lib from (tclass_clear lib m))"

definition tclass_swap :: "'f trig_class_message \<times> 'f trig_class_message \<Rightarrow> 'f trig_class_message \<times> 'f trig_class_message" where
  "tclass_swap p =
     (case p of (a, b) \<Rightarrow>
        (b\<lparr>tclass_cached_size := tclass_cached_size a\<rparr>, a\<lparr>tclass_cached_size := tclass_cached_size b\<rparr>))"

section \<open>TrigSourceMessage\<close>

record 'f trig_source_message =
  tsource_channel :: i32
  tsource_coupling :: i32
  tsource_level_1 :: double
  tsource_level_2 :: double
  tsource_cached_size :: i32
  tsource_unknown :: 'f

definition new_trig_source_message :: "'f wire \<Rightarrow> 'f trig_source_message" where
  "new_trig_source_message lib =
     \<lparr>tsource_channel = 0, tsource_coupling = 0, tsource_level_1 = 0, tsource_level_2 = 0,
      tsource_cached_size = 0, tsource_unknown = no_unknown lib\<rparr>"

definition tsource_field :: "'f wire \<Rightarrow> setup_wire \<Rightarrow> 'f trig_source_message field_reader" where
  "tsource_field lib sw tag bs m =
     (if drop_bit 3 tag = 1 \<and> tag AND 255 = 8
      then (case read_varint lib bs of (v, rest) \<Rightarrow> Some (m\<lparr>tsource_channel := ucast v\<rparr>, rest))
      else if drop_bit 3 tag = 2 \<and> tag AND 255 = 16
      then (case read_varint lib bs of
          (v, None) \<Rightarrow> Some (m, None)
        | (v, Some rest) \<Rightarrow> Some (m\<lparr>tsource_coupling := ucast v\<rparr>, Some rest))
      else if drop_bit 3 tag = 3 \<and> tag AND 255 = 25
      then (case read_double sw bs of (v, rest) \<Rightarrow> Some (m\<lparr>tsource_level_1 := v\<rparr>, rest))
      else if drop_bit 3 tag = 4 \<and> tag AND 255 = 33
      then (case read_double sw bs of (v, rest) \<Rightarrow> Some (m\<lparr>tsource_level_2 := v\<rparr>, rest))
      else None)"

definition tsource_parse :: "'f wire \<Rightarrow> setup_wire \<Rightarrow> string \<Rightarrow> 'f trig_source_message \<Rightarrow> 'f trig_source_message \<times> parse_status" where
  "tsource_parse lib sw bs =
     parse_loop lib (tsource_field lib sw) tsource_unknown (\<lambda>u m. m\<lparr>tsource_unknown := u\<rparr>) (Suc (length bs)) bs"

definition tsource_serialize :: "'f wire \<Rightarrow> setup_wire \<Rightarrow> 'f trig_source_message \<Rightarrow> string \<Rightarrow> string" where
  "tsource_serialize lib sw m out =
     write_unknown lib (tsource_unknown m)
       (write_double lib sw 4 (tsource_level_2 m)
         (write_double lib sw 3 (tsource_level_1 m)
           (write_enum lib 2 (tsource_coupling m)
             (write_int32 lib 1 (tsource_channel m) out))))"

definition tsource_byte_size :: "'f wire \<Rightarrow> 'f trig_source_message \<Rightarrow> nat \<times> 'f trig_source_message" where
  "tsource_byte_size lib m =
     (let n = size_unknown lib (tsource_unknown m) +
        size_int32 lib (tsource_channel m) +
        (if tsource_coupling m \<noteq> 0 then 1 + enum_size lib (tsource_coupling m) else 0) +
        size_double (tsource_level_1 m) +
        size_double (tsource_level_2 m) in
      (n, m\<lparr>tsource_cached_size := to_cached_size lib n\<rparr>))"

definition tsource_serialize_as_string :: "'f wire \<Rightarrow> setup_wire \<Rightarrow> 'f trig_source_message \<Rightarrow> string" where
  "tsource_serialize_as_string lib sw m = tsource_serialize lib sw (snd (tsource_byte_size lib m)) []"

definition tsource_merge :: "'f wire \<Rightarrow> 'f trig_source_message \<Rightarrow> 'f trig_source_message \<Rightarrow> 'f trig_source_message" where
  "tsource_merge lib from m =
     m\<lparr>tsource_unknown := merge_unknown lib (tsource_unknown m) (tsource_unknown from),
       tsource_channel := (if tsource_channel from \<noteq> 0 then tsource_channel from else tsource_channel m),
       tsource_coupling := (if tsource_coupling from \<noteq> 0 then tsource_coupling from else tsource_coupling m),
       tsource_level_1 := (if \<not> zero_double (tsource_level_1 from) then tsource_level_1 from else tsource_level_1 m),
       tsource_level_2 := (if \<not> zero_double (tsource_level_2 from) then tsource_level_2 from else tsource_level_2 m)\<rparr>"

definition tsource_clear :: "'f wire \<Rightarrow> 'f trig_source_message \<Rightarrow> 'f trig_source_message" where
  "tsource_clear lib m =
     m\<lparr>tsource_channel := 0, tsource_coupling := 0, tsource_level_1 := 0, tsource_level_2 := 0,
       tsource_unknown := no_unknown lib\<rparr>"

definition tsource_copy :: "'f wire \<Rightarrow> bool \<Rightarrow> 'f trig_source_message \<Rightarrow> 'f trig_source_message \<Rightarrow> 'f trig_source_message" where
  "tsource_copy lib same from m = (if same then m else tsource_merge lib from (tsource_clear lib m))"

definition tsource_swap :: "'f trig_source_message \<times> 'f trig_source_message \<Rightarrow> 'f trig_source_message \<times> 'f trig_source_message" where
  "tsource_swap p =
     (case p of (a, b) \<Rightarrow>
        (b\<lparr>tsource_cached_size := tsource_cached_size a\<rparr>, a\<lparr>tsource_cached_size := tsource_cached_size b\<rparr>))"

section \<open>SetupMessage\<close>

record 'f setup_message =
  setup_horizontal :: double
  setup_vertical :: double
  setup_trig :: "'f trig_class_message option"
  setup_source :: "'f trig_source_message option"
  setup_cached_size :: i32
  setup_unknown :: 'f

definition new_setup_message :: "'f wire \<Rightarrow> 'f setup_message" where
  "new_setup_message lib =
     \<lparr>setup_horizontal = 0, setup_vertical = 0, setup_trig = None, setup_source = None,
      setup_cached_size = 0, setup_unknown = no_unknown lib\<rparr>"

definition setup_field :: "'f wire \<Rightarrow> setup_wire \<Rightarrow> 'f setup_message field_reader" where
  "setup_field lib sw tag bs m =
     (if drop_bit 3 tag = 1 \<and> tag AND 255 = 9
      then (case read_double sw bs of (v, rest) \<Rightarrow> Some (m\<lparr>setup_horizontal := v\<rparr>, rest))
      else if drop_bit 3 tag = 2 \<and> tag AND 255 = 17
      then (case read_double sw bs of (v, rest) \<Rightarrow> Some (m\<lparr>setup_vertical := v\<rparr>, rest))
      else if drop_bit 3 tag = 3 \<and> tag AND 255 = 26
      then (case parse_payload sw (tclass_parse lib) bs
            (case setup_trig m of None \<Rightarrow> new_trig_class_message lib | Some t \<Rightarrow> t) of
          (t, rest) \<Rightarrow> Some (m\<lparr>setup_trig := Some t\<rparr>, rest))
      else if drop_bit 3 tag = 4 \<and> tag AND 255 = 34
      then (case parse_payload sw (tsource_parse lib sw) bs
            (case setup_source m of None \<Rightarrow> new_trig_source_message lib | Some t \<Rightarrow> t) of
          (t, rest) \<Rightarrow> Some (m\<lparr>setup_source := Some t\<rparr>, rest))
      else None)"

definition setup_parse :: "'f wire \<Rightarrow> setup_wire \<Rightarrow> string \<Rightarrow> 'f setup_message \<Rightarrow> 'f setup_message \<times> parse_status" where
  "setup_parse lib sw bs =
     parse_loop lib (setup_field lib sw) setup_unknown (\<lambda>u m. m\<lparr>setup_unknown := u\<rparr>) (Suc (length bs)) bs"

definition setup_serialize :: "'f wire \<Rightarrow> setup_wire \<Rightarrow> 'f setup_message \<Rightarrow> string \<Rightarrow> string" where
  "setup_serialize lib sw m out =
     write_unknown lib (setup_unknown m)
       ((case setup_source m of None \<Rightarrow> id
          | Some t \<Rightarrow> write_message lib 4 (tsource_cached_size t) (tsource_serialize lib sw t))
         ((case setup_trig m of None \<Rightarrow> id
            | Some t \<Rightarrow> write_message lib 3 (tclass_cached_size t) (tclass_serialize lib t))
           (write_double lib sw 2 (setup_vertical m)
             (write_double lib sw 1 (setup_horizontal m) out))))"

definition setup_byte_size :: "'f wire \<Rightarrow> setup_wire \<Rightarrow> 'f setup_message \<Rightarrow> nat \<times> 'f setup_message" where
  "setup_byte_size lib sw m =
     (let trig = map_option (tclass_byte_size lib) (setup_trig m);
          source = map_option (tsource_byte_size lib) (setup_source m);
          n = size_unknown lib (setup_unknown m) +
        (case trig of None \<Rightarrow> 0 | Some (k, t) \<Rightarrow> 1 + message_size sw k) +
        (case source of None \<Rightarrow> 0 | Some (k, t) \<Rightarrow> 1 + message_size sw k) +
        size_double (setup_horizontal m) +
        size_double (setup_vertical m) in
      (n, m\<lparr>setup_trig := map_option snd trig, setup_source := map_option snd source, setup_cached_size := to_cached_size lib n\<rparr>))"

definition setup_serialize_as_string :: "'f wire \<Rightarrow> setup_wire \<Rightarrow> 'f setup_message \<Rightarrow> string" where
  "setup_serialize_as_string lib sw m = setup_serialize lib sw (snd (setup_byte_size lib sw m)) []"

definition setup_merge :: "'f wire \<Rightarrow> 'f setup_message \<Rightarrow> 'f setup_message \<Rightarrow> 'f setup_message" where
  "setup_merge lib from m =
     m\<lparr>setup_unknown := merge_unknown lib (setup_unknown m) (setup_unknown from),
       setup_trig := (case setup_trig from of None \<Rightarrow> setup_trig m
         | Some t \<Rightarrow> Some (tclass_merge lib t (case setup_trig m of None \<Rightarrow> new_trig_class_message lib | Some t0 \<Rightarrow> t0))),
       setup_source := (case setup_source from of None \<Rightarrow> setup_source m
         | Some t \<Rightarrow> Some (tsource_merge lib t (case setup_source m of None \<Rightarrow> new_trig_source_message lib | Some t0 \<Rightarrow> t0))),
       setup_horizontal := (if \<not> zero_double (setup_horizontal from) then setup_horizontal from else setup_horizontal m),
       setup_vertical := (if \<not> zero_double (setup_vertical from) then setup_vertical from else setup_vertical m)\<rparr>"

definition setup_clear :: "'f wire \<Rightarrow> 'f setup_message \<Rightarrow> 'f setup_message" where
  "setup_clear lib m =
     m\<lparr>setup_horizontal := 0, setup_vertical := 0, setup_trig := None, setup_source := None,
       setup_unknown := no_unknown lib\<rparr>"

definition setup_copy :: "'f wire \<Rightarrow> bool \<Rightarrow> 'f setup_message \<Rightarrow> 'f setup_message \<Rightarrow> 'f setup_message" where
  "setup_copy lib same from m = (if same then m else setup_merge lib from (setup_clear lib m))"

definition setup_swap :: "'f setup_message \<times> 'f setup_message \<Rightarrow> 'f setup_message \<times> 'f setup_message" where
  "setup_swap p =
     (case p of (a, b) \<Rightarrow>
        (b\<lparr>setup_cached_size := setup_cached_size a\<rparr>, a\<lparr>setup_cached_size := setup_cached_size b\<rparr>))"

section \<open>DigitizerSetupMessage\<close>

record 'f digitizer_setup_message =
  dsetup_horizontal :: double
  dsetup_vertical :: double
  dsetup_trig_class :: double
  dsetup_trig_source :: double
  dsetup_mode :: i32
  dsetup_samples :: u32
  dsetup_segments :: u32
  dsetup_post_samples :: u32
  dsetup_pre_samples :: u32
  dsetup_cached_size :: i32
  dsetup_unknown :: 'f

definition new_digitizer_setup_message :: "'f wire \<Rightarrow> 'f digitizer_setup_message" where
  "new_digitizer_setup_message lib =
     \<lparr>dsetup_horizontal = 0, dsetup_vertical = 0, dsetup_trig_class = 0, dsetup_trig_source = 0, dsetup_mode = 0, dsetup_samples = 0, dsetup_segments = 0, dsetup_post_samples = 0, dsetup_pre_samples = 0,
      dsetup_cached_size = 0, dsetup_unknown = no_unknown lib\<rparr>"

definition dsetup_field :: "'f wire \<Rightarrow> setup_wire \<Rightarrow> 'f digitizer_setup_message field_reader" where
  "dsetup_field lib sw tag bs m =
     (if drop_bit 3 tag = 1 \<and> tag AND 255 = 9
      then (case read_double sw bs of (v, rest) \<Rightarrow> Some (m\<lparr>dsetup_horizontal := v\<rparr>, rest))
      else if drop_bit 3 tag = 2 \<and> tag AND 255 = 17
      then (case read_double sw bs of (v, rest) \<Rightarrow> Some (m\<lparr>dsetup_vertical := v\<rparr>, rest))
      else if drop_bit 3 tag = 3 \<and> tag AND 255 = 25
      then (case read_double sw bs of (v, rest) \<Rightarrow> Some (m\<lparr>dsetup_trig_class := v\<rparr>, rest))
      else if drop_bit 3 tag = 4 \<and> tag AND 255 = 33
      then (case read_double sw bs of (v, rest) \<Rightarrow> Some (m\<lparr>dsetup_trig_source := v\<rparr>, rest))
      else if drop_bit 3 tag = 5 \<and> tag AND 255 = 40
      then (case read_varint lib bs of (v, rest) \<Rightarrow> Some (m\<lparr>dsetup_mode := ucast v\<rparr>, rest))
      else if drop_bit 3 tag = 6 \<and> tag AND 255 = 48
      then (case read_varint lib bs of (v, rest) \<Rightarrow> Some (m\<lparr>dsetup_samples := ucast v\<rparr>, rest))
      else if drop_bit 3 tag = 7 \<and> tag AND 255 = 56
      then (case read_varint lib bs of (v, rest) \<Rightarrow> Some (m\<lparr>dsetup_segments := ucast v\<rparr>, rest))
      else if drop_bit 3 tag = 8 \<and> tag AND 255 = 64
      then (case read_varint lib bs of (v, rest) \<Rightarrow> Some (m\<lparr>dsetup_post_samples := ucast v\<rparr>, rest))
      else if drop_bit 3 tag = 9 \<and> tag AND 255 = 72
      then (case read_varint lib bs of (v, rest) \<Rightarrow> Some (m\<lparr>dsetup_pre_samples := ucast v\<rparr>, rest))
      else None)"

definition dsetup_parse :: "'f wire \<Rightarrow> setup_wire \<Rightarrow> string \<Rightarrow> 'f digitizer_setup_message \<Rightarrow> 'f digitizer_setup_message \<times> parse_status" where
  "dsetup_parse lib sw bs =
     parse_loop lib (dsetup_field lib sw) dsetup_unknown (\<lambda>u m. m\<lparr>dsetup_unknown := u\<rparr>) (Suc (length bs)) bs"

definition dsetup_serialize :: "'f wire \<Rightarrow> setup_wire \<Rightarrow> 'f digitizer_setup_message \<Rightarrow> string \<Rightarrow> string" where
  "dsetup_serialize lib sw m out =
     write_unknown lib (dsetup_unknown m)
       (write_uint32 lib 9 (dsetup_pre_samples m)
         (write_uint32 lib 8 (dsetup_post_samples m)
           (write_uint32 lib 7 (dsetup_segments m)
             (write_uint32 lib 6 (dsetup_samples m)
               (write_int32 lib 5 (dsetup_mode m)
                 (write_double lib sw 4 (dsetup_trig_source m)
                   (write_double lib sw 3 (dsetup_trig_class m)
                     (write_double lib sw 2 (dsetup_vertical m)
                       (write_double lib sw 1 (dsetup_horizontal m) out)))))))))"

definition dsetup_byte_size :: "'f wire \<Rightarrow> 'f digitizer_setup_message \<Rightarrow> nat \<times> 'f digitizer_setup_message" where
  "dsetup_byte_size lib m =
     (let n = size_unknown lib (dsetup_unknown m) +
        size_double (dsetup_horizontal m) +
        size_double (dsetup_vertical m) +
        size_double (dsetup_trig_class m) +
        size_double (dsetup_trig_source m) +
        size_int32 lib (dsetup_mode m) +
        size_uint32 lib (dsetup_samples m) +
        size_uint32 lib (dsetup_segments m) +
        size_uint32 lib (dsetup_post_samples m) +
        size_uint32 lib (dsetup_pre_samples m) in
      (n, m\<lparr>dsetup_cached_size := to_cached_size lib n\<rparr>))"

definition dsetup_serialize_as_string :: "'f wire \<Rightarrow> setup_wire \<Rightarrow> 'f digitizer_setup_message \<Rightarrow> string" where
  "dsetup_serialize_as_string lib sw m = dsetup_serialize lib sw (snd (dsetup_byte_size lib m)) []"

definition dsetup_merge :: "'f wire \<Rightarrow> 'f digitizer_setup_message \<Rightarrow> 'f digitizer_setup_message \<Rightarrow> 'f digitizer_setup_message" where
  "dsetup_merge lib from m =
     m\<lparr>dsetup_unknown := merge_unknown lib (dsetup_unknown m) (dsetup_unknown from),
       dsetup_horizontal := (if \<not> zero_double (dsetup_horizontal from) then dsetup_horizontal from else dsetup_horizontal m),
       dsetup_vertical := (if \<not> zero_double (dsetup_vertical from) then dsetup_vertical from else dsetup_vertical m),
       dsetup_trig_class := (if \<not> zero_double (dsetup_trig_class from) then dsetup_trig_class from else dsetup_trig_class m),
       dsetup_trig_source := (if \<not> zero_double (dsetup_trig_source from) then dsetup_trig_source from else dsetup_trig_source m),
       dsetup_mode := (if dsetup_mode from \<noteq> 0 then dsetup_mode from else dsetup_mode m),
       dsetup_samples := (if dsetup_samples from \<noteq> 0 then dsetup_samples from else dsetup_samples m),
       dsetup_segments := (if dsetup_segments from \<noteq> 0 then dsetup_segments from else dsetup_segments m),
       dsetup_post_samples := (if dsetup_post_samples from \<noteq> 0 then dsetup_post_samples from else dsetup_post_samples m),
       dsetup_pre_samples := (if dsetup_pre_samples from \<noteq> 0 then dsetup_pre_samples from else dsetup_pre_samples m)\<rparr>"

definition dsetup_clear :: "'f wire \<Rightarrow> 'f digitizer_setup_message \<Rightarrow> 'f digitizer_setup_message" where
  "dsetup_clear lib m =
     m\<lparr>dsetup_horizontal := 0, dsetup_vertical := 0, dsetup_trig_class := 0, dsetup_trig_source := 0, dsetup_mode := 0, dsetup_samples := 0, dsetup_segments := 0, dsetup_post_samples := 0, dsetup_pre_samples := 0,
       dsetup_unknown := no_unknown lib\<rparr>"

definition dsetup_copy :: "'f wire \<Rightarrow> bool \<Rightarrow> 'f digitizer_setup_message \<Rightarrow> 'f digitizer_setup_message \<Rightarrow> 'f digitizer_setup_message" where
  "dsetup_copy lib same from m = (if same then m else dsetup_merge lib from (dsetup_clear lib m))"

definition dsetup_swap :: "'f digitizer_setup_message \<times> 'f digitizer_setup_message \<Rightarrow> 'f digitizer_setup_message \<times> 'f digitizer_setup_message" where
  "dsetup_swap p =
     (case p of (a, b) \<Rightarrow>
        (b\<lparr>dsetup_cached_size := dsetup_cached_size a\<rparr>, a\<lparr>dsetup_cached_size := dsetup_cached_size b\<rparr>))"

end
