(* ===== verification/Setup_Roundtrip.thy ===== *)
theory Setup_Roundtrip
  imports Messages_Roundtrip Setup_Messages
begin

unbundle bit_operations_syntax

text \<open>
  The messages that set a digitizer up are parsed back as they were written, a message inside another too, and
  \<open>ByteSizeLong\<close> is the length of what is written. A negative zero is the one value that does not come
  back: it is left out like any zero and read as a positive one.
\<close>

section \<open>What the library promises\<close>

locale setup_format = wire_format lib for lib :: "'f wire" +
  fixes sw :: setup_wire
  assumes double_read: "load_double sw (wire_double sw d @ rest) = d"
    and double_length: "length (wire_double sw d) = 8"
    and int32_read: "read_varint lib (wire_int32 lib i @ rest) = (scast i, Some rest)"
    and payload_read: "length p < 2147483648 \<Longrightarrow>
      payload sw (wire_varint32 lib (of_nat (length p)) @ p @ rest) = Some (p, Some rest)"
    and payload_length: "n < 2147483648 \<Longrightarrow> message_size sw n = length (wire_varint32 lib (of_nat n)) + n"

definition positive_zero :: "double \<Rightarrow> bool" where
  "positive_zero d \<longleftrightarrow> (zero_double d \<longrightarrow> d = 0)"

text \<open>A message that was parsed or copied has sized nothing yet.\<close>

definition parsed_fields :: "'f setup_message \<Rightarrow> 'f setup_message" where
  "parsed_fields m =
     m\<lparr>setup_trig := map_option (\<lambda>t. t\<lparr>tclass_cached_size := 0\<rparr>) (setup_trig m),
       setup_source := map_option (\<lambda>t. t\<lparr>tsource_cached_size := 0\<rparr>) (setup_source m), setup_cached_size := 0\<rparr>"

lemma setup_write_appends:
  "NO_MATCH [] out \<Longrightarrow> write_double lib sw f d out = out @ write_double lib sw f d []"
  "NO_MATCH [] out \<Longrightarrow> write_int32 lib f i out = out @ write_int32 lib f i []"
  by (simp_all add: write_double_def write_int32_def)

section \<open>Octets of a double\<close>

fun octets :: "nat \<Rightarrow> nat \<Rightarrow> nat list" where
  "octets 0 n = []"
| "octets (Suc k) n = n mod 256 # octets k (n div 256)"

fun from_octets :: "nat list \<Rightarrow> nat" where
  "from_octets [] = 0"
| "from_octets (b # bs) = b + 256 * from_octets bs"

lemma from_octets_octets: "from_octets (octets k n) = n mod 256 ^ k"
proof (induction k arbitrary: n)
  case (Suc k)
  have "n mod 256 + 256 * (n div 256 mod 256 ^ k) = n mod (256 * 256 ^ k)"
    by (simp add: mod_mult2_eq)
  with Suc show ?case by simp
qed simp

lemma octets_length [simp]: "length (octets k n) = k"
  by (induction k arbitrary: n) auto

lemma octets_small: "b \<in> set (octets k n) \<Longrightarrow> b < 256"
  by (induction k arbitrary: n) auto

definition setup_varint :: setup_wire where
  "setup_varint =
     \<lparr>wire_double = (\<lambda>d. map char_of (octets 8 (unat d))),
      load_double = (\<lambda>bs. of_nat (from_octets (map of_char (take 8 bs)))),
      payload = (\<lambda>bs. case unvarint bs of None \<Rightarrow> None
        | Some (n, rest) \<Rightarrow> Some (take n rest, if length rest < n then None else Some (drop n rest))),
      message_size = (\<lambda>n. length (varint n) + n)\<rparr>"

lemma octets_read_back: "from_octets (map of_char (map char_of (octets 8 (unat (d :: u64))))) = unat d"
proof -
  have "map (of_char \<circ> (char_of :: nat \<Rightarrow> char)) (octets 8 (unat d)) = octets 8 (unat d)"
    by (rule map_idI) (auto dest: octets_small)
  moreover have "unat d < 256 ^ 8" using unsigned_less [of d] by simp
  ultimately show ?thesis by (simp add: from_octets_octets)
qed

interpretation setup_varint: setup_format varint_wire setup_varint
proof
  fix d :: double and rest :: string
  have "take 8 (map char_of (octets 8 (unat d)) @ rest) = map char_of (octets 8 (unat d))" by simp
  then show "load_double setup_varint (wire_double setup_varint d @ rest) = d"
    by (simp add: setup_varint_def octets_read_back del: map_map take_append)
qed (simp_all add: setup_varint_def varint_wire_def unvarint_varint unat_of_length)

section \<open>Fields\<close>

context setup_format
begin

lemma reads_to_double:
  assumes "1 \<le> f" "f \<le> 15" "field (of_nat (8 * f + 1)) (wire_double sw v @ rest) m = Some (m1, Some rest)"
    and "zero_double v \<Longrightarrow> m1 = m" "reads_to lib field md put rest m1 m'"
  shows "reads_to lib field md put (write_double lib sw f v [] @ rest) m m'"
  using reads_to_field [of f 1 field "wire_double sw v" rest m m1 md put m'] assms
  by (auto simp: write_double_def fixed64_type_def)

lemma reads_to_int32:
  assumes "1 \<le> f" "f \<le> 15" "field (of_nat (8 * f)) (wire_int32 lib v @ rest) m = Some (m1, Some rest)" "v = 0 \<Longrightarrow> m1 = m"
    and "reads_to lib field md put rest m1 m'"
  shows "reads_to lib field md put (write_int32 lib f v [] @ rest) m m'"
  using reads_to_field [of f 0 field "wire_int32 lib v" rest m m1 md put m'] assms
  by (auto simp: write_int32_def varint_type_def)

lemma read_double_back: "read_double sw (wire_double sw d @ rest) = (d, Some rest)"
  by (simp add: read_double_def double_read double_length)

lemma setup_piece_lengths:
  "1 \<le> f \<Longrightarrow> f \<le> 15 \<Longrightarrow> length (write_double lib sw f d []) = size_double d"
  "1 \<le> f \<Longrightarrow> f \<le> 15 \<Longrightarrow> length (write_int32 lib f i []) = size_int32 lib i"
  by (simp_all add: write_double_def write_int32_def size_double_def size_int32_def tag_length double_length
      int32_length varint_type_def fixed64_type_def)

lemmas field_readers = uint32_read enum_read int32_read narrowed_values read_double_back

section \<open>TrigClassMessage and TrigSourceMessage\<close>

lemma tclass_fields:
  "tclass_field lib 8 (wire_enum lib e @ rest) m = Some (m\<lparr>tclass_trig_class := e\<rparr>, Some rest)"
  "tclass_field lib 16 (wire_int32 lib i @ rest) m = Some (m\<lparr>tclass_source_pattern := i\<rparr>, Some rest)"
  by (simp_all add: tclass_field_def field_readers)

lemma tclass_bytes:
  "tclass_unknown m = no_unknown lib \<Longrightarrow> tclass_serialize lib m out =
     out @ write_enum lib 1 (tclass_trig_class m) [] @ write_int32 lib 2 (tclass_source_pattern m) []"
  by (cases "out = []")
    (simp_all add: tclass_serialize_def write_unknown_def none_unknown write_appends setup_write_appends)

lemma tclass_parses:
  assumes "tclass_unknown m = no_unknown lib"
  shows "tclass_parse lib (tclass_serialize lib m []) (new_trig_class_message lib) = (m\<lparr>tclass_cached_size := 0\<rparr>, At_end)"
proof -
  have bytes: "tclass_serialize lib m [] =
      write_enum lib 1 (tclass_trig_class m) [] @ write_int32 lib 2 (tclass_source_pattern m) [] @ []"
    by (simp add: tclass_bytes assms)
  have "reads_to lib (tclass_field lib) tclass_unknown (\<lambda>u m. m\<lparr>tclass_unknown := u\<rparr>) (tclass_serialize lib m [])
      (new_trig_class_message lib) (m\<lparr>tclass_cached_size := 0\<rparr>)"
    unfolding bytes
    by (rule reads_to_enum, simp, simp, simp add: tclass_fields del: append_Nil2, simp add: new_trig_class_message_def,
        rule reads_to_int32, simp, simp, simp add: tclass_fields del: append_Nil2, simp add: new_trig_class_message_def)
      (use assms in \<open>cases m; simp add: new_trig_class_message_def reads_to_nothing\<close>)
  from reads_to_start [OF this] show ?thesis by (simp add: tclass_parse_def)
qed

lemma tclass_length:
  "tclass_unknown m = no_unknown lib \<Longrightarrow> length (tclass_serialize lib m []) = fst (tclass_byte_size lib m)"
  by (simp add: tclass_bytes tclass_byte_size_def Let_def piece_lengths setup_piece_lengths size_unknown_def none_unknown)

lemma tsource_fields:
  "tsource_field lib sw 8 (wire_int32 lib i @ rest) m = Some (m\<lparr>tsource_channel := i\<rparr>, Some rest)"
  "tsource_field lib sw 16 (wire_enum lib e @ rest) m = Some (m\<lparr>tsource_coupling := e\<rparr>, Some rest)"
  "tsource_field lib sw 25 (wire_double sw d @ rest) m = Some (m\<lparr>tsource_level_1 := d\<rparr>, Some rest)"
  "tsource_field lib sw 33 (wire_double sw d @ rest) m = Some (m\<lparr>tsource_level_2 := d\<rparr>, Some rest)"
  by (simp_all add: tsource_field_def field_readers)

lemma tsource_bytes:
  "tsource_unknown m = no_unknown lib \<Longrightarrow> tsource_serialize lib sw m out =
     out @ write_int32 lib 1 (tsource_channel m) [] @ write_enum lib 2 (tsource_coupling m) [] @
       write_double lib sw 3 (tsource_level_1 m) [] @ write_double lib sw 4 (tsource_level_2 m) []"
  by (cases "out = []")
    (simp_all add: tsource_serialize_def write_unknown_def none_unknown write_appends setup_write_appends)

definition sound_source :: "'f trig_source_message \<Rightarrow> bool" where
  "sound_source m \<longleftrightarrow>
     tsource_unknown m = no_unknown lib \<and> positive_zero (tsource_level_1 m) \<and> positive_zero (tsource_level_2 m)"

lemma tsource_parses:
  assumes "sound_source m"
  shows "tsource_parse lib sw (tsource_serialize lib sw m []) (new_trig_source_message lib) =
    (m\<lparr>tsource_cached_size := 0\<rparr>, At_end)"
proof -
  have u: "tsource_unknown m = no_unknown lib" using assms by (simp add: sound_source_def)
  have bytes: "tsource_serialize lib sw m [] =
      write_int32 lib 1 (tsource_channel m) [] @ write_enum lib 2 (tsource_coupling m) [] @
      write_double lib sw 3 (tsource_level_1 m) [] @ write_double lib sw 4 (tsource_level_2 m) [] @ []"
    by (simp add: tsource_bytes u)
  have "reads_to lib (tsource_field lib sw) tsource_unknown (\<lambda>u m. m\<lparr>tsource_unknown := u\<rparr>)
      (tsource_serialize lib sw m []) (new_trig_source_message lib) (m\<lparr>tsource_cached_size := 0\<rparr>)"
    unfolding bytes
    by (rule reads_to_int32, simp, simp, simp add: tsource_fields del: append_Nil2, simp add: new_trig_source_message_def,
        rule reads_to_enum, simp, simp, simp add: tsource_fields del: append_Nil2, simp add: new_trig_source_message_def,
        rule reads_to_double, simp, simp, simp add: tsource_fields del: append_Nil2,
        use assms in \<open>simp add: sound_source_def positive_zero_def new_trig_source_message_def\<close>,
        rule reads_to_double, simp, simp, simp add: tsource_fields del: append_Nil2,
        use assms in \<open>simp add: sound_source_def positive_zero_def new_trig_source_message_def\<close>)
      (use u in \<open>cases m; simp add: new_trig_source_message_def reads_to_nothing\<close>)
  from reads_to_start [OF this] show ?thesis by (simp add: tsource_parse_def)
qed

lemma tsource_length:
  "tsource_unknown m = no_unknown lib \<Longrightarrow> length (tsource_serialize lib sw m []) = fst (tsource_byte_size lib m)"
  by (simp add: tsource_bytes tsource_byte_size_def Let_def piece_lengths setup_piece_lengths size_unknown_def none_unknown)

section \<open>SetupMessage\<close>

lemma payload_back:
  assumes "length p < 2147483648" "parse p m = (m', At_end)"
  shows "parse_payload sw parse (wire_varint32 lib (of_nat (length p)) @ p @ rest) m = (m', Some rest)"
  using assms by (simp add: parse_payload_def payload_read)

lemma reads_to_message:
  assumes "1 \<le> f" "f \<le> 15" "length p < 2147483648"
    and "field (of_nat (8 * f + 2)) (wire_varint32 lib (of_nat (length p)) @ p @ rest) m = Some (m1, Some rest)"
    and "reads_to lib field md put rest m1 m'"
  shows "reads_to lib field md put
    ((wire_tag lib f length_delimited_type @ wire_varint32 lib (ucast (to_cached_size lib (length p))) @ p) @ rest) m m'"
  using reads_to_field [of f 2 field "wire_varint32 lib (of_nat (length p)) @ p" rest m m1 md put m'] assms cached [OF assms(3)]
  by (simp add: length_delimited_type_def)

text \<open>What is written for a message inside, which is nothing when there is none.\<close>

definition inner :: "nat \<Rightarrow> string option \<Rightarrow> string" where
  "inner f body =
     (case body of None \<Rightarrow> []
      | Some p \<Rightarrow> wire_tag lib f length_delimited_type @ wire_varint32 lib (ucast (to_cached_size lib (length p))) @ p)"

lemma reads_to_inner:
  assumes "1 \<le> f" "f \<le> 15" "body = None \<Longrightarrow> m1 = m"
    and "\<And>p. body = Some p \<Longrightarrow> length p < 2147483648 \<and>
      field (of_nat (8 * f + 2)) (wire_varint32 lib (of_nat (length p)) @ p @ rest) m = Some (m1, Some rest)"
    and "reads_to lib field md put rest m1 m'"
  shows "reads_to lib field md put (inner f body @ rest) m m'"
proof (cases body)
  case None
  with assms(3,5) show ?thesis by (simp add: inner_def)
next
  case (Some p)
  from reads_to_message [OF assms(1,2) _ _ assms(5), where p = p] assms(4) [OF Some] Some show ?thesis
    by (simp add: inner_def)
qed

definition sound_setup :: "'f setup_message \<Rightarrow> bool" where
  "sound_setup m \<longleftrightarrow>
     setup_unknown m = no_unknown lib \<and> positive_zero (setup_horizontal m) \<and> positive_zero (setup_vertical m) \<and>
     (\<forall>t. setup_trig m = Some t \<longrightarrow> tclass_unknown t = no_unknown lib \<and> fst (tclass_byte_size lib t) < 2147483648) \<and>
     (\<forall>t. setup_source m = Some t \<longrightarrow> sound_source t \<and> fst (tsource_byte_size lib t) < 2147483648)"

definition trig_body :: "'f setup_message \<Rightarrow> string option" where
  "trig_body m = map_option (\<lambda>t. tclass_serialize lib t []) (setup_trig m)"

definition source_body :: "'f setup_message \<Rightarrow> string option" where
  "source_body m = map_option (\<lambda>t. tsource_serialize lib sw t []) (setup_source m)"

lemma setup_bytes:
  assumes "sound_setup m"
  shows "setup_serialize_as_string lib sw m =
    write_double lib sw 1 (setup_horizontal m) [] @ write_double lib sw 2 (setup_vertical m) [] @
    inner 3 (trig_body m) @ inner 4 (source_body m) @ []"
proof -
  have trig: "write_message lib 3 (tclass_cached_size (snd (tclass_byte_size lib t)))
      (tclass_serialize lib (snd (tclass_byte_size lib t))) out =
      out @ inner 3 (Some (tclass_serialize lib t []))" if "setup_trig m = Some t" for t out
    using assms that tclass_length [of t]
    by (simp add: sound_setup_def write_message_def inner_def tclass_bytes tclass_byte_size_def Let_def)
  have source: "write_message lib 4 (tsource_cached_size (snd (tsource_byte_size lib t)))
      (tsource_serialize lib sw (snd (tsource_byte_size lib t))) out =
      out @ inner 4 (Some (tsource_serialize lib sw t []))" if "setup_source m = Some t" for t out
    using assms that tsource_length [of t]
    by (simp add: sound_setup_def sound_source_def write_message_def inner_def tsource_bytes tsource_byte_size_def Let_def)
  have u: "setup_unknown m = no_unknown lib" using assms by (simp add: sound_setup_def)
  show ?thesis
    by (cases "setup_trig m"; cases "setup_source m")
      (simp_all add: setup_serialize_as_string_def setup_byte_size_def setup_serialize_def Let_def write_unknown_def
        none_unknown u setup_write_appends trig source trig_body_def source_body_def inner_def [of _ None])
qed

lemma setup_fields:
  "setup_field lib sw 9 (wire_double sw d @ rest) m = Some (m\<lparr>setup_horizontal := d\<rparr>, Some rest)"
  "setup_field lib sw 17 (wire_double sw d @ rest) m = Some (m\<lparr>setup_vertical := d\<rparr>, Some rest)"
  by (simp_all add: setup_field_def field_readers)

lemma setup_inner_fields:
  "tclass_unknown t = no_unknown lib \<Longrightarrow> p = tclass_serialize lib t [] \<Longrightarrow> length p < 2147483648 \<Longrightarrow> setup_trig m = None \<Longrightarrow>
   setup_field lib sw 26 (wire_varint32 lib (of_nat (length p)) @ p @ rest) m =
     Some (m\<lparr>setup_trig := Some (t\<lparr>tclass_cached_size := 0\<rparr>)\<rparr>, Some rest)"
  "sound_source s \<Longrightarrow> q = tsource_serialize lib sw s [] \<Longrightarrow> length q < 2147483648 \<Longrightarrow> setup_source m = None \<Longrightarrow>
   setup_field lib sw 34 (wire_varint32 lib (of_nat (length q)) @ q @ rest) m =
     Some (m\<lparr>setup_source := Some (s\<lparr>tsource_cached_size := 0\<rparr>)\<rparr>, Some rest)"
  by (simp_all add: setup_field_def payload_back tclass_parses tsource_parses)

lemma setup_parses:
  assumes "sound_setup m"
  shows "setup_parse lib sw (setup_serialize_as_string lib sw m) (new_setup_message lib) = (parsed_fields m, At_end)"
proof -
  let ?reads = "reads_to lib (setup_field lib sw) setup_unknown (\<lambda>u m. m\<lparr>setup_unknown := u\<rparr>)"
  let ?m2 = "(new_setup_message lib)\<lparr>setup_horizontal := setup_horizontal m, setup_vertical := setup_vertical m\<rparr>"
  let ?m3 = "?m2\<lparr>setup_trig := map_option (\<lambda>t. t\<lparr>tclass_cached_size := 0\<rparr>) (setup_trig m)\<rparr>"
  let ?m4 = "?m3\<lparr>setup_source := map_option (\<lambda>t. t\<lparr>tsource_cached_size := 0\<rparr>) (setup_source m)\<rparr>"
  have last: "?m4 = parsed_fields m"
    using assms by (cases m) (simp add: sound_setup_def new_setup_message_def parsed_fields_def)
  have r4: "?reads (inner 4 (source_body m) @ []) ?m3 ?m4"
  proof (rule reads_to_inner)
    fix p
    assume p: "source_body m = Some p"
    then obtain t where t: "setup_source m = Some t" "p = tsource_serialize lib sw t []" by (auto simp: source_body_def)
    with assms have "sound_source t" "length p < 2147483648"
      using tsource_length [of t] by (auto simp: sound_setup_def sound_source_def)
    then show "length p < 2147483648 \<and> setup_field lib sw (of_nat (8 * 4 + 2))
        (wire_varint32 lib (of_nat (length p)) @ p @ []) ?m3 = Some (?m4, Some [])"
      using t setup_inner_fields(2) [of t p ?m3 "[]"] by (simp add: new_setup_message_def)
  qed (auto simp: source_body_def new_setup_message_def)
  have r3: "?reads (inner 3 (trig_body m) @ inner 4 (source_body m) @ []) ?m2 ?m4"
  proof (rule reads_to_inner)
    fix p
    assume p: "trig_body m = Some p"
    then obtain t where t: "setup_trig m = Some t" "p = tclass_serialize lib t []" by (auto simp: trig_body_def)
    with assms have "tclass_unknown t = no_unknown lib" "length p < 2147483648"
      using tclass_length [of t] by (auto simp: sound_setup_def)
    then show "length p < 2147483648 \<and> setup_field lib sw (of_nat (8 * 3 + 2))
        (wire_varint32 lib (of_nat (length p)) @ p @ inner 4 (source_body m) @ []) ?m2 =
        Some (?m3, Some (inner 4 (source_body m) @ []))"
      using t setup_inner_fields(1) [of t p ?m2 "inner 4 (source_body m) @ []"] by (simp add: new_setup_message_def)
  qed (use r4 in \<open>auto simp: trig_body_def new_setup_message_def\<close>)
  have "?reads (setup_serialize_as_string lib sw m) (new_setup_message lib) ?m4"
    unfolding setup_bytes [OF assms]
    by (rule reads_to_double, simp, simp, simp add: setup_fields del: append_Nil2,
        use assms in \<open>simp add: sound_setup_def positive_zero_def new_setup_message_def\<close>,
        rule reads_to_double, simp, simp, simp add: setup_fields del: append_Nil2,
        use assms in \<open>simp add: sound_setup_def positive_zero_def new_setup_message_def\<close>)
      (rule r3)
  from reads_to_start [OF this] show ?thesis unfolding last by (simp add: setup_parse_def)
qed

lemma inner_length:
  "1 \<le> f \<Longrightarrow> f \<le> 15 \<Longrightarrow> length p < 2147483648 \<Longrightarrow> length (inner f (Some p)) = 1 + message_size sw (length p)"
  using cached [of "length p"] by (simp add: inner_def tag_length length_delimited_type_def payload_length)

lemma setup_length:
  assumes "sound_setup m"
  shows "length (setup_serialize_as_string lib sw m) = fst (setup_byte_size lib sw m)"
proof -
  have "length (inner 3 (trig_body m)) =
      (case map_option (tclass_byte_size lib) (setup_trig m) of None \<Rightarrow> 0 | Some (k, t) \<Rightarrow> 1 + message_size sw k)"
    using assms tclass_length
    by (auto simp: trig_body_def inner_def [of _ None] inner_length sound_setup_def split: option.splits prod.splits)
  moreover have "length (inner 4 (source_body m)) =
      (case map_option (tsource_byte_size lib) (setup_source m) of None \<Rightarrow> 0 | Some (k, t) \<Rightarrow> 1 + message_size sw k)"
    using assms tsource_length
    by (auto simp: source_body_def inner_def [of _ None] inner_length sound_setup_def sound_source_def
        split: option.splits prod.splits)
  moreover have "setup_unknown m = no_unknown lib" using assms by (simp add: sound_setup_def)
  ultimately show ?thesis
    unfolding setup_bytes [OF assms]
    by (simp add: setup_byte_size_def Let_def setup_piece_lengths size_unknown_def none_unknown)
qed

section \<open>DigitizerSetupMessage\<close>

lemma dsetup_fields:
  "dsetup_field lib sw 9 (wire_double sw d @ rest) m = Some (m\<lparr>dsetup_horizontal := d\<rparr>, Some rest)"
  "dsetup_field lib sw 17 (wire_double sw d @ rest) m = Some (m\<lparr>dsetup_vertical := d\<rparr>, Some rest)"
  "dsetup_field lib sw 25 (wire_double sw d @ rest) m = Some (m\<lparr>dsetup_trig_class := d\<rparr>, Some rest)"
  "dsetup_field lib sw 33 (wire_double sw d @ rest) m = Some (m\<lparr>dsetup_trig_source := d\<rparr>, Some rest)"
  "dsetup_field lib sw 40 (wire_int32 lib i @ rest) m = Some (m\<lparr>dsetup_mode := i\<rparr>, Some rest)"
  "dsetup_field lib sw 48 (wire_uint32 lib u @ rest) m = Some (m\<lparr>dsetup_samples := u\<rparr>, Some rest)"
  "dsetup_field lib sw 56 (wire_uint32 lib u @ rest) m = Some (m\<lparr>dsetup_segments := u\<rparr>, Some rest)"
  "dsetup_field lib sw 64 (wire_uint32 lib u @ rest) m = Some (m\<lparr>dsetup_post_samples := u\<rparr>, Some rest)"
  "dsetup_field lib sw 72 (wire_uint32 lib u @ rest) m = Some (m\<lparr>dsetup_pre_samples := u\<rparr>, Some rest)"
  by (simp_all add: dsetup_field_def field_readers)

lemma dsetup_bytes:
  "dsetup_unknown m = no_unknown lib \<Longrightarrow> dsetup_serialize_as_string lib sw m =
     write_double lib sw 1 (dsetup_horizontal m) [] @ write_double lib sw 2 (dsetup_vertical m) [] @
     write_double lib sw 3 (dsetup_trig_class m) [] @ write_double lib sw 4 (dsetup_trig_source m) [] @
     write_int32 lib 5 (dsetup_mode m) [] @ write_uint32 lib 6 (dsetup_samples m) [] @
     write_uint32 lib 7 (dsetup_segments m) [] @ write_uint32 lib 8 (dsetup_post_samples m) [] @
     write_uint32 lib 9 (dsetup_pre_samples m) [] @ []"
  by (simp add: dsetup_serialize_as_string_def dsetup_byte_size_def dsetup_serialize_def Let_def write_unknown_def
      none_unknown write_appends setup_write_appends)

lemma dsetup_parses:
  assumes "dsetup_unknown m = no_unknown lib" "positive_zero (dsetup_horizontal m)" "positive_zero (dsetup_vertical m)"
    and "positive_zero (dsetup_trig_class m)" "positive_zero (dsetup_trig_source m)"
  shows "dsetup_parse lib sw (dsetup_serialize_as_string lib sw m) (new_digitizer_setup_message lib) =
    (m\<lparr>dsetup_cached_size := 0\<rparr>, At_end)"
proof -
  have "reads_to lib (dsetup_field lib sw) dsetup_unknown (\<lambda>u m. m\<lparr>dsetup_unknown := u\<rparr>)
      (dsetup_serialize_as_string lib sw m) (new_digitizer_setup_message lib) (m\<lparr>dsetup_cached_size := 0\<rparr>)"
    unfolding dsetup_bytes [OF assms(1)]
    by (rule reads_to_double, simp, simp, simp add: dsetup_fields del: append_Nil2,
        use assms in \<open>simp add: positive_zero_def new_digitizer_setup_message_def\<close>)+
      (rule reads_to_int32, simp, simp, simp add: dsetup_fields del: append_Nil2, simp add: new_digitizer_setup_message_def,
       (rule reads_to_uint32, simp, simp, simp add: dsetup_fields del: append_Nil2, simp add: new_digitizer_setup_message_def)+,
       use assms in \<open>cases m; simp add: new_digitizer_setup_message_def reads_to_nothing\<close>)
  from reads_to_start [OF this] show ?thesis by (simp add: dsetup_parse_def)
qed

lemma dsetup_length:
  "dsetup_unknown m = no_unknown lib \<Longrightarrow>
   length (dsetup_serialize_as_string lib sw m) = fst (dsetup_byte_size lib m)"
  by (simp add: dsetup_bytes dsetup_byte_size_def Let_def piece_lengths setup_piece_lengths size_unknown_def none_unknown)

end

section \<open>Copying and swapping\<close>

text \<open>A copy has the contents of the other message, as far as the library's unknown fields do, and keeps its own
  size; a negative zero is not copied. Swapping changes everything but the sizes.\<close>

lemma message_copies:
  "merge_unknown lib (no_unknown lib) (tclass_unknown c) = tclass_unknown c \<Longrightarrow>
   tclass_copy lib False c c' = c\<lparr>tclass_cached_size := tclass_cached_size c'\<rparr>"
  "merge_unknown lib (no_unknown lib) (tsource_unknown s) = tsource_unknown s \<Longrightarrow>
   positive_zero (tsource_level_1 s) \<Longrightarrow> positive_zero (tsource_level_2 s) \<Longrightarrow>
   tsource_copy lib False s s' = s\<lparr>tsource_cached_size := tsource_cached_size s'\<rparr>"
  "merge_unknown lib (no_unknown lib) (dsetup_unknown d) = dsetup_unknown d \<Longrightarrow>
   positive_zero (dsetup_horizontal d) \<Longrightarrow> positive_zero (dsetup_vertical d) \<Longrightarrow>
   positive_zero (dsetup_trig_class d) \<Longrightarrow> positive_zero (dsetup_trig_source d) \<Longrightarrow>
   dsetup_copy lib False d d' = d\<lparr>dsetup_cached_size := dsetup_cached_size d'\<rparr>"
  by (auto simp: tclass_copy_def tclass_merge_def tclass_clear_def tsource_copy_def tsource_merge_def tsource_clear_def
      dsetup_copy_def dsetup_merge_def dsetup_clear_def positive_zero_def
      intro!: trig_class_message.equality trig_source_message.equality digitizer_setup_message.equality)

text \<open>The messages inside are made new, so their sizes are not copied either.\<close>

lemma setup_copies:
  assumes "\<And>u. merge_unknown lib (no_unknown lib) u = u" "positive_zero (setup_horizontal m)" "positive_zero (setup_vertical m)"
    and "\<And>s. setup_source m = Some s \<Longrightarrow> positive_zero (tsource_level_1 s) \<and> positive_zero (tsource_level_2 s)"
  shows "setup_copy lib False m m' = (parsed_fields m)\<lparr>setup_cached_size := setup_cached_size m'\<rparr>"
proof -
  have trig: "tclass_merge lib c (new_trig_class_message lib) = c\<lparr>tclass_cached_size := 0\<rparr>" for c
    using assms(1) by (simp add: tclass_merge_def new_trig_class_message_def)
  have source: "positive_zero (tsource_level_1 s) \<Longrightarrow> positive_zero (tsource_level_2 s) \<Longrightarrow>
      tsource_merge lib s (new_trig_source_message lib) = s\<lparr>tsource_cached_size := 0\<rparr>" for s
    using assms(1) by (auto simp: tsource_merge_def new_trig_source_message_def positive_zero_def
        intro!: trig_source_message.equality)
  show ?thesis
    using assms
    by (auto simp: setup_copy_def setup_merge_def setup_clear_def parsed_fields_def positive_zero_def trig
        intro!: setup_message.equality source split: option.splits)
qed

lemma message_swaps:
  "tclass_swap (tclass_swap c) = c" "tsource_swap (tsource_swap s) = s"
  "setup_swap (setup_swap m) = m" "dsetup_swap (dsetup_swap d) = d"
  by (cases c; cases s; cases m; cases d;
      simp add: tclass_swap_def tsource_swap_def setup_swap_def dsetup_swap_def)+

end
