(* ===== verification/Message_Streams.thy ===== *)
theory Message_Streams
  imports Messages_Roundtrip Setup_Roundtrip
begin

text \<open>
  The other serialiser of each message (\<open>SerializeWithCachedSizes\<close> of \<open>message.pb.cpp\<close>), which writes to
  a stream of the library: a field that is not left out is its tag and then its value. It writes the octets of the
  serialiser into an array. For \<open>Message\<close>, both are in \<open>Messages\<close>. And the copy constructors, which
  unlike \<open>CopyFrom\<close> copy a negative zero.
\<close>

section \<open>Writing to a stream\<close>

definition stream_field :: "'f wire \<Rightarrow> nat \<Rightarrow> nat \<Rightarrow> bool \<Rightarrow> string \<Rightarrow> string \<Rightarrow> string" where
  "stream_field lib f t present body out = (if present then (out @ wire_tag lib f t) @ body else out)"

text \<open>A message inside is written through its own serialiser, after its tag and the size kept in it.\<close>

definition stream_message :: "'f wire \<Rightarrow> nat \<Rightarrow> i32 \<Rightarrow> (string \<Rightarrow> string) \<Rightarrow> string \<Rightarrow> string" where
  "stream_message lib f cached_size serialize out =
     serialize ((out @ wire_tag lib f length_delimited_type) @ wire_varint32 lib (ucast cached_size))"

definition tof_serialize_stream :: "'f wire \<Rightarrow> 'f tof_width_message \<Rightarrow> string \<Rightarrow> string" where
  "tof_serialize_stream lib m out =
     write_unknown lib (tof_unknown m)
       (stream_field lib 2 varint_type (tof_num_samples m \<noteq> 0) (wire_uint64 lib (tof_num_samples m))
         (stream_field lib 1 varint_type (pusher_pulse_width m \<noteq> 0) (wire_uint64 lib (pusher_pulse_width m)) out))"

definition uimf_serialize_stream :: "'f wire \<Rightarrow> 'f uimf_request_message \<Rightarrow> string \<Rightarrow> string" where
  "uimf_serialize_stream lib m out =
     write_unknown lib (req_unknown m)
       (stream_field lib 8 varint_type (req_frame_type m \<noteq> 0) (wire_enum lib (req_frame_type m))
         (stream_field lib 7 length_delimited_type (0 < length (req_file_name m)) (wire_string lib (req_file_name m))
           (stream_field lib 6 varint_type (req_offset_bins m \<noteq> 0) (wire_uint32 lib (req_offset_bins m))
             (stream_field lib 5 varint_type (req_frame_number m \<noteq> 0) (wire_uint32 lib (req_frame_number m))
               (stream_field lib 4 varint_type (req_nbr_accumulations m \<noteq> 0) (wire_uint64 lib (req_nbr_accumulations m))
                 (stream_field lib 3 varint_type (req_frame_length m \<noteq> 0) (wire_uint64 lib (req_frame_length m))
                   (stream_field lib 2 varint_type (req_nbr_samples m \<noteq> 0) (wire_uint64 lib (req_nbr_samples m))
                     (stream_field lib 1 varint_type (req_start_trigger m \<noteq> 0) (wire_uint64 lib (req_start_trigger m)) out))))))))"

definition tclass_serialize_stream :: "'f wire \<Rightarrow> 'f trig_class_message \<Rightarrow> string \<Rightarrow> string" where
  "tclass_serialize_stream lib m out =
     write_unknown lib (tclass_unknown m)
       (stream_field lib 2 varint_type (tclass_source_pattern m \<noteq> 0) (wire_int32 lib (tclass_source_pattern m))
         (stream_field lib 1 varint_type (tclass_trig_class m \<noteq> 0) (wire_enum lib (tclass_trig_class m)) out))"

definition tsource_serialize_stream :: "'f wire \<Rightarrow> setup_wire \<Rightarrow> 'f trig_source_message \<Rightarrow> string \<Rightarrow> string" where
  "tsource_serialize_stream lib sw m out =
     write_unknown lib (tsource_unknown m)
       (stream_field lib 4 fixed64_type (\<not> zero_double (tsource_level_2 m)) (wire_double sw (tsource_level_2 m))
         (stream_field lib 3 fixed64_type (\<not> zero_double (tsource_level_1 m)) (wire_double sw (tsource_level_1 m))
           (stream_field lib 2 varint_type (tsource_coupling m \<noteq> 0) (wire_enum lib (tsource_coupling m))
             (stream_field lib 1 varint_type (tsource_channel m \<noteq> 0) (wire_int32 lib (tsource_channel m)) out))))"

definition setup_serialize_stream :: "'f wire \<Rightarrow> setup_wire \<Rightarrow> 'f setup_message \<Rightarrow> string \<Rightarrow> string" where
  "setup_serialize_stream lib sw m out =
     write_unknown lib (setup_unknown m)
       ((case setup_source m of None \<Rightarrow> id
          | Some t \<Rightarrow> stream_message lib 4 (tsource_cached_size t) (tsource_serialize_stream lib sw t))
         ((case setup_trig m of None \<Rightarrow> id
            | Some t \<Rightarrow> stream_message lib 3 (tclass_cached_size t) (tclass_serialize_stream lib t))
           (stream_field lib 2 fixed64_type (\<not> zero_double (setup_vertical m)) (wire_double sw (setup_vertical m))
             (stream_field lib 1 fixed64_type (\<not> zero_double (setup_horizontal m)) (wire_double sw (setup_horizontal m)) out))))"

definition dsetup_serialize_stream :: "'f wire \<Rightarrow> setup_wire \<Rightarrow> 'f digitizer_setup_message \<Rightarrow> string \<Rightarrow> string" where
  "dsetup_serialize_stream lib sw m out =
     write_unknown lib (dsetup_unknown m)
       (stream_field lib 9 varint_type (dsetup_pre_samples m \<noteq> 0) (wire_uint32 lib (dsetup_pre_samples m))
         (stream_field lib 8 varint_type (dsetup_post_samples m \<noteq> 0) (wire_uint32 lib (dsetup_post_samples m))
           (stream_field lib 7 varint_type (dsetup_segments m \<noteq> 0) (wire_uint32 lib (dsetup_segments m))
             (stream_field lib 6 varint_type (dsetup_samples m \<noteq> 0) (wire_uint32 lib (dsetup_samples m))
               (stream_field lib 5 varint_type (dsetup_mode m \<noteq> 0) (wire_int32 lib (dsetup_mode m))
                 (stream_field lib 4 fixed64_type (\<not> zero_double (dsetup_trig_source m)) (wire_double sw (dsetup_trig_source m))
                   (stream_field lib 3 fixed64_type (\<not> zero_double (dsetup_trig_class m)) (wire_double sw (dsetup_trig_class m))
                     (stream_field lib 2 fixed64_type (\<not> zero_double (dsetup_vertical m)) (wire_double sw (dsetup_vertical m))
                       (stream_field lib 1 fixed64_type (\<not> zero_double (dsetup_horizontal m)) (wire_double sw (dsetup_horizontal m)) out)))))))))"

section \<open>Both serialisers write the same\<close>

lemma stream_field_eq:
  "stream_field lib f varint_type (v \<noteq> 0) (wire_uint64 lib v) = write_uint64 lib f v"
  "stream_field lib f varint_type (w \<noteq> 0) (wire_uint32 lib w) = write_uint32 lib f w"
  "stream_field lib f varint_type (e \<noteq> 0) (wire_enum lib e) = write_enum lib f e"
  "stream_field lib f varint_type (i \<noteq> 0) (wire_int32 lib i) = write_int32 lib f i"
  "stream_field lib f length_delimited_type (s \<noteq> []) (wire_string lib s) = write_string lib f s"
  "stream_field lib f fixed64_type (\<not> zero_double d) (wire_double sw d) = write_double lib sw f d"
  "stream_message lib f c ser = write_message lib f c ser"
  by (simp_all add: fun_eq_iff stream_field_def write_uint64_def write_uint32_def write_enum_def write_int32_def
      write_string_def write_double_def stream_message_def write_message_def)

lemma tof_streams: "tof_serialize_stream lib m = tof_serialize lib m"
  by (simp add: fun_eq_iff tof_serialize_stream_def tof_serialize_def stream_field_eq cong: option.case_cong)

lemma uimf_streams: "uimf_serialize_stream lib m = uimf_serialize lib m"
  by (simp add: fun_eq_iff uimf_serialize_stream_def uimf_serialize_def stream_field_eq cong: option.case_cong)

lemma tclass_streams: "tclass_serialize_stream lib m = tclass_serialize lib m"
  by (simp add: fun_eq_iff tclass_serialize_stream_def tclass_serialize_def stream_field_eq cong: option.case_cong)

lemma tsource_streams: "tsource_serialize_stream lib sw m = tsource_serialize lib sw m"
  by (simp add: fun_eq_iff tsource_serialize_stream_def tsource_serialize_def stream_field_eq cong: option.case_cong)

lemma setup_streams: "setup_serialize_stream lib sw m = setup_serialize lib sw m"
  by (simp add: fun_eq_iff setup_serialize_stream_def setup_serialize_def stream_field_eq tclass_streams tsource_streams cong: option.case_cong)

lemma dsetup_streams: "dsetup_serialize_stream lib sw m = dsetup_serialize lib sw m"
  by (simp add: fun_eq_iff dsetup_serialize_stream_def dsetup_serialize_def stream_field_eq cong: option.case_cong)

section \<open>Copy constructors\<close>

definition tof_from :: "'f wire \<Rightarrow> 'f tof_width_message \<Rightarrow> 'f tof_width_message" where
  "tof_from lib from =
     \<lparr>pusher_pulse_width = pusher_pulse_width from, tof_num_samples = tof_num_samples from, tof_cached_size = 0,
      tof_unknown = merge_unknown lib (no_unknown lib) (tof_unknown from)\<rparr>"

definition uimf_from :: "'f wire \<Rightarrow> 'f uimf_request_message \<Rightarrow> 'f uimf_request_message" where
  "uimf_from lib from =
     \<lparr>req_start_trigger = req_start_trigger from, req_nbr_samples = req_nbr_samples from,
      req_frame_length = req_frame_length from, req_nbr_accumulations = req_nbr_accumulations from,
      req_frame_number = req_frame_number from, req_offset_bins = req_offset_bins from,
      req_file_name = (if req_file_name from \<noteq> [] then req_file_name from else []),
      req_frame_type = req_frame_type from, req_cached_size = 0,
      req_unknown = merge_unknown lib (no_unknown lib) (req_unknown from)\<rparr>"

definition tclass_from :: "'f wire \<Rightarrow> 'f trig_class_message \<Rightarrow> 'f trig_class_message" where
  "tclass_from lib from =
     \<lparr>tclass_trig_class = tclass_trig_class from, tclass_source_pattern = tclass_source_pattern from,
      tclass_cached_size = 0, tclass_unknown = merge_unknown lib (no_unknown lib) (tclass_unknown from)\<rparr>"

definition tsource_from :: "'f wire \<Rightarrow> 'f trig_source_message \<Rightarrow> 'f trig_source_message" where
  "tsource_from lib from =
     \<lparr>tsource_channel = tsource_channel from, tsource_coupling = tsource_coupling from,
      tsource_level_1 = tsource_level_1 from, tsource_level_2 = tsource_level_2 from, tsource_cached_size = 0,
      tsource_unknown = merge_unknown lib (no_unknown lib) (tsource_unknown from)\<rparr>"

definition setup_from :: "'f wire \<Rightarrow> 'f setup_message \<Rightarrow> 'f setup_message" where
  "setup_from lib from =
     \<lparr>setup_horizontal = setup_horizontal from, setup_vertical = setup_vertical from,
      setup_trig = map_option (tclass_from lib) (setup_trig from),
      setup_source = map_option (tsource_from lib) (setup_source from), setup_cached_size = 0,
      setup_unknown = merge_unknown lib (no_unknown lib) (setup_unknown from)\<rparr>"

definition dsetup_from :: "'f wire \<Rightarrow> 'f digitizer_setup_message \<Rightarrow> 'f digitizer_setup_message" where
  "dsetup_from lib from =
     \<lparr>dsetup_horizontal = dsetup_horizontal from, dsetup_vertical = dsetup_vertical from,
      dsetup_trig_class = dsetup_trig_class from, dsetup_trig_source = dsetup_trig_source from,
      dsetup_mode = dsetup_mode from, dsetup_samples = dsetup_samples from, dsetup_segments = dsetup_segments from,
      dsetup_post_samples = dsetup_post_samples from, dsetup_pre_samples = dsetup_pre_samples from,
      dsetup_cached_size = 0, dsetup_unknown = merge_unknown lib (no_unknown lib) (dsetup_unknown from)\<rparr>"

definition message_from :: "'f wire \<Rightarrow> 'f message_pb \<Rightarrow> 'f message_pb" where
  "message_from lib from =
     \<lparr>msg_mz = msg_mz from, msg_tic = msg_tic from, msg_time_stamps = msg_time_stamps from, mz_cached_byte_size = 0,
      tic_cached_byte_size = 0, time_stamps_cached_byte_size = 0, message_cached_size = 0,
      message_unknown = merge_unknown lib (no_unknown lib) (message_unknown from)\<rparr>"

text \<open>A library that merges nothing with \<open>u\<close> gets \<open>u\<close>; then a copy is its original, not yet sized.\<close>

lemma constructed_copies:
  assumes "\<And>u. merge_unknown lib (no_unknown lib) u = u"
  shows
  "tof_from lib tof0 = tof0\<lparr>tof_cached_size := 0\<rparr>"
  "uimf_from lib uimf0 = uimf0\<lparr>req_cached_size := 0\<rparr>"
  "tclass_from lib tclass0 = tclass0\<lparr>tclass_cached_size := 0\<rparr>"
  "tsource_from lib tsource0 = tsource0\<lparr>tsource_cached_size := 0\<rparr>"
  "dsetup_from lib dsetup0 = dsetup0\<lparr>dsetup_cached_size := 0\<rparr>"
    "message_from lib msg = msg\<lparr>mz_cached_byte_size := 0, tic_cached_byte_size := 0, time_stamps_cached_byte_size := 0,
       message_cached_size := 0\<rparr>"
  using assms
  by (simp_all add: tof_from_def uimf_from_def tclass_from_def tsource_from_def dsetup_from_def message_from_def)

lemma constructed_setup:
  assumes "\<And>u. merge_unknown lib (no_unknown lib) u = u"
  shows "setup_from lib m = parsed_fields m"
proof -
  have "tclass_from lib = (\<lambda>t. t\<lparr>tclass_cached_size := 0\<rparr>)" "tsource_from lib = (\<lambda>t. t\<lparr>tsource_cached_size := 0\<rparr>)"
    using constructed_copies [of lib, OF assms] by (simp_all add: fun_eq_iff)
  then show ?thesis using assms by (simp add: setup_from_def parsed_fields_def)
qed

end
