(* ===== verification/Pub_Sub.thy ===== *)
theory Pub_Sub
  imports Prelude
begin

text \<open>
  \<open>Subscriber\<close> and \<open>Publisher\<close>: a publisher puts items into the locked queue
  of each subscriber that asked for their kind, and every subscriber has a worker thread that moves
  items out of the queue and hands them to \<open>on_notify\<close>. A thread is its program counter, and a
  step of it is what it does between two points where another thread can act; a step under the queue's
  lock is one step. What \<open>on_notify\<close> does is a parameter, a function on the state it keeps.
\<close>

section \<open>Kinds of subscribers\<close>

type_synonym subscriber_type = u8

definition ACQUIRE :: subscriber_type where
  "ACQUIRE = push_bit 0 1"

definition ACQUIRE_FRAME :: subscriber_type where
  "ACQUIRE_FRAME = push_bit 1 1"

definition BOTH :: subscriber_type where
  "BOTH = push_bit 0 1 OR push_bit 1 1"

definition type_or :: "subscriber_type \<Rightarrow> subscriber_type \<Rightarrow> subscriber_type" where
  "type_or left right = left OR right"

definition type_and :: "subscriber_type \<Rightarrow> subscriber_type \<Rightarrow> subscriber_type" where
  "type_and left right = left AND right"

section \<open>Subscriber\<close>

datatype worker_pc = No_thread | Created | Testing | Sleeping | Delivering | Completing | Ended

record ('a, 's) subscriber =
  items :: "'a list"
  protected_queue :: "'a list"
  is_running :: bool
  worker_pc :: worker_pc
  future_taken :: bool
  has_completed :: bool
  handled :: 's

definition new_subscriber :: "'s \<Rightarrow> ('a, 's) subscriber" where
  "new_subscriber h =
     \<lparr>items = [], protected_queue = [], is_running = False, worker_pc = No_thread,
      future_taken = False, has_completed = False, handled = h\<rparr>"

text \<open>
  \<open>setup\<close> starts the worker once it is not known to run: a second call before the thread has
  set \<open>is_running\<close> assigns to a joinable thread, which ends the process, and a second call
  after it takes the future twice.
\<close>

definition setup_subscriber :: "('a, 's) subscriber \<Rightarrow> ('a, 's) subscriber result" where
  "setup_subscriber s =
     bindR (if is_running s then Inr s
            else if worker_pc s = No_thread then Inr (s\<lparr>worker_pc := Created\<rparr>)
            else Inl (Other_throw ''std::terminate'')) (\<lambda>s'.
       if future_taken s' then Inl Future_error else Inr (s'\<lparr>future_taken := True\<rparr>))"

definition update :: "'a \<Rightarrow> ('a, 's) subscriber \<Rightarrow> ('a, 's) subscriber" where
  "update x s = s\<lparr>protected_queue := protected_queue s @ [x]\<rparr>"

text \<open>
  The loop that moves items out of the queue counts up to a size that goes down as it does, so it
  stops half way.
\<close>

fun drain_from :: "nat \<Rightarrow> 'a list \<Rightarrow> 'a list \<times> 'a list" where
  "drain_from i [] = ([], [])"
| "drain_from i (x # q) =
     (if i < Suc (length q)
      then (case drain_from (Suc i) q of (moved, rest) \<Rightarrow> (x # moved, rest))
      else ([], x # q))"

definition drain :: "'a list \<Rightarrow> 'a list \<times> 'a list" where
  "drain q = drain_from 0 q"

text \<open>One step of the worker; none when there is nothing for it to do any more.\<close>

definition worker_step :: "('a \<Rightarrow> 's \<Rightarrow> 's) \<Rightarrow> ('s \<Rightarrow> 's) \<Rightarrow> bool \<Rightarrow> ('a, 's) subscriber \<Rightarrow> ('a, 's) subscriber option" where
  "worker_step on_notify on_completed stop_ready s =
     (case worker_pc s of
        No_thread \<Rightarrow> None
      | Created \<Rightarrow> Some (s\<lparr>is_running := True, worker_pc := Testing\<rparr>)
      | Testing \<Rightarrow>
          Some (s\<lparr>worker_pc :=
            if \<not> stop_ready \<or> items s \<noteq> [] \<or> protected_queue s \<noteq> [] then Sleeping else Completing\<rparr>)
      | Sleeping \<Rightarrow>
          (case drain (protected_queue s) of (moved, rest) \<Rightarrow>
             Some (s\<lparr>items := items s @ moved, protected_queue := rest, worker_pc := Delivering\<rparr>))
      | Delivering \<Rightarrow>
          (case items s of
             [] \<Rightarrow> Some (s\<lparr>worker_pc := Testing\<rparr>)
           | x # xs \<Rightarrow> Some (s\<lparr>items := xs, handled := on_notify x (handled s)\<rparr>))
      | Completing \<Rightarrow>
          Some (s\<lparr>handled := on_completed (handled s), has_completed := True, worker_pc := Ended\<rparr>)
      | Ended \<Rightarrow> None)"

section \<open>Publisher\<close>

record ('a, 's) publisher =
  subscribers :: "(subscriber_type \<times> nat) list"
  completed :: bool
  subscriber_at :: "nat \<Rightarrow> ('a, 's) subscriber"

definition new_publisher :: "(nat \<Rightarrow> ('a, 's) subscriber) \<Rightarrow> ('a, 's) publisher" where
  "new_publisher store = \<lparr>subscribers = [], completed = False, subscriber_at = store\<rparr>"

definition map_subscriber :: "nat \<Rightarrow> (('a, 's) subscriber \<Rightarrow> ('a, 's) subscriber) \<Rightarrow>
    ('a, 's) publisher \<Rightarrow> ('a, 's) publisher" where
  "map_subscriber i f p = p\<lparr>subscriber_at := (subscriber_at p)(i := f (subscriber_at p i))\<rparr>"

definition register_subscriber :: "nat \<Rightarrow> subscriber_type \<Rightarrow> ('a, 's) publisher \<Rightarrow> ('a, 's) publisher result" where
  "register_subscriber i t p =
     bindR (setup_subscriber (subscriber_at p i)) (\<lambda>s.
       Inr ((map_subscriber i (\<lambda>_. s) p)\<lparr>subscribers := subscribers p @ [(t, i)]\<rparr>))"

fun remove_subscriber :: "nat \<Rightarrow> (subscriber_type \<times> nat) list \<Rightarrow> (subscriber_type \<times> nat) list" where
  "remove_subscriber i [] = []"
| "remove_subscriber i (tj # subs) = (if snd tj = i then subs else tj # remove_subscriber i subs)"

definition unregister_subscriber :: "nat \<Rightarrow> ('a, 's) publisher \<Rightarrow> ('a, 's) publisher" where
  "unregister_subscriber i p = p\<lparr>subscribers := remove_subscriber i (subscribers p)\<rparr>"

definition notify_one :: "'a \<Rightarrow> subscriber_type \<Rightarrow> subscriber_type \<times> nat \<Rightarrow> ('a, 's) publisher \<Rightarrow> ('a, 's) publisher" where
  "notify_one x t sub p =
     (if type_and t (fst sub) \<noteq> 0 then map_subscriber (snd sub) (update x) p else p)"

definition notify :: "'a \<Rightarrow> subscriber_type \<Rightarrow> ('a, 's) publisher \<Rightarrow> ('a, 's) publisher" where
  "notify x t p = fold (notify_one x t) (subscribers p) p"

definition notify_completed :: "('a, 's) publisher \<Rightarrow> ('a, 's) publisher result" where
  "notify_completed p = (if completed p then Inl Future_error else Inr (p\<lparr>completed := True\<rparr>))"

text \<open>\<open>notify_completed_and_wait\<close> returns once every registered subscriber has completed.\<close>

definition all_completed :: "('a, 's) publisher \<Rightarrow> bool" where
  "all_completed p \<longleftrightarrow> list_all (\<lambda>(t, i). has_completed (subscriber_at p i)) (subscribers p)"

section \<open>Interleavings\<close>

datatype 'a event = Published 'a subscriber_type | Completed_signal | Worked nat

text \<open>One step of the publisher's thread or of a worker's.\<close>

inductive pub_step :: "('a \<Rightarrow> 's \<Rightarrow> 's) \<Rightarrow> ('s \<Rightarrow> 's) \<Rightarrow> 'a event \<Rightarrow> ('a, 's) publisher \<Rightarrow> ('a, 's) publisher \<Rightarrow> bool"
  for on_notify on_completed where
  published: "pub_step on_notify on_completed (Published x t) p (notify x t p)"
| signalled: "notify_completed p = Inr p' \<Longrightarrow> pub_step on_notify on_completed Completed_signal p p'"
| worked: "worker_step on_notify on_completed (completed p) (subscriber_at p i) = Some s \<Longrightarrow>
    pub_step on_notify on_completed (Worked i) p (map_subscriber i (\<lambda>_. s) p)"

inductive pub_run :: "('a \<Rightarrow> 's \<Rightarrow> 's) \<Rightarrow> ('s \<Rightarrow> 's) \<Rightarrow> ('a, 's) publisher \<Rightarrow> 'a event list \<Rightarrow> ('a, 's) publisher \<Rightarrow> bool"
  for on_notify on_completed where
  nothing: "pub_run on_notify on_completed p [] p"
| more: "pub_run on_notify on_completed p es p' \<Longrightarrow> pub_step on_notify on_completed e p' p'' \<Longrightarrow>
    pub_run on_notify on_completed p (es @ [e]) p''"

inductive_cases pub_stepE: "pub_step on_notify on_completed e p p'"
inductive_cases pub_run_snocE: "pub_run on_notify on_completed p (es @ [e]) p'"

text \<open>The steps as a function, so that a schedule can be run.\<close>

fun perform :: "('a \<Rightarrow> 's \<Rightarrow> 's) \<Rightarrow> ('s \<Rightarrow> 's) \<Rightarrow> 'a event \<Rightarrow> ('a, 's) publisher \<Rightarrow> ('a, 's) publisher option" where
  "perform on_notify on_completed (Published x t) p = Some (notify x t p)"
| "perform on_notify on_completed Completed_signal p =
     (case notify_completed p of Inl e \<Rightarrow> None | Inr p' \<Rightarrow> Some p')"
| "perform on_notify on_completed (Worked i) p =
     map_option (\<lambda>s. map_subscriber i (\<lambda>_. s) p)
       (worker_step on_notify on_completed (completed p) (subscriber_at p i))"

fun perform_all :: "('a \<Rightarrow> 's \<Rightarrow> 's) \<Rightarrow> ('s \<Rightarrow> 's) \<Rightarrow> 'a event list \<Rightarrow> ('a, 's) publisher \<Rightarrow> ('a, 's) publisher option" where
  "perform_all on_notify on_completed [] p = Some p"
| "perform_all on_notify on_completed (e # es) p =
     Option.bind (perform on_notify on_completed e p) (perform_all on_notify on_completed es)"

lemma pub_step_iff: "pub_step on_notify on_completed e p p' \<longleftrightarrow> perform on_notify on_completed e p = Some p'"
  by (cases e) (auto elim!: pub_stepE intro: pub_step.intros split: sum.splits)

lemma pub_run_append:
  "pub_run on_notify on_completed p' es p'' \<Longrightarrow> pub_run on_notify on_completed p ds p' \<Longrightarrow>
   pub_run on_notify on_completed p (ds @ es) p''"
proof (induction rule: pub_run.induct)
  case (more p' es p1 e p2)
  from pub_run.more [OF more.IH [OF more.prems] more.hyps(2)] show ?case by simp
qed simp

lemma perform_all_run: "perform_all on_notify on_completed es p = Some p' \<Longrightarrow> pub_run on_notify on_completed p es p'"
proof (induction es arbitrary: p)
  case Nil
  then show ?case by (simp add: pub_run.nothing)
next
  case (Cons e es)
  then obtain p1 where p1: "perform on_notify on_completed e p = Some p1"
      "perform_all on_notify on_completed es p1 = Some p'"
    by (auto simp: Option.bind_eq_Some_conv)
  have "pub_run on_notify on_completed p ([] @ [e]) p1"
    using p1(1) by (intro pub_run.more [OF pub_run.nothing]) (simp add: pub_step_iff)
  from pub_run_append [OF Cons.IH [OF p1(2)] this] show ?case by simp
qed

section \<open>Moving items out of the queue\<close>

locale queue_drain =
  fixes move :: "'a list \<Rightarrow> 'a list \<times> 'a list"
  assumes keeps: "fst (move q) @ snd (move q) = q"
    and progress: "q \<noteq> [] \<Longrightarrow> fst (move q) \<noteq> []"
begin

lemma rest_shorter: "q \<noteq> [] \<Longrightarrow> length (snd (move q)) < length q"
  using arg_cong [OF keeps [of q], of length] progress [of q] by (cases "fst (move q)") auto

lemma moved_in_front: "xs @ fst (move q) @ snd (move q) = xs @ q"
  by (simp add: keeps)

lemma nothing_left_behind: "fst (move q) = [] \<longleftrightarrow> q = []"
  using keeps [of q] progress [of q] by (cases "q = []") auto

end

lemma drain_from_keeps: "fst (drain_from i q) @ snd (drain_from i q) = q"
  by (induction i q rule: drain_from.induct) (auto split: prod.split)

lemma drain_from_length: "length (fst (drain_from i q)) = (length q - i + 1) div 2"
proof (induction i q rule: drain_from.induct)
  case (2 i x q)
  show ?case
  proof (cases "i < Suc (length q)")
    case True
    with 2 have "length (fst (drain_from i (x # q))) = Suc ((length q - Suc i + 1) div 2)"
      by (cases "drain_from (Suc i) q") simp
    also have "\<dots> = (length (x # q) - i + 1) div 2"
      using True by (cases "i = length q") (auto simp: Suc_diff_Suc le_div_geq)
    finally show ?thesis .
  qed simp
qed simp

interpretation drain_loop: queue_drain drain
proof unfold_locales
  show "fst (drain q) @ snd (drain q) = q" for q :: "'b list"
    unfolding drain_def by (rule drain_from_keeps)
  show "fst (drain q) \<noteq> []" if "q \<noteq> []" for q :: "'b list"
    using that by (cases q) (simp_all add: drain_def split: prod.split)
qed

section \<open>What a subscriber has been sent\<close>

fun sent_by :: "subscriber_type \<Rightarrow> 'a event \<Rightarrow> 'a list" where
  "sent_by t (Published x u) = (if type_and u t \<noteq> 0 then [x] else [])"
| "sent_by t _ = []"

definition sent_to :: "subscriber_type \<Rightarrow> 'a event list \<Rightarrow> 'a list" where
  "sent_to t es = concat (map (sent_by t) es)"

lemma sent_to_simps [simp]: "sent_to t [] = []" "sent_to t (es @ [e]) = sent_to t es @ sent_by t e"
  by (simp_all add: sent_to_def)

lemma fold_notify_frame:
  "subscribers (fold (notify_one x u) subs p) = subscribers p \<and> completed (fold (notify_one x u) subs p) = completed p"
  by (induction subs arbitrary: p) (auto simp: notify_one_def map_subscriber_def)

lemma fold_notify_other:
  "i \<notin> snd ` set subs \<Longrightarrow> subscriber_at (fold (notify_one x u) subs p) i = subscriber_at p i"
  by (induction subs arbitrary: p) (auto simp: notify_one_def map_subscriber_def)

lemma fold_notify_subscriber:
  "distinct (map snd subs) \<Longrightarrow> (t, i) \<in> set subs \<Longrightarrow>
   subscriber_at (fold (notify_one x u) subs p) i =
     (if type_and u t \<noteq> 0 then update x (subscriber_at p i) else subscriber_at p i)"
proof (induction subs arbitrary: p)
  case (Cons sub subs)
  show ?case
  proof (cases "sub = (t, i)")
    case True
    with Cons.prems have "i \<notin> snd ` set subs" by auto
    then have "subscriber_at (fold (notify_one x u) (sub # subs) p) i = subscriber_at (notify_one x u sub p) i"
      by (simp add: fold_notify_other)
    moreover have "subscriber_at (notify_one x u sub p) i =
        (if type_and u t \<noteq> 0 then update x (subscriber_at p i) else subscriber_at p i)"
      using True by (simp add: notify_one_def map_subscriber_def)
    ultimately show ?thesis by (simp only:)
  next
    case False
    with Cons.prems have "(t, i) \<in> set subs" by auto
    moreover from this have "i \<in> snd ` set subs" by (metis image_eqI snd_conv)
    with Cons.prems have "snd sub \<noteq> i" by auto
    moreover note Cons
    ultimately show ?thesis
      by (simp add: notify_one_def map_subscriber_def)
  qed
qed simp

section \<open>The invariant\<close>

text \<open>
  What a subscriber has handled, holds and has queued is what it was sent, in order; once it stops
  looking at its queue it has handled everything sent until then, and the publisher had completed.
\<close>

definition closing :: "('a, 's) subscriber \<Rightarrow> bool" where
  "closing s \<longleftrightarrow> worker_pc s = Completing \<or> worker_pc s = Ended"

definition in_queue :: "subscriber_type \<Rightarrow> 'a event list \<Rightarrow> ('a, 's) subscriber \<Rightarrow> 'a list \<Rightarrow> bool" where
  "in_queue t es s D \<longleftrightarrow>
     D @ items s @ protected_queue s = sent_to t es \<and>
     (closing s \<longrightarrow> items s = [] \<and>
       (\<exists>es1 es2. es = es1 @ es2 \<and> Completed_signal \<in> set es1 \<and> D = sent_to t es1))"

definition in_step :: "('a \<Rightarrow> 's \<Rightarrow> 's) \<Rightarrow> ('s \<Rightarrow> 's) \<Rightarrow> 's \<Rightarrow> subscriber_type \<Rightarrow> 'a event list \<Rightarrow>
    ('a, 's) subscriber \<Rightarrow> 'a list \<Rightarrow> bool" where
  "in_step on_notify on_completed h t es s D \<longleftrightarrow>
     in_queue t es s D \<and>
     handled s = (if worker_pc s = Ended then on_completed (fold on_notify D h) else fold on_notify D h)"

lemma in_queue_sent:
  assumes "in_queue t es s D"
  shows "in_queue t (es @ [e]) (if sent_by t e = [] then s else update (hd (sent_by t e)) s) D"
proof -
  have "closing s \<Longrightarrow> \<exists>es1 es2. es @ [e] = es1 @ es2 \<and> Completed_signal \<in> set es1 \<and> D = sent_to t es1"
  proof -
    assume "closing s"
    with assms obtain es1 es2 where "es = es1 @ es2" "Completed_signal \<in> set es1" "D = sent_to t es1"
      unfolding in_queue_def by blast
    then show ?thesis by (intro exI [of _ es1] exI [of _ "es2 @ [e]"]) simp
  qed
  then show ?thesis
    using assms by (cases e) (auto simp: in_queue_def update_def closing_def)
qed

lemma in_step_sent:
  "in_step on_notify on_completed h t es s D \<Longrightarrow>
   in_step on_notify on_completed h t (es @ [e]) (if sent_by t e = [] then s else update (hd (sent_by t e)) s) D"
  using in_queue_sent [of t es s D e] by (simp add: in_step_def update_def)

text \<open>
  A step of the worker leaves what was handled, or hands over the next item, or is the last one.
\<close>

lemma worker_step_queued:
  assumes "in_queue t es s D" "worker_step on_notify on_completed stop s = Some s'"
    and "stop \<longrightarrow> Completed_signal \<in> set es"
  shows "worker_pc s \<noteq> Ended \<and>
    ((in_queue t es s' D \<and> handled s' = handled s \<and> worker_pc s \<noteq> Completing \<and> worker_pc s' \<noteq> Ended) \<or>
     (\<exists>x. in_queue t es s' (D @ [x]) \<and> handled s' = on_notify x (handled s) \<and>
        worker_pc s \<noteq> Completing \<and> worker_pc s' \<noteq> Ended) \<or>
     (in_queue t es s' D \<and> handled s' = on_completed (handled s) \<and> worker_pc s = Completing \<and> worker_pc s' = Ended))"
proof (cases "worker_pc s")
  case Created
  with assms show ?thesis by (auto simp: worker_step_def in_queue_def closing_def)
next
  case Testing
  show ?thesis
  proof (cases "\<not> stop \<or> items s \<noteq> [] \<or> protected_queue s \<noteq> []")
    case True
    with Testing assms show ?thesis by (auto simp: worker_step_def in_queue_def closing_def)
  next
    case False
    then have "Completed_signal \<in> set es" "items s = []" "protected_queue s = []" using assms(3) by auto
    moreover have "s' = s\<lparr>worker_pc := Completing\<rparr>"
      using Testing False assms(2) by (simp add: worker_step_def)
    ultimately show ?thesis
      using assms(1) Testing by (auto simp: in_queue_def closing_def)
  qed
next
  case Sleeping
  with assms(1,2) drain_loop.keeps [of "protected_queue s"] show ?thesis
    by (auto simp: worker_step_def in_queue_def closing_def split: prod.splits)
next
  case Delivering
  show ?thesis
  proof (cases "items s")
    case Nil
    with Delivering assms(1,2) show ?thesis
      by (auto simp: worker_step_def in_queue_def closing_def)
  next
    case (Cons x xs)
    with Delivering assms(1,2) have "in_queue t es s' (D @ [x])" "handled s' = on_notify x (handled s)"
        "worker_pc s' = Delivering"
      by (auto simp: worker_step_def in_queue_def closing_def)
    with Delivering show ?thesis by auto
  qed
next
  case Completing
  with assms(1,2) show ?thesis by (auto simp: worker_step_def in_queue_def closing_def)
qed (use assms(2) in \<open>auto simp: worker_step_def\<close>)

lemma in_step_worked:
  assumes "in_step on_notify on_completed h t es s D" "worker_step on_notify on_completed stop s = Some s'"
    and "stop \<Longrightarrow> Completed_signal \<in> set es"
  shows "\<exists>D'. in_step on_notify on_completed h t es s' D'"
proof -
  have q: "in_queue t es s D"
    and h: "handled s = (if worker_pc s = Ended then on_completed (fold on_notify D h) else fold on_notify D h)"
    using assms(1) by (simp_all add: in_step_def)
  have "stop \<longrightarrow> Completed_signal \<in> set es" using assms(3) by blast
  from worker_step_queued [OF q assms(2) this] show ?thesis
  proof (elim conjE disjE exE)
    fix x
    assume "in_queue t es s' (D @ [x])" "handled s' = on_notify x (handled s)" "worker_pc s \<noteq> Ended" "worker_pc s' \<noteq> Ended"
    with h show ?thesis by (intro exI [of _ "D @ [x]"]) (simp add: in_step_def)
  qed (use h in \<open>auto simp: in_step_def\<close>)
qed

text \<open>
  A publisher that has not completed, whose subscribers are registered once each, with nothing left to handle
  and their workers not at the end.
\<close>

definition ready_to_publish :: "('a, 's) publisher \<Rightarrow> bool" where
  "ready_to_publish p \<longleftrightarrow>
     \<not> completed p \<and> distinct (map snd (subscribers p)) \<and>
     list_all (\<lambda>(t, i). items (subscriber_at p i) = [] \<and> protected_queue (subscriber_at p i) = [] \<and>
       \<not> closing (subscriber_at p i)) (subscribers p)"

lemma pub_run_invariant:
  assumes "pub_run on_notify on_completed p es p'" "ready_to_publish p" "(t, i) \<in> set (subscribers p)"
  shows "subscribers p' = subscribers p \<and> (completed p' \<longrightarrow> Completed_signal \<in> set es) \<and>
    (\<exists>D. in_step on_notify on_completed (handled (subscriber_at p i)) t es (subscriber_at p' i) D)"
  using assms
proof (induction rule: pub_run.induct)
  case (nothing p)
  then have "\<forall>x\<in>set (subscribers p). case x of (t, i) \<Rightarrow> items (subscriber_at p i) = [] \<and>
      protected_queue (subscriber_at p i) = [] \<and> \<not> closing (subscriber_at p i)"
    by (simp add: ready_to_publish_def list_all_iff)
  from bspec [OF this nothing.prems(2)] have "items (subscriber_at p i) = [] \<and> protected_queue (subscriber_at p i) = [] \<and>
      \<not> closing (subscriber_at p i)"
    by simp
  then show ?case
    using nothing.prems by (auto simp: ready_to_publish_def in_step_def in_queue_def closing_def)
next
  case (more p es p' e p'')
  let ?h = "handled (subscriber_at p i)"
  from more obtain D where IH: "subscribers p' = subscribers p" "completed p' \<Longrightarrow> Completed_signal \<in> set es"
      "in_step on_notify on_completed ?h t es (subscriber_at p' i) D"
    by blast
  have dist: "distinct (map snd (subscribers p'))"
    using more.prems(1) IH(1) by (simp add: ready_to_publish_def)
  from more.hyps(2) show ?case
  proof (cases rule: pub_step.cases)
    case (published x u)
    have sub: "subscriber_at p'' i = (if sent_by t e = [] then subscriber_at p' i
        else update (hd (sent_by t e)) (subscriber_at p' i))"
      using fold_notify_subscriber [OF dist, of t i x u p'] more.prems(2) IH(1) published
      by (simp add: notify_def)
    have "in_step on_notify on_completed ?h t (es @ [e]) (subscriber_at p'' i) D"
      using in_step_sent [OF IH(3), of e] by (simp add: sub)
    moreover have "subscribers p'' = subscribers p" "completed p'' = completed p'"
      using published IH(1) fold_notify_frame [of x u "subscribers p'" p'] by (simp_all add: notify_def)
    ultimately show ?thesis using IH(2) by auto
  next
    case signalled
    have "in_step on_notify on_completed ?h t (es @ [e]) (subscriber_at p' i) D"
      using in_step_sent [OF IH(3), of e] signalled by simp
    moreover have "subscribers p'' = subscribers p" "subscriber_at p'' = subscriber_at p'"
      using signalled IH(1) by (auto simp: notify_completed_def split: if_splits)
    ultimately show ?thesis using signalled(1) by auto
  next
    case (worked j s)
    show ?thesis
    proof (cases "j = i")
      case True
      have "in_step on_notify on_completed ?h t (es @ [e]) (subscriber_at p' i) D"
        using in_step_sent [OF IH(3), of e] worked by simp
      moreover have "worker_step on_notify on_completed (completed p') (subscriber_at p' i) = Some s"
        using worked True by simp
      moreover have "completed p' \<Longrightarrow> Completed_signal \<in> set (es @ [e])" using IH(2) by simp
      ultimately have "\<exists>D'. in_step on_notify on_completed ?h t (es @ [e]) s D'"
        by (rule in_step_worked)
      with worked True IH(1,2) show ?thesis by (auto simp: map_subscriber_def)
    next
      case False
      have "in_step on_notify on_completed ?h t (es @ [e]) (subscriber_at p' i) D"
        using in_step_sent [OF IH(3), of e] worked by simp
      with worked False IH(1,2) show ?thesis by (auto simp: map_subscriber_def)
    qed
  qed
qed

section \<open>The worker ends\<close>

fun run_worker :: "('a \<Rightarrow> 's \<Rightarrow> 's) \<Rightarrow> ('s \<Rightarrow> 's) \<Rightarrow> nat \<Rightarrow> ('a, 's) subscriber \<Rightarrow> ('a, 's) subscriber" where
  "run_worker on_notify on_completed 0 s = s"
| "run_worker on_notify on_completed (Suc n) s =
     (case worker_step on_notify on_completed True s of
        None \<Rightarrow> s
      | Some s' \<Rightarrow> run_worker on_notify on_completed n s')"

text \<open>The steps the worker has left once the publisher has completed and sends nothing more.\<close>

definition worker_fuel :: "('a, 's) subscriber \<Rightarrow> nat" where
  "worker_fuel s =
     (let n = length (items s) + length (protected_queue s) in
      case worker_pc s of
        No_thread \<Rightarrow> 0
      | Created \<Rightarrow> 5 * n + 6
      | Testing \<Rightarrow> 5 * n + 4
      | Sleeping \<Rightarrow> if n = 0 then 6 else 5 * n + 3
      | Delivering \<Rightarrow> if items s = [] then 5 * n + 5 else 5 * n + 2
      | Completing \<Rightarrow> 1
      | Ended \<Rightarrow> 0)"

lemma drain_length: "length (fst (drain q)) + length (snd (drain q)) = length q"
  using arg_cong [OF drain_loop.keeps [of q], of length] by simp

lemma worker_step_fuel:
  assumes "worker_step on_notify on_completed True s = Some s'"
  shows "worker_fuel s' < worker_fuel s"
proof (cases "worker_pc s")
  case Sleeping
  let ?m = "fst (drain (protected_queue s))" and ?r = "snd (drain (protected_queue s))"
  have s': "s' = s\<lparr>items := items s @ ?m, protected_queue := ?r, worker_pc := Delivering\<rparr>"
    using assms Sleeping by (simp add: worker_step_def split: prod.splits)
  have "items s @ ?m = [] \<longleftrightarrow> items s = [] \<and> protected_queue s = []"
    by (simp add: drain_loop.nothing_left_behind)
  with drain_length [of "protected_queue s"] Sleeping show ?thesis
    by (auto simp: s' worker_fuel_def Let_def)
next
  case Delivering
  with assms show ?thesis
    by (cases "items s") (auto simp: worker_step_def worker_fuel_def Let_def)
qed (use assms in \<open>auto simp: worker_step_def worker_fuel_def Let_def split: if_splits\<close>)

definition left_to_handle :: "('a, 's) subscriber \<Rightarrow> 'a list" where
  "left_to_handle s = items s @ protected_queue s"

lemma worker_step_handles:
  assumes "worker_step on_notify on_completed True s = Some s'" "\<not> closing s"
  shows "fold on_notify (left_to_handle s') (handled s') = fold on_notify (left_to_handle s) (handled s) \<and>
    (closing s' \<longrightarrow> left_to_handle s' = [] \<and> worker_pc s' = Completing)"
proof (cases "worker_pc s")
  case Sleeping
  obtain m r where d: "drain (protected_queue s) = (m, r)" by fastforce
  with drain_loop.keeps [of "protected_queue s"] have "protected_queue s = m @ r" by simp
  with assms Sleeping d show ?thesis
    by (auto simp: worker_step_def left_to_handle_def closing_def)
next
  case Delivering
  with assms show ?thesis
    by (cases "items s") (auto simp: worker_step_def left_to_handle_def closing_def)
qed (use assms in \<open>auto simp: worker_step_def left_to_handle_def closing_def split: if_splits\<close>)

lemma run_worker_sound:
  "worker_fuel s \<le> n \<Longrightarrow> worker_pc s \<noteq> No_thread \<Longrightarrow> \<not> closing s \<Longrightarrow>
   run_worker on_notify on_completed n s =
     (let s' = run_worker on_notify on_completed n s in s') \<and>
   worker_pc (run_worker on_notify on_completed n s) = Ended \<and>
   left_to_handle (run_worker on_notify on_completed n s) = [] \<and>
   has_completed (run_worker on_notify on_completed n s) \<and>
   handled (run_worker on_notify on_completed n s) =
     on_completed (fold on_notify (left_to_handle s) (handled s))"
proof (induction n arbitrary: s)
  case 0
  then show ?case
    by (auto simp: worker_fuel_def Let_def closing_def split: worker_pc.splits if_splits)
next
  case (Suc n)
  obtain s' where s': "worker_step on_notify on_completed True s = Some s'"
    using Suc.prems(2,3)
    by (cases "worker_pc s"; cases "items s"; cases "drain (protected_queue s)")
      (auto simp: worker_step_def closing_def)
  note h = worker_step_handles [OF s' Suc.prems(3)]
  have fuel: "worker_fuel s' \<le> n" using worker_step_fuel [OF s'] Suc.prems(1) by simp
  show ?case
  proof (cases "closing s'")
    case False
    moreover have "worker_pc s' \<noteq> No_thread"
      using s' by (auto simp: worker_step_def split: worker_pc.splits list.splits prod.splits if_splits)
    ultimately show ?thesis using Suc.IH [OF fuel] s' h by simp
  next
    case True
    with h have c: "worker_pc s' = Completing" "left_to_handle s' = []" by simp_all
    then obtain m where "n = Suc m" using fuel by (cases n) (simp_all add: worker_fuel_def Let_def)
    then show ?thesis
      using s' c h
      by (cases m) (simp_all add: worker_step_def left_to_handle_def)
  qed
qed

lemma ended_handled:
  assumes "pub_run on_notify on_completed p es p'" "ready_to_publish p" "(t, i) \<in> set (subscribers p)"
    and "worker_pc (subscriber_at p' i) = Ended"
  shows "\<exists>es1 es2. es = es1 @ es2 \<and> Completed_signal \<in> set es1 \<and>
    handled (subscriber_at p' i) = on_completed (fold on_notify (sent_to t es1) (handled (subscriber_at p i))) \<and>
    items (subscriber_at p' i) = [] \<and> protected_queue (subscriber_at p' i) = sent_to t es2"
proof -
  from pub_run_invariant [OF assms(1-3)] assms(4) obtain D es1 es2 where
    "es = es1 @ es2" "Completed_signal \<in> set es1" "D = sent_to t es1" "items (subscriber_at p' i) = []"
    "D @ items (subscriber_at p' i) @ protected_queue (subscriber_at p' i) = sent_to t es"
    "handled (subscriber_at p' i) = on_completed (fold on_notify D (handled (subscriber_at p i)))"
    by (auto simp: in_step_def in_queue_def closing_def)
  then show ?thesis by (intro exI [of _ es1] exI [of _ es2]) (auto simp: sent_to_def)
qed

section \<open>Properties\<close>

text \<open>C9: whatever the interleaving, a subscriber whose worker has ended has handled exactly once and in
  order every item of its kind that was published up to some point after the publisher completed, so every one
  published before the completion. It holds no item it has taken and not handled; what was published after that
  point, and only that, is still in its queue, where it stays.\<close>

theorem ended_subscriber_handled_everything:
  assumes "pub_run on_notify on_completed p es p'" "ready_to_publish p" "(t, i) \<in> set (subscribers p)"
    and "worker_pc (subscriber_at p' i) = Ended"
  shows "\<exists>es1 es2. es = es1 @ es2 \<and> Completed_signal \<in> set es1 \<and>
    handled (subscriber_at p' i) = on_completed (fold on_notify (sent_to t es1) (handled (subscriber_at p i))) \<and>
    items (subscriber_at p' i) = [] \<and> protected_queue (subscriber_at p' i) = sent_to t es2"
  using assms by (rule ended_handled)

text \<open>A publisher of numbers with two subscribers, and a schedule of its threads.\<close>

definition number_log :: "nat \<Rightarrow> nat list \<Rightarrow> nat list" where
  "number_log x h = h @ [x]"

definition two_subscribers :: "(nat, nat list) publisher" where
  "two_subscribers =
     (case bindR (register_subscriber 0 ACQUIRE (new_publisher (\<lambda>_. new_subscriber [])))
        (register_subscriber 1 ACQUIRE_FRAME) of
        Inr p \<Rightarrow> p
      | Inl e \<Rightarrow> new_publisher (\<lambda>_. new_subscriber []))"

definition example_schedule :: "nat event list" where
  "example_schedule =
     [Published 7 BOTH, Published 8 ACQUIRE_FRAME, Worked 0, Completed_signal, Worked 0, Worked 0, Worked 0, Worked 0,
      Worked 0, Worked 0, Published 4 BOTH]"

lemma two_subscribers_ready: "ready_to_publish two_subscribers" "(ACQUIRE, 0) \<in> set (subscribers two_subscribers)"
  by (code_simp, code_simp)

lemma example_schedule_runs:
  "\<exists>p. pub_run number_log id two_subscribers example_schedule p \<and> worker_pc (subscriber_at p 0) = Ended"
proof -
  have "map_option (\<lambda>p. worker_pc (subscriber_at p 0)) (perform_all number_log id example_schedule two_subscribers) =
      Some Ended"
    unfolding example_schedule_def
    by (simp add: two_subscribers_def register_subscriber_def setup_subscriber_def
        new_subscriber_def new_publisher_def map_subscriber_def notify_def notify_one_def update_def
        notify_completed_def worker_step_def drain_def type_and_def ACQUIRE_def ACQUIRE_FRAME_def BOTH_def)
  then obtain p where "perform_all number_log id example_schedule two_subscribers = Some p"
      "worker_pc (subscriber_at p 0) = Ended"
    by auto
  then show ?thesis by (auto intro: perform_all_run)
qed

theorem ended_subscriber_handled_everything_witness:
  "\<exists>p es1 es2. pub_run number_log id two_subscribers example_schedule p \<and> worker_pc (subscriber_at p 0) = Ended \<and>
    example_schedule = es1 @ es2 \<and> Completed_signal \<in> set es1 \<and>
    handled (subscriber_at p 0) = fold number_log (sent_to ACQUIRE es1) [] \<and>
    items (subscriber_at p 0) = [] \<and> protected_queue (subscriber_at p 0) = sent_to ACQUIRE es2"
proof -
  obtain p where p: "pub_run number_log id two_subscribers example_schedule p" "worker_pc (subscriber_at p 0) = Ended"
    using example_schedule_runs by auto
  have "handled (subscriber_at two_subscribers 0) = []" by code_simp
  with ended_subscriber_handled_everything [OF p(1) two_subscribers_ready p(2)] p show ?thesis by auto
qed

text \<open>C36: once the publisher has completed and publishes no more, a worker ends within the steps that
  \<open>worker_fuel\<close> counts, five for each item that is left, and has then handled all of them, in order, and
  completed.\<close>

theorem worker_ends:
  assumes "worker_pc s \<noteq> No_thread" "worker_pc s \<noteq> Completing" "worker_pc s \<noteq> Ended"
  shows "worker_fuel s \<le> 5 * length (left_to_handle s) + 6 \<and>
    (let s' = run_worker on_notify on_completed (worker_fuel s) s in
       worker_pc s' = Ended \<and> left_to_handle s' = [] \<and> has_completed s' \<and>
       handled s' = on_completed (fold on_notify (left_to_handle s) (handled s)))"
proof
  show "worker_fuel s \<le> 5 * length (left_to_handle s) + 6"
    by (auto simp: worker_fuel_def Let_def left_to_handle_def split: worker_pc.split)
  show "let s' = run_worker on_notify on_completed (worker_fuel s) s in
       worker_pc s' = Ended \<and> left_to_handle s' = [] \<and> has_completed s' \<and>
       handled s' = on_completed (fold on_notify (left_to_handle s) (handled s))"
    using run_worker_sound [OF order_refl assms(1), of on_notify on_completed] assms(2,3)
    by (simp add: Let_def closing_def)
qed

definition sleeping_subscriber :: "(nat, nat list) subscriber" where
  "sleeping_subscriber = update 8 (update 7 ((new_subscriber [])\<lparr>worker_pc := Sleeping\<rparr>))"

theorem worker_ends_witness:
  "handled (run_worker number_log id (worker_fuel sleeping_subscriber) sleeping_subscriber) = [7, 8]"
proof -
  have "worker_pc sleeping_subscriber \<noteq> No_thread" "worker_pc sleeping_subscriber \<noteq> Completing"
    "worker_pc sleeping_subscriber \<noteq> Ended" "left_to_handle sleeping_subscriber = [7, 8]"
    "handled sleeping_subscriber = []"
    by (simp_all add: sleeping_subscriber_def update_def new_subscriber_def left_to_handle_def)
  with worker_ends [of sleeping_subscriber number_log id] show ?thesis
    by (simp add: Let_def number_log_def)
qed

end
