(* ===== verification/Acquire_Publisher.thy ===== *)
theory Acquire_Publisher
  imports Zs1_Acquire Frame_Encoding Pub_Sub
begin

text \<open>
  \<open>AcquirePublisher\<close>: the thread that acquires a frame in segments, publishes a record for each
  and reports on the status topic, and the two operations that start and stop it. The streaming context
  is a set of functions on a world that holds it; \<open>CstZs1Context\<close> is the one the console uses.
  A message of the status topic is its text and the timeout it is sent with; log lines are left out.
\<close>

section \<open>Status messages\<close>

type_synonym status_message = "string \<times> int"

definition one_line :: "string \<Rightarrow> string" where
  "one_line text = map (\<lambda>c. if line_breaking c then CHR '' '' else c) text"

datatype unknown_throw = Thrown_string string | Thrown_c_string string | Thrown_other

definition describe_unknown :: "unknown_throw \<Rightarrow> string" where
  "describe_unknown t =
     (case t of
        Thrown_string s \<Rightarrow> ''a std::string: '' @ s
      | Thrown_c_string s \<Rightarrow> ''a C string: '' @ s
      | Thrown_other \<Rightarrow> ''a throw of no type it knows'')"

definition no_timeout :: int where
  "no_timeout = 9223372036854775807"

definition finished_message :: status_message where
  "finished_message = (''finished'', no_timeout)"

section \<open>The acquisition thread\<close>

record 'w acquisition =
  acq_world :: 'w
  scans_acquired_count :: u64
  has_errored :: bool
  acq_records :: "uimf_acquisition_record list"
  acq_statuses :: "status_message list"

text \<open>A streaming context: its operations on the world that holds it.\<close>

record 'w streaming =
  sc_is_acquiring :: "'w \<Rightarrow> bool result"
  sc_start :: "'w \<Rightarrow> 'w result"
  sc_stop :: "'w \<Rightarrow> 'w result"
  sc_acquire :: "u64 \<Rightarrow> 'w \<Rightarrow> 'w \<times> acquired_data ending"

definition to_acquire_count :: "u64 \<Rightarrow> u64 \<Rightarrow> u64 \<Rightarrow> u64" where
  "to_acquire_count scans_total acquired segment_size =
     (if scans_total - acquired < segment_size then scans_total - acquired else segment_size)"

text \<open>What each handler of the loop reports. \<open>Undefined\<close> is no exception: the thread has no
  behaviour past it.\<close>

definition report_failure :: "uimf_frame_parameters \<Rightarrow> exn \<Rightarrow> status_message" where
  "report_failure ps e =
     (case e of
        Frame_damaged s \<Rightarrow>
          (''error data: '' @ one_line s @ '' in frame '' @ nat_to_string (unat (frame_number ps)), 1000)
      | Other_throw s \<Rightarrow>
          (''error unknown error when acquiring UIMF data: '' @ one_line (describe_unknown (Thrown_string s)), 1000)
      | _ \<Rightarrow> (''error '' @ one_line (what e), 1000))"

datatype 'w segment = Acquired "'w acquisition" | Blocked "'w acquisition" | Broken_down exn "'w acquisition"

definition acquire_segment :: "'w streaming \<Rightarrow> u64 \<Rightarrow> uimf_frame_parameters \<Rightarrow> 'w acquisition \<Rightarrow> 'w segment" where
  "acquire_segment ctx segment_size ps a =
     (case sc_acquire ctx (to_acquire_count (frame_length ps) (scans_acquired_count a) segment_size) (acq_world a) of
        (w, Done data) \<Rightarrow>
          Acquired (a\<lparr>acq_world := w,
            acq_records := acq_records a @
              [\<lparr>rec_parameters = ps, acquiredData = data, start_scan_index = scans_acquired_count a\<rparr>],
            scans_acquired_count := scans_acquired_count a + of_nat (length (stamps data))\<rparr>)
      | (w, Waiting) \<Rightarrow> Blocked (a\<lparr>acq_world := w\<rparr>)
      | (w, Threw e) \<Rightarrow>
          (case e of
             Undefined s \<Rightarrow> Broken_down (Undefined s) (a\<lparr>acq_world := w\<rparr>)
           | _ \<Rightarrow> Acquired (a\<lparr>acq_world := w, has_errored := True,
                acq_statuses := acq_statuses a @ [report_failure ps e]\<rparr>)))"

text \<open>
  The loop, with the values it reads from \<open>should_stop\<close>, one for each round it looks at the flag
  without an error before. A loop that runs out of them has not ended.
\<close>

datatype 'w loop_end = Loop_done "'w acquisition" | Loop_blocked "'w acquisition" | Loop_broken exn "'w acquisition"
  | Loop_unfinished "'w acquisition"

fun acquire_loop :: "'w streaming \<Rightarrow> u64 \<Rightarrow> uimf_frame_parameters \<Rightarrow> bool list \<Rightarrow> 'w acquisition \<Rightarrow> 'w loop_end" where
  "acquire_loop ctx segment_size ps stops a =
     (if \<not> scans_acquired_count a < frame_length ps then Loop_done a
      else if has_errored a then Loop_done a
      else
        (case stops of
           [] \<Rightarrow> Loop_unfinished a
         | stop # stops' \<Rightarrow>
             if stop then Loop_done a
             else
               (case acquire_segment ctx segment_size ps a of
                  Acquired a' \<Rightarrow> acquire_loop ctx segment_size ps stops' a'
                | Blocked a' \<Rightarrow> Loop_blocked a'
                | Broken_down e a' \<Rightarrow> Loop_broken e a')))"

declare acquire_loop.simps [simp del]

datatype 'w thread_end = Ended_thread "'w acquisition" | Running_thread "'w acquisition" | Terminated exn "'w acquisition"

definition new_acquisition :: "'w \<Rightarrow> 'w acquisition" where
  "new_acquisition w =
     \<lparr>acq_world = w, scans_acquired_count = 0, has_errored = False, acq_records = [], acq_statuses = []\<rparr>"

text \<open>
  The end of the thread. The calls of \<open>start\<close>, \<open>stop\<close> and
  \<open>get_is_acquiring\<close> are in no handler: an exception of one leaves the thread's function,
  which ends the process.
\<close>

definition finish_thread :: "'w streaming \<Rightarrow> 'w acquisition \<Rightarrow> 'w thread_end" where
  "finish_thread ctx a =
     (case sc_stop ctx (acq_world a) of
        Inl e \<Rightarrow> Terminated e a
      | Inr w \<Rightarrow> Ended_thread (a\<lparr>acq_world := w, acq_statuses := acq_statuses a @ [finished_message]\<rparr>))"

definition acquisition_thread :: "'w streaming \<Rightarrow> u64 \<Rightarrow> uimf_frame_parameters \<Rightarrow> bool list \<Rightarrow> 'w \<Rightarrow> 'w thread_end" where
  "acquisition_thread ctx segment_size ps stops w =
     (case sc_is_acquiring ctx w of
        Inl e \<Rightarrow> Terminated e (new_acquisition w)
      | Inr True \<Rightarrow> finish_thread ctx (new_acquisition w)
      | Inr False \<Rightarrow>
          (case sc_start ctx w of
             Inl e \<Rightarrow> Terminated e (new_acquisition w)
           | Inr w' \<Rightarrow>
               (case acquire_loop ctx segment_size ps stops (new_acquisition w') of
                  Loop_done a \<Rightarrow> finish_thread ctx a
                | Loop_blocked a \<Rightarrow> Running_thread a
                | Loop_unfinished a \<Rightarrow> Running_thread a
                | Loop_broken e a \<Rightarrow> Terminated e a)))"

section \<open>start and stop\<close>

datatype acquisition_state = ACQUIRING | STOPPED | ERRORED | UNKNOWN_STATE

record acquire_publisher =
  ap_state :: acquisition_state
  ap_should_stop :: bool
  ap_joinable :: bool
  ap_completed :: bool
  ap_statuses :: "status_message list"

definition new_acquire_publisher :: acquire_publisher where
  "new_acquire_publisher =
     \<lparr>ap_state = UNKNOWN_STATE, ap_should_stop = False, ap_joinable = False, ap_completed = False, ap_statuses = []\<rparr>"

definition is_acquiring :: "acquire_publisher \<Rightarrow> bool" where
  "is_acquiring p \<longleftrightarrow> ap_state p = ACQUIRING"

text \<open>
  \<open>start\<close> gives whether it started a thread. Assigning to \<open>worker_handle\<close> destroys
  the thread it held, which ends the process when that one has not been joined.
\<close>

definition ap_start :: "acquire_publisher \<Rightarrow> (bool \<times> acquire_publisher) result" where
  "ap_start p =
     (if is_acquiring p then Inr (False, p)
      else if ap_joinable p then Inl (Other_throw ''std::terminate'')
      else Inr (True, p\<lparr>ap_should_stop := False, ap_joinable := True\<rparr>))"

text \<open>
  \<open>stop\<close>, up to where it has joined the thread. Completing the publisher a second time throws,
  and the handler at the end of \<open>stop\<close> drops the exception and the join with it.
\<close>

definition ap_stop :: "bool \<Rightarrow> acquire_publisher \<Rightarrow> acquire_publisher" where
  "ap_stop terminate p =
     (let p1 = p\<lparr>ap_should_stop := True\<rparr> in
      if terminate \<and> ap_completed p1 then p1
      else
        (let p2 = (if terminate
                   then p1\<lparr>ap_completed := True, ap_statuses := ap_statuses p1 @ [(''finished acquire'', 30000)]\<rparr>
                   else p1) in
         p2\<lparr>ap_joinable := False\<rparr>))"

section \<open>The context of the console\<close>

record zs1_world =
  zw_context :: zs1_context
  zw_pool :: buffer_pool
  zw_replies :: "fetch_reply list"
  zw_timeout :: bool
  zw_begun :: "string \<times> error_type"
  zw_aborted :: "string \<times> error_type"
  zw_measuring :: "bool result"

definition zs1_world_acquire :: "u64 \<Rightarrow> zs1_world \<Rightarrow> zs1_world \<times> acquired_data ending" where
  "zs1_world_acquire n w =
     (case zs1_acquire n (zw_timeout w) (zw_replies w) (zw_context w) (zw_pool w) of
        ((ctx, pool, reqs), Done (data, rs)) \<Rightarrow>
          (w\<lparr>zw_context := ctx, zw_pool := pool, zw_replies := rs\<rparr>, Done data)
      | ((ctx, pool, reqs), Threw e) \<Rightarrow>
          (w\<lparr>zw_context := ctx, zw_pool := pool, zw_replies := drop (length reqs) (zw_replies w)\<rparr>, Threw e)
      | ((ctx, pool, reqs), Waiting) \<Rightarrow> (w\<lparr>zw_context := ctx, zw_pool := pool, zw_replies := []\<rparr>, Waiting))"

definition zs1_streaming :: "zs1_world streaming" where
  "zs1_streaming =
     \<lparr>sc_is_acquiring = zw_measuring,
      sc_start = (\<lambda>w. bindR (zs1_start (zw_begun w) (zw_context w)) (\<lambda>c. Inr (w\<lparr>zw_context := c\<rparr>))),
      sc_stop = (\<lambda>w. bindR (zs1_stop (zw_aborted w) (zw_context w)) (\<lambda>c. Inr (w\<lparr>zw_context := c\<rparr>))),
      sc_acquire = zs1_world_acquire\<rparr>"

section \<open>The loop\<close>

text \<open>The scan after the last of a row of records that follow one another, from scan \<open>k\<close> on.\<close>

fun consecutive :: "nat \<Rightarrow> uimf_acquisition_record list \<Rightarrow> nat option" where
  "consecutive k [] = Some k"
| "consecutive k (r # rs) =
     (if unat (start_scan_index r) = k then consecutive (k + length (stamps (acquiredData r))) rs else None)"

lemma consecutive_snoc:
  "consecutive k rs = Some m \<Longrightarrow> unat (start_scan_index r) = m \<Longrightarrow>
   consecutive k (rs @ [r]) = Some (m + length (stamps (acquiredData r)))"
  by (induction k rs rule: consecutive.induct) (auto split: if_splits)

lemma to_acquire_bounds:
  assumes "acquired < scans_total"
  shows "unat (to_acquire_count scans_total acquired seg) \<le> unat scans_total - unat acquired"
    and "unat (to_acquire_count scans_total acquired seg) \<le> unat seg"
proof -
  have d: "unat (scans_total - acquired) = unat scans_total - unat acquired"
    using assms by (simp add: unat_sub order_less_imp_le)
  show "unat (to_acquire_count scans_total acquired seg) \<le> unat scans_total - unat acquired"
    "unat (to_acquire_count scans_total acquired seg) \<le> unat seg"
    using d by (auto simp: to_acquire_count_def word_less_nat_alt)
qed

definition reported_once :: "'w acquisition \<Rightarrow> bool" where
  "reported_once a \<longleftrightarrow> length (acq_statuses a) = (if has_errored a then 1 else 0)"

definition loop_state :: "'w loop_end \<Rightarrow> 'w acquisition" where
  "loop_state r = (case r of Loop_done a \<Rightarrow> a | Loop_blocked a \<Rightarrow> a | Loop_broken e a \<Rightarrow> a | Loop_unfinished a \<Rightarrow> a)"

lemma acquire_loop_reported:
  "reported_once a \<Longrightarrow> \<not> has_errored a \<Longrightarrow> reported_once (loop_state (acquire_loop ctx seg ps stops a))"
proof (induction stops arbitrary: a)
  case Nil
  then show ?case by (subst acquire_loop.simps) (simp add: loop_state_def)
next
  case (Cons stop stops)
  show ?case
  proof (cases "acquire_segment ctx seg ps a")
    case (Acquired a')
    have r: "reported_once a'"
      using Acquired Cons.prems
      by (auto simp: acquire_segment_def reported_once_def split: prod.splits ending.splits exn.splits)
    show ?thesis
    proof (cases "has_errored a'")
      case True
      then have "acquire_loop ctx seg ps stops a' = Loop_done a'" by (subst acquire_loop.simps) simp
      with Acquired Cons.prems r show ?thesis by (subst acquire_loop.simps) (simp add: loop_state_def)
    next
      case False
      with Cons.IH [OF r] Acquired Cons.prems show ?thesis
        by (subst acquire_loop.simps) (simp add: loop_state_def)
    qed
  next
    case (Blocked a')
    then have "reported_once a'"
      using Cons.prems
      by (auto simp: acquire_segment_def reported_once_def split: prod.splits ending.splits exn.splits)
    with Blocked Cons.prems show ?thesis by (subst acquire_loop.simps) (simp add: loop_state_def)
  next
    case (Broken_down e a')
    then have "reported_once a'"
      using Cons.prems
      by (auto simp: acquire_segment_def reported_once_def split: prod.splits ending.splits exn.splits)
    with Broken_down Cons.prems show ?thesis by (subst acquire_loop.simps) (simp add: loop_state_def)
  qed
qed

text \<open>What the loop relies on: an acquisition that returns has the triggers it was asked for.\<close>

locale counted_context =
  fixes ctx :: "'w streaming" and most :: nat
  assumes asked: "sc_acquire ctx n w = (w', Done data) \<Longrightarrow> unat n \<le> most \<Longrightarrow> length (stamps data) = unat n"
begin

definition progress :: "uimf_frame_parameters \<Rightarrow> 'w acquisition \<Rightarrow> bool" where
  "progress ps a \<longleftrightarrow>
     consecutive 0 (acq_records a) = Some (unat (scans_acquired_count a)) \<and>
     unat (scans_acquired_count a) \<le> unat (frame_length ps) \<and>
     list_all (\<lambda>r. rec_parameters r = ps) (acq_records a)"

lemma progress_kept:
  assumes "progress ps a" "scans_acquired_count a < frame_length ps" "unat seg \<le> most"
    and "acquire_segment ctx seg ps a = Acquired a'"
  shows "progress ps a'"
proof -
  let ?n = "to_acquire_count (frame_length ps) (scans_acquired_count a) seg"
  have n: "unat ?n \<le> unat (frame_length ps) - unat (scans_acquired_count a)" "unat ?n \<le> most"
    using to_acquire_bounds [OF assms(2), of seg] assms(3) by linarith+
  obtain w r where r: "sc_acquire ctx ?n (acq_world a) = (w, r)" by fastforce
  show ?thesis
  proof (cases r)
    case (Done data)
    with r n(2) have len: "length (stamps data) = unat ?n" by (blast intro: asked)
    have "unat (scans_acquired_count a) + unat ?n \<le> unat (frame_length ps)"
      using n(1) assms(2) by (simp add: word_less_nat_alt)
    moreover from this have "unat (scans_acquired_count a + ?n) = unat (scans_acquired_count a) + unat ?n"
      using unat64_range [of "frame_length ps"] by (subst unat_add_lem [THEN iffD1]) simp_all
    ultimately show ?thesis
      using assms(1,4) Done r len
      by (auto simp: acquire_segment_def progress_def consecutive_snoc)
  next
    case (Threw e)
    with assms(1,4) r show ?thesis by (auto simp: acquire_segment_def progress_def split: exn.splits)
  qed (use assms(4) r in \<open>simp add: acquire_segment_def\<close>)
qed

lemma loop_progress:
  "progress ps a \<Longrightarrow> unat seg \<le> most \<Longrightarrow> acquire_loop ctx seg ps stops a = Loop_done a' \<Longrightarrow>
   progress ps a' \<and> (has_errored a' \<or> \<not> scans_acquired_count a' < frame_length ps \<or> list_ex id stops)"
proof (induction stops arbitrary: a)
  case Nil
  then show ?case by (subst (asm) acquire_loop.simps) (auto split: if_splits)
next
  case (Cons stop stops)
  show ?case
  proof (cases "scans_acquired_count a < frame_length ps \<and> \<not> has_errored a \<and> \<not> stop")
    case True
    with Cons.prems(3) obtain a1 where a1: "acquire_segment ctx seg ps a = Acquired a1"
        "acquire_loop ctx seg ps stops a1 = Loop_done a'"
      by (subst (asm) acquire_loop.simps) (auto split: segment.splits)
    from Cons.IH [OF progress_kept [OF Cons.prems(1) _ Cons.prems(2) a1(1)] Cons.prems(2) a1(2)] True show ?thesis
      by auto
  next
    case False
    with Cons.prems show ?thesis by (subst (asm) acquire_loop.simps) (auto split: if_splits)
  qed
qed

lemma thread_covers:
  assumes "acquisition_thread ctx seg ps stops w = Ended_thread a" "unat seg \<le> most"
  shows "consecutive 0 (acq_records a) = Some (unat (scans_acquired_count a)) \<and>
    list_all (\<lambda>r. rec_parameters r = ps) (acq_records a) \<and>
    scans_acquired_count a \<le> frame_length ps \<and>
    (scans_acquired_count a = frame_length ps \<or> has_errored a \<or> list_ex id stops \<or> sc_is_acquiring ctx w = Inr True)"
proof -
  have new: "progress ps (new_acquisition v)" for v
    by (simp add: progress_def new_acquisition_def)
  have fin: "finish_thread ctx b = Ended_thread a \<Longrightarrow>
      acq_records a = acq_records b \<and> scans_acquired_count a = scans_acquired_count b \<and> has_errored a = has_errored b" for b
    by (auto simp: finish_thread_def split: sum.splits)
  from assms(1) consider "finish_thread ctx (new_acquisition w) = Ended_thread a" "sc_is_acquiring ctx w = Inr True"
    | w' b where "acquire_loop ctx seg ps stops (new_acquisition w') = Loop_done b"
        "finish_thread ctx b = Ended_thread a"
    by (auto simp: acquisition_thread_def split: sum.splits bool.splits loop_end.splits)
  then show ?thesis
  proof cases
    case 1
    with fin [OF 1(1)] new [of w] show ?thesis
      by (simp add: progress_def word_le_nat_alt)
  next
    case (2 w' b)
    from loop_progress [OF new assms(2) 2(1)] fin [OF 2(2)] show ?thesis
      by (auto simp: progress_def word_le_nat_alt word_less_nat_alt intro: word_unat_eq_iff [THEN iffD2])
  qed
qed

end

interpretation zs1_counted: counted_context zs1_streaming 2147483646
proof
  fix n w w' data
  assume "sc_acquire zs1_streaming n w = (w', Done data)" "unat n \<le> 2147483646"
  then show "length (stamps data) = unat n"
    by (auto simp: zs1_streaming_def zs1_world_acquire_def split: prod.splits ending.splits
        dest!: acquire_returns_triggers [rotated])
qed

lemma frame_covered:
  assumes "acquisition_thread zs1_streaming seg ps stops w = Ended_thread a" "unat seg < 2147483647"
  shows "consecutive 0 (acq_records a) = Some (unat (scans_acquired_count a)) \<and>
    list_all (\<lambda>r. rec_parameters r = ps) (acq_records a) \<and>
    scans_acquired_count a \<le> frame_length ps \<and>
    (scans_acquired_count a = frame_length ps \<or> has_errored a \<or> list_ex id stops \<or> zw_measuring w = Inr True)"
  using zs1_counted.thread_covers [OF assms(1)] assms(2) by (simp add: zs1_streaming_def)

section \<open>Properties\<close>

text \<open>C21: a client of the status topic can follow a frame: when the thread ends, its last message is
  \<open>finished\<close>, and before it there is exactly one error message when the frame had an error, and
  none when it had none.\<close>

theorem thread_reports_then_finishes:
  assumes "acquisition_thread ctx seg ps stops w = Ended_thread a"
  shows "\<exists>errors. acq_statuses a = errors @ [finished_message] \<and> length errors = (if has_errored a then 1 else 0)"
proof -
  have fin: "finish_thread ctx b = Ended_thread a \<Longrightarrow> reported_once b \<Longrightarrow> ?thesis" for b
    by (auto simp: finish_thread_def reported_once_def split: sum.splits)
  have new: "reported_once (new_acquisition v)" "\<not> has_errored (new_acquisition v)" for v :: 'a
    by (simp_all add: reported_once_def new_acquisition_def)
  from assms consider "finish_thread ctx (new_acquisition w) = Ended_thread a"
    | w' b where "acquire_loop ctx seg ps stops (new_acquisition w') = Loop_done b" "finish_thread ctx b = Ended_thread a"
    by (auto simp: acquisition_thread_def split: sum.splits bool.splits loop_end.splits)
  then show ?thesis
  proof cases
    case 1
    then show ?thesis using new(1) by (rule fin)
  next
    case (2 w' b)
    have "reported_once b"
      using acquire_loop_reported [OF new, of ctx seg ps stops w'] 2(1) by (simp add: loop_state_def)
    with 2(2) show ?thesis by (rule fin)
  qed
qed

text \<open>C8: the records of a frame follow one another from scan 0 without a gap or an overlap, carry the
  parameters of the frame, and cover it exactly, unless an error was reported, the frame was stopped or the
  card was already acquiring.\<close>

theorem frame_is_covered:
  assumes "acquisition_thread zs1_streaming seg ps stops w = Ended_thread a" "unat seg < 2147483647"
  shows "consecutive 0 (acq_records a) = Some (unat (scans_acquired_count a)) \<and>
    list_all (\<lambda>r. rec_parameters r = ps) (acq_records a) \<and>
    scans_acquired_count a \<le> frame_length ps \<and>
    (scans_acquired_count a = frame_length ps \<or> has_errored a \<or> list_ex id stops \<or> zw_measuring w = Inr True)"
  using assms by (rule frame_covered)

definition segment_parameters :: uimf_frame_parameters where
  "segment_parameters = \<lparr>start_trigger = 0, nbr_samples = 0, nbr_accumulations = 1, frame_length = 1,
     frame_number = 3, offset_bins = 0, file_name = ''''\<rparr>"

definition example_world :: zs1_world where
  "example_world = \<lparr>zw_context = example_context, zw_pool = example_pool, zw_replies = example_replies,
     zw_timeout = False, zw_begun = ('''', No_error), zw_aborted = ('''', No_error), zw_measuring = Inr False\<rparr>"

definition failing_context :: "nat streaming" where
  "failing_context = \<lparr>sc_is_acquiring = (\<lambda>_. Inr False), sc_start = Inr, sc_stop = Inr,
     sc_acquire = (\<lambda>n w. (w, Threw (Frame_damaged ''markers replayed'')))\<rparr>"

theorem thread_reports_then_finishes_witness:
  "\<exists>a errors. acquisition_thread failing_context 10 segment_parameters [False, False] 0 = Ended_thread a \<and>
    acq_statuses a = errors @ [finished_message] \<and> length errors = 1"
proof -
  have "case acquisition_thread failing_context 10 segment_parameters [False, False] 0 of
      Ended_thread a \<Rightarrow> has_errored a | _ \<Rightarrow> False"
    by code_simp
  then obtain a where a: "acquisition_thread failing_context 10 segment_parameters [False, False] 0 = Ended_thread a"
      "has_errored a"
    by (auto split: thread_end.splits)
  from thread_reports_then_finishes [OF a(1)] a show ?thesis by simp
qed

theorem frame_is_covered_witness:
  "\<exists>a. acquisition_thread zs1_streaming 10 segment_parameters [False, False] example_world = Ended_thread a \<and>
    consecutive 0 (acq_records a) = Some 1"
proof -
  have "case acquisition_thread zs1_streaming 10 segment_parameters [False, False] example_world of
      Ended_thread a \<Rightarrow> \<not> has_errored a | _ \<Rightarrow> False"
    by code_simp
  then obtain a where a: "acquisition_thread zs1_streaming 10 segment_parameters [False, False] example_world = Ended_thread a"
      "\<not> has_errored a"
    by (auto split: thread_end.splits)
  have "unat (10 :: u64) < 2147483647" by simp
  from frame_is_covered [OF a(1) this] a show ?thesis
    by (auto simp: example_world_def segment_parameters_def)
qed

end
