(* ===== verification/Process_Subject.thy ===== *)
theory Process_Subject
  imports Pub_Sub Frame_Encoding
begin

text \<open>
  \<open>ProcessSubject\<close>: the subscriber that encodes a record as a frame, and the publisher that hands
  the frame to the subscribers of its kind. A record comes with the buffer its acquired data holds. What the
  subject keeps between records, as the state its worker handles, is its publisher.
\<close>

section \<open>Handling a record\<close>

type_synonym 's process_subject = "(uimf_frame, 's) publisher"

definition notify_type :: "uimf_frame \<Rightarrow> subscriber_type" where
  "notify_type f = (if file_name (frame_parameters f) = [] then ACQUIRE else BOTH)"

text \<open>An exception of the encoding is logged and the record dropped.\<close>

definition process_on_notify :: "acq_buffer \<times> uimf_acquisition_record \<Rightarrow> 's process_subject \<Rightarrow> 's process_subject result" where
  "process_on_notify item p =
     (case to_frame (fst item) (snd item) of
        Inr f \<Rightarrow> Inr (notify f (notify_type f) p)
      | Inl (Undefined e) \<Rightarrow> Inl (Undefined e)
      | Inl e \<Rightarrow> Inr p)"

text \<open>\<open>on_completed\<close>, up to where it waits for its own subscribers to complete.\<close>

definition process_on_completed :: "'s process_subject \<Rightarrow> 's process_subject result" where
  "process_on_completed p = notify_completed p"

text \<open>The records of a run, one after the other, as the worker of the subject handles them.\<close>

fun process_records :: "(acq_buffer \<times> uimf_acquisition_record) list \<Rightarrow> 's process_subject \<Rightarrow> 's process_subject result" where
  "process_records [] p = Inr p"
| "process_records (item # recs) p = bindR (process_on_notify item p) (process_records recs)"

section \<open>Who gets a frame\<close>

fun encoded_frames :: "(acq_buffer \<times> uimf_acquisition_record) list \<Rightarrow> uimf_frame list" where
  "encoded_frames [] = []"
| "encoded_frames (item # recs) =
     (case to_frame (fst item) (snd item) of Inl e \<Rightarrow> encoded_frames recs | Inr f \<Rightarrow> f # encoded_frames recs)"

definition has_file :: "uimf_frame \<Rightarrow> bool" where
  "has_file f \<longleftrightarrow> file_name (frame_parameters f) \<noteq> []"

lemma kinds_meet:
  "type_and ACQUIRE ACQUIRE \<noteq> 0" "type_and BOTH ACQUIRE \<noteq> 0" "type_and BOTH ACQUIRE_FRAME \<noteq> 0"
  "type_and ACQUIRE ACQUIRE_FRAME = 0"
  by (simp_all add: type_and_def ACQUIRE_def ACQUIRE_FRAME_def BOTH_def)

lemma notify_queues:
  assumes "subscribers p = [(ACQUIRE, z), (ACQUIRE_FRAME, w)]" "z \<noteq> w"
  shows "subscribers (notify f (notify_type f) p) = subscribers p"
    "protected_queue (subscriber_at (notify f (notify_type f) p) z) = protected_queue (subscriber_at p z) @ [f]"
    "protected_queue (subscriber_at (notify f (notify_type f) p) w) =
       protected_queue (subscriber_at p w) @ (if has_file f then [f] else [])"
  using assms
  by (auto simp: notify_def notify_one_def map_subscriber_def update_def notify_type_def has_file_def kinds_meet)

lemma process_on_notify_cases:
  assumes "process_on_notify item p = Inr p'"
  shows "(\<exists>f. to_frame (fst item) (snd item) = Inr f \<and> p' = notify f (notify_type f) p) \<or>
    (\<exists>e. to_frame (fst item) (snd item) = Inl e \<and> p' = p)"
  using assms by (auto simp: process_on_notify_def split: sum.splits exn.splits)

lemma frames_delivered:
  assumes "subscribers p = [(ACQUIRE, z), (ACQUIRE_FRAME, w)]" "z \<noteq> w" "process_records recs p = Inr p'"
  shows "protected_queue (subscriber_at p' z) = protected_queue (subscriber_at p z) @ encoded_frames recs \<and>
    protected_queue (subscriber_at p' w) = protected_queue (subscriber_at p w) @ filter has_file (encoded_frames recs)"
  using assms
proof (induction recs arbitrary: p)
  case (Cons item recs)
  then obtain p1 where p1: "process_on_notify item p = Inr p1" "process_records recs p1 = Inr p'"
    by (auto simp: bindR_Inr_iff)
  from process_on_notify_cases [OF p1(1)] show ?case
  proof (elim disjE exE conjE)
    fix f
    assume f: "to_frame (fst item) (snd item) = Inr f" "p1 = notify f (notify_type f) p"
    note queues = notify_queues [OF Cons.prems(1,2), of f]
    have "subscribers p1 = [(ACQUIRE, z), (ACQUIRE_FRAME, w)]" using queues(1) f(2) Cons.prems(1) by simp
    from Cons.IH [OF this Cons.prems(2) p1(2)] show ?case using queues(2,3) f by simp
  next
    fix e
    assume "to_frame (fst item) (snd item) = Inl e" "p1 = p"
    with Cons.IH [OF Cons.prems(1,2)] p1(2) show ?case by simp
  qed
qed simp

section \<open>The subscribers of the console\<close>

definition two_registered :: "nat process_subject" where
  "two_registered =
     \<lparr>subscribers = [(ACQUIRE, 0), (ACQUIRE_FRAME, 1)], completed = False, subscriber_at = (\<lambda>_. new_subscriber 0)\<rparr>"

end
