(* ===== verification/Frame_Chain.thy ===== *)
theory Frame_Chain
  imports Acquire_Publisher Process_Subject
begin

text \<open>
  A frame on its way through the chain: the records the acquisition thread published, encoded one by one by
  the process subject, in the queues of the summing subscriber and of the file writer. A record comes with the
  buffer its samples are in when it is encoded.
\<close>

section \<open>One record\<close>

definition record_sound :: "acq_buffer \<times> uimf_acquisition_record \<Rightarrow> bool" where
  "record_sound item \<longleftrightarrow>
     list_all (trigger_sound (offset_bins (rec_parameters (snd item)))) (stamps (acquiredData (snd item))) \<and>
     uint (offset_bins (rec_parameters (snd item))) < max_bin \<and>
     buffer_holds (fst item) (stamps (acquiredData (snd item)))"

definition scan_numbers :: "uimf_frame \<Rightarrow> i32 list" where
  "scan_numbers f = map er_scan (encoded_data f)"

definition scan_samples :: "uimf_frame \<Rightarrow> (int \<times> i32) list list" where
  "scan_samples f = map (\<lambda>er. decode_spectrum 0 (encoded_spectra er)) (encoded_data f)"

definition gate_samples_of :: "acq_buffer \<times> uimf_acquisition_record \<Rightarrow> (int \<times> i32) list list" where
  "gate_samples_of item =
     all_bins (fst item) (offset_bins (rec_parameters (snd item))) (get_raw_unprocessed (fst item))
       (stamps (acquiredData (snd item)))"

lemma sound_record_encoded:
  assumes "record_sound item"
  shows "\<exists>f. to_frame (fst item) (snd item) = Inr f \<and> frame_parameters f = rec_parameters (snd item) \<and>
    scan_numbers f = map (\<lambda>i. ucast (start_scan_index (snd item) + of_nat i))
      [0 ..< length (stamps (acquiredData (snd item)))] \<and>
    scan_samples f = gate_samples_of item"
proof -
  let ?b = "fst item" and ?r = "snd item"
  from assms have sound: "\<forall>t \<in> set (stamps (acquiredData ?r)). trigger_sound (offset_bins (rec_parameters ?r)) t"
      "uint (offset_bins (rec_parameters ?r)) < max_bin" "buffer_holds ?b (stamps (acquiredData ?r))"
    by (simp_all add: record_sound_def list_all_iff)
  from process_stamps_places [OF sound(1,2), of ?b 0 "start_scan_index ?r" 0] sound(3) obtain rs where
    rs: "process ?b ?r = Inr rs"
      "map (\<lambda>er. decode_spectrum 0 (encoded_spectra er)) rs = gate_samples_of item"
    by (auto simp: process_def buffer_holds_def gate_samples_of_def)
  have "map er_scan rs = map (\<lambda>i. ucast (start_scan_index ?r + of_nat i)) [0 ..< length (stamps (acquiredData ?r))]"
    using process_stamps_ok [of ?b "offset_bins (rec_parameters ?r)" "start_scan_index ?r" 0
        "stamps (acquiredData ?r)" 0 rs] rs(1)
    by (simp add: process_def)
  with rs show ?thesis by (simp add: to_frame_def scan_numbers_def scan_samples_def)
qed

lemma narrowed_count: "(ucast (of_nat n :: u64) :: i32) = of_nat n"
  by transfer (simp add: take_bit_take_bit)

lemma scan_number:
  assumes "unat (s :: u64) = k"
  shows "(ucast (s + of_nat i) :: i32) = of_nat (k + i)"
proof -
  have "s + of_nat i = of_nat (k + i)" using assms by auto
  then show ?thesis by (simp only: narrowed_count)
qed

lemma scan_number_list:
  "unat (s :: u64) = k \<Longrightarrow> map (\<lambda>i. (ucast (s + of_nat i) :: i32)) [0 ..< m] = map of_nat [k ..< k + m]"
  by (rule nth_equalityI) (simp_all only: scan_number length_map length_upt nth_map nth_upt diff_zero add_diff_cancel_left'
    add_0 add_strict_left_mono)

section \<open>The records of a frame\<close>

lemma sound_records_encoded:
  assumes "list_all record_sound recs"
  shows "list_all2 (\<lambda>item f. to_frame (fst item) (snd item) = Inr f \<and> frame_parameters f = rec_parameters (snd item) \<and>
      scan_numbers f = map (\<lambda>i. ucast (start_scan_index (snd item) + of_nat i))
        [0 ..< length (stamps (acquiredData (snd item)))] \<and> scan_samples f = gate_samples_of item)
    recs (encoded_frames recs)"
  using assms
proof (induction recs)
  case (Cons item recs)
  with sound_record_encoded [of item] show ?case by auto
qed simp

lemma process_records_encodes:
  "list_all (\<lambda>item. \<exists>f. to_frame (fst item) (snd item) = Inr f) recs \<Longrightarrow> \<exists>p'. process_records recs p = Inr p'"
  by (induction recs arbitrary: p) (auto simp: process_on_notify_def)

lemma consecutive_scan_numbers:
  assumes "consecutive k (map snd recs) = Some n"
    and "list_all2 (\<lambda>item f. scan_numbers f = map (\<lambda>i. ucast (start_scan_index (snd item) + of_nat i))
        [0 ..< length (stamps (acquiredData (snd item)))]) recs fs"
  shows "k \<le> n \<and> concat (map scan_numbers fs) = map of_nat [k ..< n]"
  using assms
proof (induction recs arbitrary: k fs)
  case (Cons item recs)
  then obtain f fs' where fs: "fs = f # fs'" by (auto simp: list_all2_Cons1)
  let ?m = "length (stamps (acquiredData (snd item)))"
  from Cons.prems(1) have k: "unat (start_scan_index (snd item)) = k" "consecutive (k + ?m) (map snd recs) = Some n"
    by (auto split: if_splits)
  from Cons.IH [OF k(2), of fs'] Cons.prems(2) have
    IH: "k + ?m \<le> n" "concat (map scan_numbers fs') = map of_nat [k + ?m ..< n]"
    by (simp_all add: fs)
  have "scan_numbers f = map of_nat [k ..< k + ?m]"
    using Cons.prems(2) by (simp only: fs list_all2_Cons scan_number_list [OF k(1)])
  moreover have "[k ..< n] = [k ..< k + ?m] @ [k + ?m ..< n]"
    using IH(1) by (metis le_add_diff_inverse le_add1 upt_add_eq_append)
  ultimately show ?case using IH by (simp add: fs)
qed simp

lemma consecutive_parameters:
  "list_all2 (\<lambda>item f. frame_parameters f = rec_parameters (snd item)) recs fs \<Longrightarrow>
   list_all (\<lambda>r. rec_parameters r = ps) (map snd recs) \<Longrightarrow> list_all (\<lambda>f. frame_parameters f = ps) fs"
  by (induction rule: list_all2_induct) auto

lemma encoded_samples_of:
  "list_all2 (\<lambda>item f. scan_samples f = gate_samples_of item) recs fs \<Longrightarrow>
   concat (map scan_samples fs) = concat (map gate_samples_of recs)"
  by (induction rule: list_all2_induct) auto

lemma has_file_all:
  "list_all (\<lambda>f. frame_parameters f = ps) fs \<Longrightarrow> filter has_file fs = (if file_name ps = [] then [] else fs)"
  by (induction fs) (auto simp: has_file_def)

text \<open>The frames a thread's records are encoded as.\<close>

lemma encoded_frames_of_thread:
  assumes "acquisition_thread zs1_streaming seg ps stops w = Ended_thread a" "unat seg < 2147483647"
    and "map snd recs = acq_records a" "list_all record_sound recs"
  shows "list_all (\<lambda>f. frame_parameters f = ps) (encoded_frames recs)"
    "concat (map scan_numbers (encoded_frames recs)) = map of_nat [0 ..< unat (scans_acquired_count a)]"
    "concat (map scan_samples (encoded_frames recs)) = concat (map gate_samples_of recs)"
    "scans_acquired_count a = frame_length ps \<or> has_errored a \<or> list_ex id stops \<or> zw_measuring w = Inr True"
proof -
  note covered = frame_covered [OF assms(1,2), folded assms(3)]
  note encoded = sound_records_encoded [OF assms(4)]
  show "list_all (\<lambda>f. frame_parameters f = ps) (encoded_frames recs)"
    by (rule consecutive_parameters [OF list_all2_mono [OF encoded]]) (use covered in simp_all)
  show "concat (map scan_numbers (encoded_frames recs)) = map of_nat [0 ..< unat (scans_acquired_count a)]"
    by (rule consecutive_scan_numbers [THEN conjunct2, OF covered [THEN conjunct1] list_all2_mono [OF encoded]]) simp
  show "concat (map scan_samples (encoded_frames recs)) = concat (map gate_samples_of recs)"
    by (rule encoded_samples_of [OF list_all2_mono [OF encoded]]) simp
  show "scans_acquired_count a = frame_length ps \<or> has_errored a \<or> list_ex id stops \<or> zw_measuring w = Inr True"
    using covered by simp
qed

section \<open>Properties\<close>

text \<open>C3: every trigger of a frame reaches its subscribers exactly once and in order. When the acquisition thread
  ended and its records were sound, the process subject encodes them all; the summing subscriber is handed frames
  whose scans are numbered from 0 up to the number of triggers acquired, with exactly the samples of the triggers'
  gates, and the file writer is handed the same ones when the frame names a file. That number is the length of
  the frame unless an error was reported, the frame was stopped or the card was already acquiring.\<close>

theorem frame_scans_reach_subscribers:
  assumes "acquisition_thread zs1_streaming seg ps stops w = Ended_thread a" "unat seg < 2147483647"
    and "map snd recs = acq_records a" "list_all record_sound recs"
    and "subscribers p = [(ACQUIRE, z), (ACQUIRE_FRAME, v)]" "z \<noteq> v"
  shows "\<exists>p' fs. process_records recs p = Inr p' \<and>
    protected_queue (subscriber_at p' z) = protected_queue (subscriber_at p z) @ fs \<and>
    protected_queue (subscriber_at p' v) =
      protected_queue (subscriber_at p v) @ (if file_name ps = [] then [] else fs) \<and>
    list_all (\<lambda>f. frame_parameters f = ps) fs \<and>
    concat (map scan_numbers fs) = map of_nat [0 ..< unat (scans_acquired_count a)] \<and>
    concat (map scan_samples fs) = concat (map gate_samples_of recs) \<and>
    (scans_acquired_count a = frame_length ps \<or> has_errored a \<or> list_ex id stops \<or> zw_measuring w = Inr True)"
proof -
  let ?fs = "encoded_frames recs"
  note frames = encoded_frames_of_thread [OF assms(1-4)]
  have "list_all (\<lambda>item. \<exists>f. to_frame (fst item) (snd item) = Inr f) recs"
    using assms(4) sound_record_encoded by (fastforce simp: list_all_iff)
  then obtain p' where p': "process_records recs p = Inr p'" using process_records_encodes by blast
  show ?thesis
    using frames_delivered [OF assms(5,6) p'] p' frames by (auto simp: has_file_all)
qed

definition file_parameters :: uimf_frame_parameters where
  "file_parameters = segment_parameters\<lparr>file_name := ''a.uimf''\<rparr>"

definition with_first_buffer :: "zs1_world acquisition \<Rightarrow> (acq_buffer \<times> uimf_acquisition_record) list" where
  "with_first_buffer a = map (\<lambda>r. (buffer_of (zw_pool (acq_world a)) 0, r)) (acq_records a)"

theorem frame_scans_reach_subscribers_witness:
  "\<exists>a p'. acquisition_thread zs1_streaming 10 file_parameters [False, False] example_world = Ended_thread a \<and>
    process_records (with_first_buffer a) two_registered = Inr p' \<and>
    concat (map scan_numbers (protected_queue (subscriber_at p' 1))) = [0]"
proof -
  have "case acquisition_thread zs1_streaming 10 file_parameters [False, False] example_world of
      Ended_thread a \<Rightarrow> \<not> has_errored a \<and> list_all record_sound (with_first_buffer a)
    | _ \<Rightarrow> False"
    by code_simp
  then obtain a where a: "acquisition_thread zs1_streaming 10 file_parameters [False, False] example_world = Ended_thread a"
      "\<not> has_errored a" "list_all record_sound (with_first_buffer a)"
    by (auto split: thread_end.splits)
  have "unat (10 :: u64) < 2147483647" "map snd (with_first_buffer a) = acq_records a"
    "subscribers two_registered = [(ACQUIRE, 0), (ACQUIRE_FRAME, 1)]" "(0 :: nat) \<noteq> 1"
    by (simp_all add: with_first_buffer_def comp_def two_registered_def)
  from frame_scans_reach_subscribers [OF a(1) this(1,2) a(3) this(3,4)] obtain p' fs where
    "process_records (with_first_buffer a) two_registered = Inr p'"
    "protected_queue (subscriber_at p' 1) = protected_queue (subscriber_at two_registered 1) @
       (if file_name file_parameters = [] then [] else fs)"
    "concat (map scan_numbers fs) = map of_nat [0 ..< unat (scans_acquired_count a)]"
    "scans_acquired_count a = frame_length file_parameters \<or> has_errored a \<or> list_ex id [False, False] \<or>
       zw_measuring example_world = Inr True"
    by blast
  with a(1,2) show ?thesis
    by (intro exI [of _ a] exI [of _ p'])
      (simp add: file_parameters_def segment_parameters_def two_registered_def new_subscriber_def example_world_def)
qed

end
