(* ===== verification/LZF.thy ===== *)
theory LZF
  imports Prelude
begin

text \<open>
  The LZF compressor and decompressor of UIMFWriter (lzf_c.c, lzf_d.c, lzfP.h) as the build
  configures them: \<open>HLOG\<close> 16, \<open>VERY_FAST\<close>, \<open>INIT_HTAB\<close>,
  \<open>CHECK_INPUT\<close>, and a hash table of offsets. A pointer into the input or the output is
  its position; a read outside the input, or a write outside the output buffer, is
  \<open>Undefined\<close>. The output buffer is a list of fixed length that is updated in place, the
  way the compressor patches the length of a literal run after the run.
\<close>

section \<open>The compressor\<close>

definition max_lit :: nat where
  "max_lit = 32"

definition max_off :: nat where
  "max_off = 8192"

definition max_ref :: nat where
  "max_ref = 264"

definition FRST :: "u8 \<Rightarrow> u8 \<Rightarrow> u32" where
  "FRST p0 p1 = push_bit 8 (ucast p0) OR ucast p1"

definition NEXT :: "u32 \<Rightarrow> u8 \<Rightarrow> u32" where
  "NEXT v p2 = push_bit 8 v OR ucast p2"

definition IDX :: "u32 \<Rightarrow> u32" where
  "IDX h = (drop_bit 8 h - h * 5) AND 0xFFFF"

text \<open>Where the compressor is, which both variants share, and the hash table of this one.\<close>

record lzf_cursor =
  ip :: nat
  op_pos :: nat
  lit :: nat
  out :: "u8 list"

record lzf_state = lzf_cursor +
  hval :: u32
  htab :: "u32 \<Rightarrow> u32"

definition byte_at :: "u8 list \<Rightarrow> nat \<Rightarrow> u8 result" where
  "byte_at xs i = (if i < length xs then Inr (xs ! i) else Inl (Undefined ''input read''))"

definition put :: "nat \<Rightarrow> u8 \<Rightarrow> 'a lzf_cursor_scheme \<Rightarrow> 'a lzf_cursor_scheme result" where
  "put i b st =
     (if i < length (out st) then Inr (st\<lparr>out := (out st)[i := b]\<rparr>) else Inl (Undefined ''output write''))"

text \<open>\<open>op [- lit - 1] = lit - 1\<close>, which ends a literal run.\<close>

definition stop_run :: "'a lzf_cursor_scheme \<Rightarrow> 'a lzf_cursor_scheme result" where
  "stop_run st = put (op_pos st - lit st - 1) (of_int (int (lit st) - 1)) st"

text \<open>\<open>lit++; *op++ = *ip++\<close>, and the end of a full run.\<close>

definition copy_literal :: "u8 list \<Rightarrow> 'a lzf_cursor_scheme \<Rightarrow> 'a lzf_cursor_scheme result" where
  "copy_literal xs st =
     bindR (byte_at xs (ip st)) (\<lambda>b.
     bindR (put (op_pos st) b st) (\<lambda>st1.
       let st2 = st1\<lparr>lit := lit st + 1, op_pos := op_pos st + 1, ip := ip st + 1\<rparr> in
       if lit st2 = max_lit
       then bindR (stop_run st2) (\<lambda>st3. Inr (st3\<lparr>lit := 0, op_pos := op_pos st3 + 1\<rparr>))
       else Inr st2))"

subsection \<open>The length of a match\<close>

definition same_byte :: "u8 list \<Rightarrow> nat \<Rightarrow> nat \<Rightarrow> bool result" where
  "same_byte xs i j = bindR (byte_at xs i) (\<lambda>a. bindR (byte_at xs j) (\<lambda>b. Inr (a = b)))"

text \<open>The unrolled comparisons; \<open>True\<close> when one of them ended the match.\<close>

fun compare_unrolled :: "u8 list \<Rightarrow> nat \<Rightarrow> nat \<Rightarrow> nat \<Rightarrow> nat \<Rightarrow> (nat \<times> bool) result" where
  "compare_unrolled xs r i 0 len = Inr (len, False)"
| "compare_unrolled xs r i (Suc k) len =
     bindR (same_byte xs (r + (len + 1)) (i + (len + 1))) (\<lambda>eq.
       if eq then compare_unrolled xs r i k (len + 1) else Inr (len + 1, True))"

function compare_loop :: "u8 list \<Rightarrow> nat \<Rightarrow> nat \<Rightarrow> nat \<Rightarrow> nat \<Rightarrow> nat result" where
  "compare_loop xs r i maxlen len =
     (if len + 1 < maxlen then
        (case same_byte xs (r + (len + 1)) (i + (len + 1)) of
           Inl e \<Rightarrow> Inl e
         | Inr eq \<Rightarrow> if eq then compare_loop xs r i maxlen (len + 1) else Inr (len + 1))
      else Inr (len + 1))"
  by pat_completeness auto
termination by (relation "measure (\<lambda>(xs, r, i, maxlen, len). maxlen - len)") auto

declare compare_loop.simps [simp del]

definition match_length :: "u8 list \<Rightarrow> nat \<Rightarrow> nat \<Rightarrow> nat result" where
  "match_length xs r i =
     (let rest = length xs - i - 2; maxlen = (if max_ref < rest then max_ref else rest) in
      if 16 < maxlen then
        bindR (compare_unrolled xs r i 16 2) (\<lambda>(len, stopped).
          if stopped then Inr len else compare_loop xs r i maxlen len)
      else compare_loop xs r i maxlen 2)"

subsection \<open>One round of the loop\<close>

datatype 's lzf_step = Again 's | Broken 's | Returned_0 's | Fault exn

fun step_of :: "'s lzf_step result \<Rightarrow> 's lzf_step" where
  "step_of (Inl e) = Fault e"
| "step_of (Inr s) = s"

definition enter_hash :: "u8 list \<Rightarrow> lzf_state \<Rightarrow> lzf_state result" where
  "enter_hash xs st =
     bindR (byte_at xs (ip st + 2)) (\<lambda>b.
       let h = NEXT (hval st) b in
       Inr (st\<lparr>hval := h, htab := (htab st)(IDX h := of_nat (ip st)), ip := ip st + 1\<rparr>))"

definition is_match :: "u8 list \<Rightarrow> nat \<Rightarrow> nat \<Rightarrow> bool result" where
  "is_match xs r i =
     (if r < i \<and> i - r - 1 < max_off \<and> 0 < r then
        bindR (same_byte xs (r + 2) (i + 2)) (\<lambda>eq2.
          if eq2 then
            bindR (same_byte xs (r + 1) (i + 1)) (\<lambda>eq1.
              if eq1 then same_byte xs r i else Inr False)
          else Inr False)
      else Inr False)"

text \<open>The back reference written at \<open>op\<close>; \<open>len\<close> counts from the second octet.\<close>

definition write_ref :: "nat \<Rightarrow> nat \<Rightarrow> 'a lzf_cursor_scheme \<Rightarrow> 'a lzf_cursor_scheme result" where
  "write_ref off len st =
     bindR (if len < 7
       then bindR (put (op_pos st) (of_nat (off div 256 + len * 32)) st) (\<lambda>st1.
         Inr (st1\<lparr>op_pos := op_pos st + 1\<rparr>))
       else bindR (put (op_pos st) (of_nat (off div 256 + 7 * 32)) st) (\<lambda>st1.
         bindR (put (op_pos st + 1) (of_nat (len - 7)) st1) (\<lambda>st2.
         Inr (st2\<lparr>op_pos := op_pos st + 2\<rparr>)))) (\<lambda>st3.
     bindR (put (op_pos st3) (of_nat off) st3) (\<lambda>st4.
     Inr (st4\<lparr>op_pos := op_pos st3 + 1\<rparr>)))"

text \<open>After a match the last two positions it covered are entered in the hash table.\<close>

definition rehash :: "u8 list \<Rightarrow> lzf_state \<Rightarrow> lzf_state lzf_step result" where
  "rehash xs st =
     (if length xs \<le> ip st + 2 then Inr (Broken st)
      else
        bindR (byte_at xs (ip st - 2)) (\<lambda>p0.
        bindR (byte_at xs (ip st - 2 + 1)) (\<lambda>p1.
        bindR (enter_hash xs (st\<lparr>ip := ip st - 2, hval := FRST p0 p1\<rparr>)) (\<lambda>st1.
        bindR (enter_hash xs st1) (\<lambda>st2. Inr (Again st2))))))"

definition match_step :: "u8 list \<Rightarrow> nat \<Rightarrow> lzf_state \<Rightarrow> lzf_state lzf_step result" where
  "match_step xs r st =
     (let off = ip st - r - 1; unlit = (if lit st = 0 then 1 else 0) in
      if length (out st) \<le> op_pos st + 3 + 1 \<and> length (out st) \<le> op_pos st - unlit + 3 + 1
      then Inr (Returned_0 st)
      else
        bindR (stop_run st) (\<lambda>st1.
        bindR (match_length xs r (ip st)) (\<lambda>m.
        let len = m - 2 in
        bindR (write_ref off len (st1\<lparr>op_pos := op_pos st - unlit, ip := ip st + 1\<rparr>)) (\<lambda>st3.
        rehash xs (st3\<lparr>lit := 0, op_pos := op_pos st3 + 1, ip := ip st3 + (len + 1)\<rparr>)))))"

definition compress_step :: "u8 list \<Rightarrow> lzf_state \<Rightarrow> lzf_state lzf_step" where
  "compress_step xs st =
     step_of
      (bindR (byte_at xs (ip st + 2)) (\<lambda>b.
       let h = NEXT (hval st) b; r = unat (htab st (IDX h));
           st1 = st\<lparr>hval := h, htab := (htab st)(IDX h := of_nat (ip st))\<rparr> in
       bindR (is_match xs r (ip st)) (\<lambda>found.
       if found then match_step xs r st1
       else if length (out st1) \<le> op_pos st1 then Inr (Returned_0 st1)
       else bindR (copy_literal xs st1) (\<lambda>st2. Inr (Again st2)))))"

text \<open>The loop: every round advances the input position.\<close>

lemma put_frame: "put i b st = Inr st' \<Longrightarrow> ip st' = ip st \<and> op_pos st' = op_pos st \<and> lit st' = lit st"
  by (auto simp: put_def split: if_splits)

lemma stop_run_frame: "stop_run st = Inr st' \<Longrightarrow> ip st' = ip st \<and> op_pos st' = op_pos st \<and> lit st' = lit st"
  unfolding stop_run_def by (rule put_frame)

lemma write_ref_frame: "write_ref off len st = Inr st' \<Longrightarrow> ip st' = ip st"
  by (auto simp: write_ref_def bindR_Inr_iff dest!: put_frame split: if_splits)

lemma copy_literal_ip: "copy_literal xs st = Inr st' \<Longrightarrow> ip st' = ip st + 1"
  by (auto simp: copy_literal_def bindR_Inr_iff Let_def dest!: put_frame stop_run_frame split: if_splits)

lemma enter_hash_ip: "enter_hash xs st = Inr st' \<Longrightarrow> ip st' = ip st + 1"
  by (auto simp: enter_hash_def bindR_Inr_iff Let_def)

lemma rehash_ip: "rehash xs st = Inr (Again st') \<Longrightarrow> 2 \<le> ip st \<Longrightarrow> ip st' = ip st"
  by (auto simp: rehash_def bindR_Inr_iff dest!: enter_hash_ip split: if_splits)

lemma match_step_ip: "match_step xs r st = Inr (Again st') \<Longrightarrow> ip st < ip st'"
  by (auto simp: match_step_def Let_def bindR_Inr_iff dest!: write_ref_frame rehash_ip split: if_splits)

lemma compress_step_ip: "compress_step xs st = Again st' \<Longrightarrow> ip st < ip st'"
proof (cases "compress_step xs st")
  case (Again st1)
  assume "compress_step xs st = Again st'"
  then show ?thesis
    by (auto simp: compress_step_def Let_def bindR_Inr_iff elim!: step_of.elims
        dest!: match_step_ip copy_literal_ip split: if_splits)
qed auto

function compress_loop :: "u8 list \<Rightarrow> lzf_state \<Rightarrow> lzf_state lzf_step" where
  "compress_loop xs st =
     (if ip st + 2 < length xs then
        (case compress_step xs st of
           Again st' \<Rightarrow> compress_loop xs st'
         | Broken st' \<Rightarrow> Broken st'
         | Returned_0 st' \<Rightarrow> Returned_0 st'
         | Fault e \<Rightarrow> Fault e)
      else Broken st)"
  by pat_completeness auto
termination
  by (relation "measure (\<lambda>(xs, st). length xs - ip st)") (auto dest: compress_step_ip)

declare compress_loop.simps [simp del]

fun tail_loop :: "u8 list \<Rightarrow> nat \<Rightarrow> 'a lzf_cursor_scheme \<Rightarrow> 'a lzf_cursor_scheme result" where
  "tail_loop xs 0 st = Inr st"
| "tail_loop xs (Suc n) st = bindR (copy_literal xs st) (tail_loop xs n)"

definition finish_compress :: "u8 list \<Rightarrow> 'a lzf_cursor_scheme \<Rightarrow> (nat \<times> u8 list) result" where
  "finish_compress xs st =
     (if length (out st) < op_pos st + 3 then Inr (0, out st)
      else
        bindR (tail_loop xs (length xs - ip st) st) (\<lambda>st1.
        bindR (stop_run st1) (\<lambda>st2.
        Inr (op_pos st2 - (if lit st2 = 0 then 1 else 0), out st2))))"

definition lzf_compress :: "u8 list \<Rightarrow> u8 list \<Rightarrow> (nat \<times> u8 list) result" where
  "lzf_compress xs buffer =
     (if xs = [] \<or> buffer = [] then Inr (0, buffer)
      else
        bindR (byte_at xs 0) (\<lambda>p0.
        bindR (byte_at xs 1) (\<lambda>p1.
        case compress_loop xs \<lparr>ip = 0, op_pos = 1, lit = 0, out = buffer, hval = FRST p0 p1, htab = \<lambda>_. 0\<rparr> of
          Again st \<Rightarrow> finish_compress xs st
        | Broken st \<Rightarrow> finish_compress xs st
        | Returned_0 st \<Rightarrow> Inr (0, out st)
        | Fault e \<Rightarrow> Inl e)))"

section \<open>The decompressor\<close>

datatype lzf_result = Decoded "u8 list" | E2BIG | EINVAL | Decode_fault exn

text \<open>Octet by octet, so that a copy may overlap what it writes.\<close>

fun copy_octets :: "nat \<Rightarrow> nat \<Rightarrow> u8 list \<Rightarrow> u8 list" where
  "copy_octets r 0 ws = ws"
| "copy_octets r (Suc n) ws = copy_octets (r + 1) n (ws @ [ws ! r])"

definition copy_ref_octets :: "nat \<Rightarrow> nat \<Rightarrow> u8 list \<Rightarrow> u8 list" where
  "copy_ref_octets r len ws =
     (if len \<le> 9 then copy_octets r (len + 2) ws
      else if r + (len + 2) \<le> length ws then ws @ take (len + 2) (drop r ws)
      else copy_octets r (len + 2) ws)"

text \<open>
  One token from position \<open>i\<close> of the input, with \<open>ws\<close> the octets written so
  far: the new position and output.
\<close>

definition decode_literal :: "u8 list \<Rightarrow> nat \<Rightarrow> nat \<Rightarrow> nat \<Rightarrow> u8 list \<Rightarrow> lzf_result + (nat \<times> u8 list)" where
  "decode_literal ys limit i ctrl ws =
     (let n = ctrl + 1 in
      if limit < length ws + n then Inl E2BIG
      else if length ys < i + n then Inl EINVAL
      else Inr (i + n, ws @ take n (drop i ys)))"

definition decode_ref :: "u8 list \<Rightarrow> nat \<Rightarrow> nat \<Rightarrow> nat \<Rightarrow> u8 list \<Rightarrow> lzf_result + (nat \<times> u8 list)" where
  "decode_ref ys limit i ctrl ws =
     (if length ys \<le> i then Inl EINVAL
      else if ctrl div 32 = 7 \<and> length ys \<le> i + 1 then Inl EINVAL
      else
        let long = ctrl div 32 = 7;
            len = (if long then 7 + unat (ys ! i) else ctrl div 32);
            j = (if long then i + 1 else i);
            back = ctrl mod 32 * 256 + 1 + unat (ys ! j) in
        if limit < length ws + len + 2 then Inl E2BIG
        else if length ws < back then Inl EINVAL
        else Inr (j + 1, copy_ref_octets (length ws - back) len ws))"

definition decode_token :: "u8 list \<Rightarrow> nat \<Rightarrow> nat \<Rightarrow> u8 list \<Rightarrow> lzf_result + (nat \<times> u8 list)" where
  "decode_token ys limit i ws =
     (if length ys \<le> i then Inl (Decode_fault (Undefined ''input read''))
      else
        let ctrl = unat (ys ! i) in
        if ctrl < 32 then decode_literal ys limit (i + 1) ctrl ws
        else decode_ref ys limit (i + 1) ctrl ws)"

lemma decode_token_advances: "decode_token ys limit i ws = Inr (j, vs) \<Longrightarrow> i < j \<and> i < length ys"
  by (auto simp: decode_token_def decode_literal_def decode_ref_def Let_def split: if_splits)

function decode_loop :: "u8 list \<Rightarrow> nat \<Rightarrow> nat \<Rightarrow> u8 list \<Rightarrow> lzf_result" where
  "decode_loop ys limit i ws =
     (case decode_token ys limit i ws of
        Inl e \<Rightarrow> e
      | Inr (j, vs) \<Rightarrow> if j < length ys then decode_loop ys limit j vs else Decoded vs)"
  by pat_completeness auto
termination
  by (relation "measure (\<lambda>(ys, limit, i, ws). length ys - i)") (auto dest!: decode_token_advances)

declare decode_loop.simps [simp del]

definition lzf_decompress :: "u8 list \<Rightarrow> nat \<Rightarrow> lzf_result" where
  "lzf_decompress ys limit = decode_loop ys limit 0 []"

end
