(* ===== verification/LZF_Roundtrip.thy ===== *)
theory LZF_Roundtrip
  imports LZF
begin

text \<open>
  The compressor writes a sequence of tokens, each a literal run or a back reference; the
  decompressor reads them one by one. Whatever the hash table holds, the tokens expand to the input,
  so decompressing what was compressed gives the input back.
\<close>

section \<open>Tokens\<close>

datatype lzf_token = Lits "u8 list" | Back nat nat

fun token_ok :: "u8 list \<Rightarrow> lzf_token \<Rightarrow> bool" where
  "token_ok ws (Lits bs) = (1 \<le> length bs \<and> length bs \<le> 32)"
| "token_ok ws (Back off n) = (off < 8192 \<and> off < length ws \<and> 3 \<le> n \<and> n \<le> 264)"

fun encode_token :: "lzf_token \<Rightarrow> u8 list" where
  "encode_token (Lits bs) = of_nat (length bs - 1) # bs"
| "encode_token (Back off n) =
     (if n - 2 < 7 then [of_nat (off div 256 + (n - 2) * 32), of_nat off]
      else [of_nat (off div 256 + 7 * 32), of_nat (n - 2 - 7), of_nat off])"

fun apply_token :: "lzf_token \<Rightarrow> u8 list \<Rightarrow> u8 list" where
  "apply_token (Lits bs) ws = ws @ bs"
| "apply_token (Back off n) ws = copy_octets (length ws - off - 1) n ws"

fun expand :: "lzf_token list \<Rightarrow> u8 list \<Rightarrow> u8 list option" where
  "expand [] ws = Some ws"
| "expand (t # ts) ws = (if token_ok ws t then expand ts (apply_token t ws) else None)"

definition encode_tokens :: "lzf_token list \<Rightarrow> u8 list" where
  "encode_tokens ts = concat (map encode_token ts)"

lemma encode_tokens_simps [simp]:
  "encode_tokens [] = []" "encode_tokens (t # ts) = encode_token t @ encode_tokens ts"
  "encode_tokens (ts @ us) = encode_tokens ts @ encode_tokens us"
  by (simp_all add: encode_tokens_def)

lemma expand_append:
  "expand (ts @ us) ws = (case expand ts ws of None \<Rightarrow> None | Some vs \<Rightarrow> expand us vs)"
  by (induction ts arbitrary: ws) auto

lemma length_copy_octets [simp]: "length (copy_octets r n ws) = length ws + n"
  by (induction r n ws rule: copy_octets.induct) auto

lemma expand_length: "expand ts ws = Some vs \<Longrightarrow> length ws \<le> length vs"
proof (induction ts arbitrary: ws)
  case (Cons t ts)
  then have "length (apply_token t ws) \<le> length vs"
    by (auto split: if_splits)
  then show ?case
    by (cases t) auto
qed simp

lemma copy_octets_disjoint: "r + n \<le> length ws \<Longrightarrow> copy_octets r n ws = ws @ take n (drop r ws)"
proof (induction r n ws rule: copy_octets.induct)
  case (2 r n ws)
  then have "take (Suc n) (drop r ws) = ws ! r # take n (drop (r + 1) ws)"
    by (metis Cons_nth_drop_Suc Suc_eq_plus1 Suc_le_lessD add_Suc_right le_add1 order_le_less_trans
        add.commute take_Suc_Cons)
  with 2 show ?case by simp
qed simp

lemma copy_ref_octets_eq: "copy_ref_octets r len ws = copy_octets r (len + 2) ws"
  using copy_octets_disjoint [of r "len + 2" ws]
  unfolding copy_ref_octets_def by (simp del: copy_octets.simps)

section \<open>The decompressor reads tokens\<close>

lemma unat_small_u8: "n < 256 \<Longrightarrow> unat (of_nat n :: u8) = n"
  by (simp add: unsigned_of_nat take_bit_nat_eq_self)

lemma unat_low_byte: "unat (of_nat n :: u8) = n mod 256"
  by (simp add: unsigned_of_nat take_bit_eq_mod)

lemma decode_lits:
  assumes "unat c = length bs - 1" "1 \<le> length bs" "length bs \<le> 32" "length ws + length bs \<le> limit"
  shows "decode_token (pre @ (c # bs) @ post) limit (length pre) ws = Inr (length pre + length (c # bs), ws @ bs)"
proof -
  have "unat c < 32" "unat c + 1 = length bs" using assms by simp_all
  with assms show ?thesis
    by (simp add: decode_token_def decode_literal_def nth_append Let_def)
qed

lemma decode_short:
  assumes "unat c = hi + k * 32" "hi < 32" "1 \<le> k" "k < 7" "hi * 256 + 1 + unat d \<le> length ws"
    and "length ws + (k + 2) \<le> limit"
  shows "decode_token (pre @ [c, d] @ post) limit (length pre) ws =
    Inr (length pre + 2, copy_octets (length ws - (hi * 256 + 1 + unat d)) (k + 2) ws)"
proof -
  have "\<not> unat c < 32" "unat c div 32 = k" "unat c mod 32 = hi"
    using assms(1-4) by auto
  with assms show ?thesis
    by (simp add: decode_token_def decode_ref_def nth_append copy_ref_octets_eq Let_def del: copy_octets.simps)
qed

lemma decode_long:
  assumes "unat c = hi + 7 * 32" "hi < 32" "hi * 256 + 1 + unat d \<le> length ws"
    and "length ws + (unat e + 9) \<le> limit"
  shows "decode_token (pre @ [c, e, d] @ post) limit (length pre) ws =
    Inr (length pre + 3, copy_octets (length ws - (hi * 256 + 1 + unat d)) (unat e + 9) ws)"
proof -
  have "\<not> unat c < 32" "unat c div 32 = 7"
    using assms(1,2) by auto
  moreover have "unat c mod 32 = hi"
    using assms(2) mod_mult_self1 [of hi 7 32] unfolding assms(1) by (simp only: mult.commute [of 7 32] mod_less)
  ultimately show ?thesis
    using assms
    by (simp add: decode_token_def decode_ref_def nth_append copy_ref_octets_eq Let_def add.commute
        del: copy_octets.simps)
qed

lemma decode_token_lits:
  assumes "token_ok ws (Lits bs)" "length ws + length bs \<le> limit"
  shows "decode_token (pre @ encode_token (Lits bs) @ post) limit (length pre) ws =
    Inr (length pre + length (encode_token (Lits bs)), ws @ bs)"
proof -
  have "unat (of_nat (length bs - 1) :: u8) = length bs - 1"
    using assms(1) by (intro unat_small_u8) (simp, linarith)
  from decode_lits [OF this] assms show ?thesis
    by (simp only: token_ok.simps encode_token.simps)
qed

lemma decode_token_back:
  assumes "token_ok ws (Back off n)" "length ws + n \<le> limit"
  shows "decode_token (pre @ encode_token (Back off n) @ post) limit (length pre) ws =
    Inr (length pre + length (encode_token (Back off n)), copy_octets (length ws - off - 1) n ws)"
proof -
  have off: "off div 256 < 32" and n: "3 \<le> n" "n \<le> 264" and behind: "off < length ws"
    using assms(1) by auto
  have low: "off div 256 * 256 + 1 + unat (of_nat off :: u8) = off + 1"
    unfolding unat_low_byte by presburger
  show ?thesis
  proof (cases "n - 2 < 7")
    case True
    have "unat (of_nat (off div 256 + (n - 2) * 32) :: u8) = off div 256 + (n - 2) * 32"
      using True off by (intro unat_small_u8) simp
    note decode_short [OF this off, of "of_nat off" ws limit pre post, unfolded low]
    moreover have "n - 2 + 2 = n" "length ws - (off + 1) = length ws - off - 1"
      using n by simp_all
    ultimately show ?thesis
      using True assms(2) n behind by (simp del: copy_octets.simps of_nat_add of_nat_mult of_nat_diff)
  next
    case False
    have c: "unat (of_nat (off div 256 + 7 * 32) :: u8) = off div 256 + 7 * 32"
      using off by (intro unat_small_u8) simp
    have len: "unat (of_nat (n - 2 - 7) :: u8) = n - 2 - 7"
      using n by (intro unat_small_u8) simp
    note decode_long [OF c off, of "of_nat off" ws "of_nat (n - 2 - 7)" limit pre post, unfolded low len]
    moreover have "n - 2 - 7 + 9 = n" "length ws - (off + 1) = length ws - off - 1"
      using n False by simp_all
    ultimately show ?thesis
      using False assms(2) n behind by (simp del: copy_octets.simps of_nat_add of_nat_mult of_nat_diff)
  qed
qed

lemma decode_token_encode:
  assumes "token_ok ws t" "length (apply_token t ws) \<le> limit"
  shows "decode_token (pre @ encode_token t @ post) limit (length pre) ws =
    Inr (length pre + length (encode_token t), apply_token t ws)"
  using decode_token_lits [of ws _ limit pre post] decode_token_back [of ws _ _ limit pre post] assms
  by (cases t) (simp_all del: encode_token.simps)

lemma encode_token_nonempty: "encode_token t \<noteq> []"
  by (cases t) auto

lemma decode_loop_tokens:
  assumes "expand ts ws = Some vs" "ts \<noteq> []" "length vs \<le> limit"
  shows "decode_loop (pre @ encode_tokens ts) limit (length pre) ws = Decoded vs"
  using assms
proof (induction ts arbitrary: pre ws)
  case (Cons t ts)
  have ok: "token_ok ws t" and rest: "expand ts (apply_token t ws) = Some vs"
    using Cons.prems(1) by (auto split: if_splits)
  have "length (apply_token t ws) \<le> limit"
    using expand_length [OF rest] Cons.prems(3) by simp
  note step = decode_token_encode [OF ok this, of pre "encode_tokens ts"]
  show ?case
  proof (cases "ts = []")
    case True
    with rest step show ?thesis
      by (subst decode_loop.simps) simp
  next
    case False
    then obtain u us where "ts = u # us" by (cases ts) auto
    then have "0 < length (encode_tokens ts)"
      using encode_token_nonempty [of u] by simp
    then have "decode_loop (pre @ encode_tokens (t # ts)) limit (length pre) ws =
        decode_loop ((pre @ encode_token t) @ encode_tokens ts) limit (length (pre @ encode_token t)) (apply_token t ws)"
      using step by (subst decode_loop.simps) simp
    also have "\<dots> = Decoded vs"
      using rest False Cons.prems(3) by (rule Cons.IH)
    finally show ?thesis .
  qed
qed simp

section \<open>Matches\<close>

definition agree :: "u8 list \<Rightarrow> nat \<Rightarrow> nat \<Rightarrow> nat \<Rightarrow> bool" where
  "agree xs r i n \<longleftrightarrow> (\<forall>k < n. xs ! (r + k) = xs ! (i + k))"

lemma agree_Suc: "agree xs r i (Suc n) \<longleftrightarrow> agree xs r i n \<and> xs ! (r + n) = xs ! (i + n)"
  by (auto simp: agree_def less_Suc_eq)

lemma same_byte_value:
  "r < length xs \<Longrightarrow> i < length xs \<Longrightarrow> same_byte xs r i = Inr (xs ! r = xs ! i)"
  by (simp add: same_byte_def byte_at_def)

lemma compare_unrolled_agrees:
  assumes "agree xs r i (Suc len)" "r < i" "i + len + n < length xs"
  obtains l stopped where "compare_unrolled xs r i n len = Inr (l, stopped)" "len \<le> l" "l \<le> len + n"
    "agree xs r i l" "stopped \<longrightarrow> len < l" "\<not> stopped \<longrightarrow> l = len + n \<and> agree xs r i (Suc l)"
  using assms
proof (induction n arbitrary: len thesis)
  case 0
  then show ?case by (auto simp: agree_Suc)
next
  case (Suc n)
  have same: "same_byte xs (r + (len + 1)) (i + (len + 1)) = Inr (xs ! (r + (len + 1)) = xs ! (i + (len + 1)))"
    using Suc.prems by (intro same_byte_value) auto
  show ?case
  proof (cases "xs ! (r + (len + 1)) = xs ! (i + (len + 1))")
    case True
    then have "agree xs r i (Suc (len + 1))"
      using Suc.prems(2) by (simp add: agree_Suc)
    then obtain l stopped where "compare_unrolled xs r i n (len + 1) = Inr (l, stopped)" "len + 1 \<le> l"
      "l \<le> len + 1 + n" "agree xs r i l" "stopped \<longrightarrow> len + 1 < l"
      "\<not> stopped \<longrightarrow> l = len + 1 + n \<and> agree xs r i (Suc l)"
      using Suc.IH [of "len + 1"] Suc.prems by auto
    with same True show ?thesis
      by (intro Suc.prems(1) [of l stopped]) auto
  next
    case False
    with same Suc.prems(2) show ?thesis
      by (intro Suc.prems(1) [of "len + 1" True]) (auto simp: agree_Suc)
  qed
qed

lemma compare_loop_agrees:
  assumes "agree xs r i (Suc len)" "r < i" "i + maxlen \<le> length xs" "i + len + 1 \<le> length xs"
  shows "\<exists>l. compare_loop xs r i maxlen len = Inr l \<and> len < l \<and> l \<le> max maxlen (len + 1) \<and> agree xs r i l"
  using assms
proof (induction "maxlen - len" arbitrary: len rule: less_induct)
  case less
  note unfold = compare_loop.simps [of xs r i maxlen len]
  show ?case
  proof (cases "len + 1 < maxlen")
    case True
    have same: "same_byte xs (r + (len + 1)) (i + (len + 1)) = Inr (xs ! (r + (len + 1)) = xs ! (i + (len + 1)))"
      using less.prems True by (intro same_byte_value) auto
    show ?thesis
    proof (cases "xs ! (r + (len + 1)) = xs ! (i + (len + 1))")
      case eq: True
      then have "agree xs r i (Suc (len + 1))"
        using less.prems(1) by (simp add: agree_Suc)
      then have "\<exists>l. compare_loop xs r i maxlen (len + 1) = Inr l \<and> len + 1 < l \<and>
          l \<le> max maxlen (len + 1 + 1) \<and> agree xs r i l"
        using less.prems True by (intro less.hyps) auto
      with same eq True show ?thesis
        unfolding unfold by auto
    next
      case False
      with same True less.prems(1) show ?thesis
        unfolding unfold by simp
    qed
  next
    case False
    with less.prems(1) show ?thesis
      unfolding unfold by simp
  qed
qed

lemma match_length_agrees:
  assumes "agree xs r i 3" "r < i" "i + 2 < length xs"
  obtains m where "match_length xs r i = Inr m" "3 \<le> m" "m \<le> 264" "i + m \<le> length xs" "agree xs r i m"
proof -
  define rest where "rest = length xs - i - 2"
  define maxlen where "maxlen = (if max_ref < rest then max_ref else rest)"
  have len: "length xs = i + rest + 2" "1 \<le> rest"
    using assms(3) by (auto simp: rest_def)
  have mx: "maxlen \<le> rest" "maxlen \<le> 264"
    by (auto simp: maxlen_def max_ref_def)
  have two: "agree xs r i (Suc 2)"
    using assms(1) by (simp add: numeral_3_eq_3)
  show thesis
  proof (cases "16 < maxlen")
    case True
    obtain l stopped where l: "compare_unrolled xs r i 16 2 = Inr (l, stopped)" "2 \<le> l" "l \<le> 2 + 16"
      "agree xs r i l" "stopped \<longrightarrow> 2 < l" "\<not> stopped \<longrightarrow> l = 2 + 16 \<and> agree xs r i (Suc l)"
      using True len mx by (rule_tac compare_unrolled_agrees [OF two assms(2), of 16]) auto
    show ?thesis
    proof (cases stopped)
      case stop: True
      with l True len mx show ?thesis
        by (intro that [of l]) (auto simp: match_length_def Let_def rest_def [symmetric] maxlen_def [symmetric])
    next
      case False
      then have "agree xs r i (Suc l)" "l = 18" using l(6) by auto
      then obtain m where "compare_loop xs r i maxlen l = Inr m" "l < m" "m \<le> max maxlen (l + 1)" "agree xs r i m"
        using compare_loop_agrees [of xs r i l maxlen, OF _ assms(2)] True len mx by auto
      with l False True len mx \<open>l = 18\<close> show ?thesis
        by (intro that [of m]) (auto simp: match_length_def Let_def rest_def [symmetric] maxlen_def [symmetric])
    qed
  next
    case False
    obtain m where "compare_loop xs r i maxlen 2 = Inr m" "2 < m" "m \<le> max maxlen (2 + 1)" "agree xs r i m"
      using compare_loop_agrees [OF two assms(2), of maxlen] len mx by auto
    with False len mx show ?thesis
      by (intro that [of m]) (auto simp: match_length_def Let_def rest_def [symmetric] maxlen_def [symmetric])
  qed
qed

lemma is_match_value:
  assumes "i + 2 < length xs"
  shows "is_match xs r i = Inr (r < i \<and> i - r - 1 < 8192 \<and> 0 < r \<and> agree xs r i 3)"
  using assms
  by (auto simp: is_match_def same_byte_value max_off_def numeral_3_eq_3 agree_Suc agree_def [of xs r i 0])

lemma copy_match:
  assumes "r < i" "i + m \<le> length xs" "agree xs r i m"
  shows "copy_octets r m (take i xs) = take (i + m) xs"
  using assms
proof (induction m arbitrary: r i)
  case (Suc m)
  have "xs ! r = xs ! i" "agree xs (r + 1) (i + 1) m"
    using Suc.prems(3) by (auto simp: agree_def dest: spec [of _ 0] spec [of _ "Suc _"])
  then have "take i xs @ [take i xs ! r] = take (i + 1) xs"
    using Suc.prems by (simp add: take_Suc_conv_app_nth)
  with Suc.IH [of "r + 1" "i + 1"] Suc.prems \<open>agree xs (r + 1) (i + 1) m\<close> show ?case
    by simp
qed simp

section \<open>The invariant of the compressor\<close>

text \<open>
  The tokens finished so far are at the front of the buffer and expand to the input before the
  current literal run; the bytes of the run follow, after the octet kept free for its length.
\<close>

definition run_start :: "'a lzf_cursor_scheme \<Rightarrow> nat" where
  "run_start st = ip st - lit st"

definition compress_inv :: "u8 list \<Rightarrow> nat \<Rightarrow> 'a lzf_cursor_scheme \<Rightarrow> lzf_token list \<Rightarrow> bool" where
  "compress_inv xs cap st ts \<longleftrightarrow>
     length (out st) = cap \<and> ip st \<le> length xs \<and> lit st \<le> ip st \<and> lit st < 32 \<and>
     op_pos st = length (encode_tokens ts) + 1 + lit st \<and>
     op_pos st \<le> cap + (if lit st = 0 then 1 else 0) \<and>
     take (length (encode_tokens ts)) (out st) = encode_tokens ts \<and>
     take (lit st) (drop (length (encode_tokens ts) + 1) (out st)) = take (lit st) (drop (run_start st) xs) \<and>
     expand ts [] = Some (take (run_start st) xs) \<and>
     length (encode_tokens ts) \<le> run_start st + run_start st div 32"

definition finished :: "u8 list \<Rightarrow> nat \<Rightarrow> 'a lzf_cursor_scheme \<Rightarrow> lzf_token list \<Rightarrow> bool" where
  "finished xs cap st ts \<longleftrightarrow>
     length (out st) = cap \<and> length (encode_tokens ts) \<le> cap \<and>
     take (length (encode_tokens ts)) (out st) = encode_tokens ts \<and>
     expand ts [] = Some (take (ip st) xs)"

lemma take_update_prefix: "n \<le> i \<Longrightarrow> take n (ys[i := b]) = take n ys"
  by (simp add: take_update_swap list_update_beyond)

text \<open>Ending the literal run at the position of \<open>op\<close>.\<close>

lemma stop_run_finishes:
  assumes "compress_inv xs cap st ts" "length (encode_tokens ts) < cap"
  obtains st' us where "stop_run st = Inr st'" "ip st' = ip st" "op_pos st' = op_pos st" "lit st' = lit st"
    "finished xs cap st' us" "length (encode_tokens us) = op_pos st - (if lit st = 0 then 1 else 0)"
    "length (encode_tokens us) \<le> ip st + run_start st div 32 + (if lit st = 0 then 0 else 1)"
proof -
  let ?E = "length (encode_tokens ts)" and ?run = "take (lit st) (drop (run_start st) xs)"
  have inv: "length (out st) = cap" "ip st \<le> length xs" "lit st \<le> ip st" "lit st < 32"
    "op_pos st = ?E + 1 + lit st" "op_pos st \<le> cap + (if lit st = 0 then 1 else 0)"
    "take ?E (out st) = encode_tokens ts" "take (lit st) (drop (?E + 1) (out st)) = ?run"
    "expand ts [] = Some (take (run_start st) xs)" "?E \<le> run_start st + run_start st div 32"
    using assms(1) by (simp_all add: compress_inv_def)
  let ?b = "of_int (int (lit st) - 1) :: u8"
  let ?st' = "st\<lparr>out := (out st)[?E := ?b]\<rparr>"
  have stop: "stop_run st = Inr ?st'"
    using inv(1,5) assms(2) by (simp add: stop_run_def put_def)
  have prefix: "take ?E (out ?st') = encode_tokens ts"
    using inv(7) by (simp add: take_update_prefix)
  show thesis
  proof (cases "lit st = 0")
    case True
    show ?thesis
      by (rule that [OF stop, of ts])
        (use True inv prefix assms(2) in \<open>simp_all add: finished_def run_start_def\<close>)
  next
    case False
    let ?us = "ts @ [Lits ?run]"
    have len: "length ?run = lit st"
      using inv(2,3) by (simp add: run_start_def)
    then have ne: "?run \<noteq> []" using False by auto
    have whole: "take (run_start st) xs @ ?run = take (ip st) xs"
      using inv(3) by (simp add: run_start_def flip: take_add)
    have ok: "token_ok (take (run_start st) xs) (Lits ?run)"
      using len False inv(4) by simp
    have enc: "encode_tokens ?us = encode_tokens ts @ ?b # ?run"
      using len False by (simp add: of_nat_diff)
    have elen: "length (encode_tokens ?us) = op_pos st"
      using inv(5) len enc by simp
    have "take (?E + 1 + lit st) (out ?st') = take ?E (out ?st') @ [?b] @ ?run"
    proof -
      have "take (?E + 1 + lit st) (out ?st') = take ?E (out ?st') @ take (1 + lit st) (drop ?E (out ?st'))"
        by (simp only: add.assoc take_add)
      moreover have "drop ?E (out ?st') = ?b # drop (?E + 1) (out st)"
        using assms(2) inv(1) by (simp add: drop_update_swap Cons_nth_drop_Suc [symmetric])
      ultimately show ?thesis
        using inv(8) by simp
    qed
    then have "take (length (encode_tokens ?us)) (out ?st') = encode_tokens ?us"
      using prefix enc elen inv(5) by simp
    moreover have "expand ?us [] = Some (take (ip st) xs)"
      using inv(9) ok whole by (simp add: expand_append)
    ultimately show ?thesis
      using elen inv False
      by (intro that [OF stop, of ?us]) (simp_all add: finished_def run_start_def)
  qed
qed

lemma copy_literal_inv:
  assumes "compress_inv xs cap st ts" "ip st < length xs" "op_pos st < cap"
  obtains st' us where "copy_literal xs st = Inr st'" "compress_inv xs cap st' us" "ip st' = ip st + 1"
    "op_pos st' = op_pos st + 1 \<or> lit st = 31 \<and> lit st' = 0 \<and> op_pos st' = op_pos st + 2"
proof -
  let ?E = "length (encode_tokens ts)"
  have inv: "length (out st) = cap" "ip st \<le> length xs" "lit st \<le> ip st" "lit st < 32"
    "op_pos st = ?E + 1 + lit st"
    "take ?E (out st) = encode_tokens ts"
    "take (lit st) (drop (?E + 1) (out st)) = take (lit st) (drop (run_start st) xs)"
    "expand ts [] = Some (take (run_start st) xs)" "?E \<le> run_start st + run_start st div 32"
    using assms(1) by (simp_all add: compress_inv_def)
  let ?st2 = "st\<lparr>out := (out st)[op_pos st := xs ! ip st], lit := lit st + 1, op_pos := op_pos st + 1, ip := ip st + 1\<rparr>"
  have start: "run_start ?st2 = run_start st" "run_start st + lit st = ip st"
    using inv(3) by (simp_all add: run_start_def)
  have run: "take (lit st + 1) (drop (?E + 1) (out ?st2)) = take (lit st + 1) (drop (run_start st) xs)"
  proof -
    have "take (lit st + 1) (drop (?E + 1) (out ?st2)) =
        take (lit st) (drop (?E + 1) (out st)) @ [xs ! ip st]"
      using inv(1,5) assms(3)
      by (simp add: drop_update_swap take_Suc_conv_app_nth take_update_prefix)
    also have "\<dots> = take (lit st + 1) (drop (run_start st) xs)"
      using inv(7) start(2) assms(2) by (simp add: take_Suc_conv_app_nth)
    finally show ?thesis .
  qed
  have byte: "byte_at xs (ip st) = Inr (xs ! ip st)"
    using assms(2) by (simp add: byte_at_def)
  have wr: "put (op_pos st) (xs ! ip st) st = Inr (st\<lparr>out := (out st)[op_pos st := xs ! ip st]\<rparr>)"
    using assms(3) inv(1) by (simp add: put_def)
  have pre: "take ?E (out ?st2) = encode_tokens ts"
    using inv(5,6) by (simp add: take_update_prefix)
  show thesis
  proof (cases "lit st + 1 = 32")
    case False
    have "compress_inv xs cap ?st2 ts"
      using inv assms(2,3) run pre start False by (simp add: compress_inv_def)
    moreover have "copy_literal xs st = Inr ?st2"
      using byte wr False by (simp add: copy_literal_def max_lit_def)
    ultimately show ?thesis
      by (intro that [of ?st2 ts]) simp_all
  next
    case True
    let ?run = "take 32 (drop (run_start st) xs)"
    let ?us = "ts @ [Lits ?run]"
    let ?st3 = "?st2\<lparr>out := (out ?st2)[?E := 31]\<rparr>"
    let ?st4 = "?st3\<lparr>lit := 0, op_pos := op_pos st + 2\<rparr>"
    have stop: "stop_run ?st2 = Inr ?st3"
      using True inv(1,5) assms(3) by (simp add: stop_run_def put_def)
    have len: "length ?run = 32"
      using assms(2) True start(2) by simp
    have enc: "encode_tokens ?us = encode_tokens ts @ 31 # ?run"
      using len by simp
    have "take (?E + 1 + 32) (out ?st3) = take ?E (out ?st3) @ [31] @ ?run"
    proof -
      have "take (?E + 1 + 32) (out ?st3) = take ?E (out ?st3) @ take (1 + 32) (drop ?E (out ?st3))"
        by (simp only: add.assoc take_add)
      moreover have "drop ?E (out ?st3) = 31 # drop (?E + 1) (out ?st2)"
        using assms(3) inv(1,5) by (simp add: drop_update_swap Cons_nth_drop_Suc [symmetric])
      ultimately show ?thesis
        using run True by simp
    qed
    moreover have "take ?E (out ?st3) = encode_tokens ts"
      using pre by (simp add: take_update_prefix)
    ultimately have front: "take (length (encode_tokens ?us)) (out ?st4) = encode_tokens ?us"
      using enc len by (simp add: add.commute)
    have next_ip: "ip st + 1 = run_start st + 32"
      using start(2) True by simp
    have whole: "take (run_start st) xs @ ?run = take (ip st + 1) xs"
      unfolding next_ip by (rule take_add [symmetric])
    have "expand ?us [] = Some (take (run_start ?st4) xs)"
      using inv(8) len whole by (simp add: expand_append run_start_def)
    moreover have "length (encode_tokens ?us) \<le> run_start ?st4 + run_start ?st4 div 32"
      using inv(9) enc len start(2) True by (simp add: run_start_def)
    ultimately have "compress_inv xs cap ?st4 ?us"
      using front enc len inv(1,2,5) assms(2,3) True by (simp add: compress_inv_def add.commute)
    moreover have "copy_literal xs st = Inr ?st4"
      using byte wr True stop by (simp add: copy_literal_def max_lit_def)
    ultimately show ?thesis
      using True by (intro that [of ?st4 ?us]) simp_all
  qed
qed

lemma copy_literal_ex:
  assumes "compress_inv xs cap st ts" "ip st < length xs" "op_pos st < cap"
  shows "\<exists>st' us. copy_literal xs st = Inr st' \<and> compress_inv xs cap st' us \<and> ip st' = ip st + 1 \<and>
    (op_pos st' = op_pos st + 1 \<or> lit st = 31 \<and> lit st' = 0 \<and> op_pos st' = op_pos st + 2)"
  by (rule copy_literal_inv [OF assms]) blast

subsection \<open>Back references\<close>

lemma write_ref_token:
  assumes "length (out st) = cap" "take (op_pos st) (out st) = encode_tokens us"
    and "op_pos st + 3 \<le> cap" "3 \<le> m"
  obtains st' where "write_ref off (m - 2) st = Inr st'" "ip st' = ip st" "length (out st') = cap"
    "op_pos st' = op_pos st + length (encode_token (Back off m))"
    "take (op_pos st') (out st') = encode_tokens (us @ [Back off m])"
proof -
  note f = assms(1,2)
  let ?o = "op_pos st"
  show thesis
  proof (cases "m - 2 < 7")
    case True
    let ?b0 = "of_nat (off div 256 + (m - 2) * 32) :: u8"
    let ?st' = "st\<lparr>out := (out st)[?o := ?b0, ?o + 1 := of_nat off], op_pos := ?o + 2\<rparr>"
    have "write_ref off (m - 2) st = Inr ?st'"
      using True assms(3) f(1) by (simp add: write_ref_def put_def del: of_nat_add of_nat_mult of_nat_diff)
    moreover have "take (?o + 2) (out ?st') = take ?o (out st) @ [?b0, of_nat off]"
      using assms(3) f(1)
      by (simp add: take_Suc_conv_app_nth take_update_prefix numeral_2_eq_2 del: of_nat_add of_nat_mult of_nat_diff)
    ultimately show ?thesis
      using True f by (intro that [of ?st']) (simp_all del: of_nat_add of_nat_mult of_nat_diff)
  next
    case False
    let ?b0 = "of_nat (off div 256 + 7 * 32) :: u8" and ?b1 = "of_nat (m - 2 - 7) :: u8"
    let ?st' = "st\<lparr>out := (out st)[?o := ?b0, ?o + 1 := ?b1, ?o + 2 := of_nat off], op_pos := ?o + 3\<rparr>"
    have "write_ref off (m - 2) st = Inr ?st'"
      using False assms(3) f(1) by (simp add: write_ref_def put_def del: of_nat_add of_nat_mult of_nat_diff)
    moreover have "take (?o + 3) (out ?st') = take ?o (out st) @ [?b0, ?b1, of_nat off]"
      using assms(3) f(1)
      by (simp add: take_Suc_conv_app_nth take_update_prefix numeral_2_eq_2 numeral_3_eq_3
          del: of_nat_add of_nat_mult of_nat_diff)
    ultimately show ?thesis
      using False f by (intro that [of ?st']) (simp_all del: of_nat_add of_nat_mult of_nat_diff)
  qed
qed

text \<open>Ending the run and writing a reference to a match of \<open>m\<close> octets keeps the invariant.\<close>

lemma emit_match:
  assumes "compress_inv xs cap st ts" "op_pos st - (if lit st = 0 then 1 else 0) + 4 < cap"
    and "r < ip st" "ip st - r - 1 < 8192" "3 \<le> m" "m \<le> 264" "ip st + m \<le> length xs" "agree xs r (ip st) m"
  obtains st1 st3 us where "stop_run st = Inr st1" "ip st1 = ip st"
    "write_ref (ip st - r - 1) (m - 2) (st1\<lparr>op_pos := op_pos st - (if lit st = 0 then 1 else 0), ip := ip st + 1\<rparr>) = Inr st3"
    "ip st3 = ip st + 1" "compress_inv xs cap (st3\<lparr>lit := 0, op_pos := op_pos st3 + 1, ip := ip st + m\<rparr>) us"
proof -
  let ?E = "length (encode_tokens ts)" and ?unlit = "if lit st = 0 then 1 else (0 :: nat)" and ?off = "ip st - r - 1"
  note room = assms(2)
  have inv: "length (out st) = cap" "lit st \<le> ip st" "op_pos st = ?E + 1 + lit st" "ip st \<le> length xs"
    using assms(1) by (simp_all add: compress_inv_def)
  then have "?E < cap" using room by (auto split: if_splits)
  then obtain st1 us where st1: "stop_run st = Inr st1" "ip st1 = ip st" "op_pos st1 = op_pos st" "lit st1 = lit st"
    "finished xs cap st1 us" "length (encode_tokens us) = op_pos st - ?unlit"
    "length (encode_tokens us) \<le> ip st + run_start st div 32 + (if lit st = 0 then 0 else 1)"
    using stop_run_finishes [OF assms(1)] by blast
  let ?st2 = "st1\<lparr>op_pos := op_pos st - ?unlit, ip := ip st + 1\<rparr>"
  have st2: "length (out ?st2) = cap" "take (op_pos ?st2) (out ?st2) = encode_tokens us"
    "op_pos ?st2 + 3 \<le> cap" "expand us [] = Some (take (ip st) xs)"
    using st1(2,5,6) room by (simp_all add: finished_def)
  obtain st3 where st3: "write_ref ?off (m - 2) ?st2 = Inr st3" "ip st3 = ip st + 1" "length (out st3) = cap"
    "op_pos st3 = op_pos ?st2 + length (encode_token (Back ?off m))"
    "take (op_pos st3) (out st3) = encode_tokens (us @ [Back ?off m])"
    using write_ref_token [OF st2(1-3) assms(5), of ?off] by auto
  let ?us = "us @ [Back ?off m]"
  have elen: "length (encode_tokens ?us) = op_pos st3"
    using st1(6) st3(4) by simp
  have len_back: "length (encode_token (Back ?off m)) \<le> 3" "length (encode_token (Back ?off m)) + 1 \<le> m"
    using assms(5) by auto
  have whole: "expand ?us [] = Some (take (ip st + m) xs)"
  proof -
    have "length (take (ip st) xs) - ?off - 1 = r"
      using assms(3) inv(4) by simp
    then have "apply_token (Back ?off m) (take (ip st) xs) = take (ip st + m) xs"
      using copy_match [OF assms(3,7,8)] by simp
    moreover have "token_ok (take (ip st) xs) (Back ?off m)"
      using assms(3-6) inv(4) by simp
    ultimately show ?thesis
      using st2(4) by (simp add: expand_append)
  qed
  have "run_start st div 32 \<le> (ip st + m) div 32"
    by (rule div_le_mono) (simp add: run_start_def)
  then have bound: "length (encode_tokens ?us) \<le> (ip st + m) + (ip st + m) div 32"
    using st1(7) len_back(2) by (simp split: if_splits)
  have "compress_inv xs cap (st3\<lparr>lit := 0, op_pos := op_pos st3 + 1, ip := ip st + m\<rparr>) ?us"
    using st3(3,5) elen whole bound assms(7) room st3(4) len_back(1)
    by (simp add: compress_inv_def run_start_def)
  with st1(1,2) st3(1,2) show thesis by (rule that)
qed

text \<open>The hash table and the hash value are no part of the invariant.\<close>

lemma compress_inv_hash:
  "compress_inv xs cap (st\<lparr>hval := h, htab := t\<rparr>) ts = compress_inv xs cap st ts"
  by (simp add: compress_inv_def run_start_def)

lemma enter_hash_value:
  "ip st + 2 < length xs \<Longrightarrow>
   \<exists>h t. enter_hash xs st = Inr (st\<lparr>hval := h, htab := t, ip := ip st + 1\<rparr>)"
  by (auto simp: enter_hash_def byte_at_def Let_def)

lemma rehash_cases:
  assumes "2 \<le> ip st" "ip st \<le> length xs"
  shows "length xs \<le> ip st + 2 \<and> rehash xs st = Inr (Broken st) \<or>
    ip st + 2 < length xs \<and> (\<exists>h t. rehash xs st = Inr (Again (st\<lparr>hval := h, htab := t\<rparr>)))"
proof (cases "length xs \<le> ip st + 2")
  case True
  then show ?thesis by (simp add: rehash_def)
next
  case False
  let ?st0 = "st\<lparr>ip := ip st - 2, hval := FRST (xs ! (ip st - 2)) (xs ! (ip st - 2 + 1))\<rparr>"
  have in0: "ip ?st0 + 2 < length xs" using False assms(1) by simp
  obtain h1 t1 where 1: "enter_hash xs ?st0 = Inr (?st0\<lparr>hval := h1, htab := t1, ip := ip st - 2 + 1\<rparr>)"
    using enter_hash_value [OF in0] by auto
  let ?st1 = "?st0\<lparr>hval := h1, htab := t1, ip := ip st - 2 + 1\<rparr>"
  have in1: "ip ?st1 + 2 < length xs" using False assms(1) by simp
  obtain h2 t2 where 2: "enter_hash xs ?st1 = Inr (?st1\<lparr>hval := h2, htab := t2, ip := ip st - 2 + 1 + 1\<rparr>)"
    using enter_hash_value [OF in1] by auto
  have "ip st - 2 + 1 + 1 = ip st" using assms(1) by simp
  with 1 2 False assms show ?thesis
    by (auto simp: rehash_def byte_at_def intro!: exI [of _ h2] exI [of _ t2])
qed

lemma match_step_inv:
  assumes "compress_inv xs cap st ts" "ip st + 2 < length xs"
    and "r < ip st" "ip st - r - 1 < 8192" "agree xs r (ip st) 3"
  shows "match_step xs r st = Inr (Returned_0 st) \<and> cap \<le> op_pos st + 4 \<or>
    (\<exists>st' us. (match_step xs r st = Inr (Again st') \<or> match_step xs r st = Inr (Broken st') \<and> length xs \<le> ip st' + 2) \<and>
      compress_inv xs cap st' us)"
proof -
  let ?unlit = "if lit st = 0 then 1 else (0 :: nat)" and ?off = "ip st - r - 1"
  have inv: "length (out st) = cap"
    using assms(1) by (simp add: compress_inv_def)
  show ?thesis
  proof (cases "cap \<le> op_pos st + 3 + 1 \<and> cap \<le> op_pos st - ?unlit + 3 + 1")
    case True
    then show ?thesis using inv by (simp add: match_step_def Let_def)
  next
    case False
    then have room: "op_pos st - ?unlit + 4 < cap" by auto
    obtain m where m: "match_length xs r (ip st) = Inr m" "3 \<le> m" "m \<le> 264" "ip st + m \<le> length xs"
      "agree xs r (ip st) m"
      using match_length_agrees [OF assms(5,3,2)] by blast
    obtain st1 st3 us where st1: "stop_run st = Inr st1" "ip st1 = ip st"
      and st3: "write_ref ?off (m - 2) (st1\<lparr>op_pos := op_pos st - ?unlit, ip := ip st + 1\<rparr>) = Inr st3" "ip st3 = ip st + 1"
      and inv_m: "compress_inv xs cap (st3\<lparr>lit := 0, op_pos := op_pos st3 + 1, ip := ip st + m\<rparr>) us"
      using emit_match [OF assms(1) room assms(3,4) m(2-5)] by blast
    let ?st4 = "st3\<lparr>lit := 0, op_pos := op_pos st3 + 1, ip := ip st3 + (m - 2 + 1)\<rparr>"
    have ip4: "ip ?st4 = ip st + m"
      using st3(2) m(2) by simp
    then have inv4: "compress_inv xs cap ?st4 us" using inv_m by simp
    have step: "match_step xs r st = rehash xs ?st4"
      using False inv st1(1) m(1) st3(1) by (auto simp: match_step_def Let_def)
    have "2 \<le> ip ?st4" "ip ?st4 \<le> length xs"
      using ip4 m by simp_all
    from rehash_cases [OF this] show ?thesis
    proof (elim disjE conjE exE)
      assume "length xs \<le> ip ?st4 + 2" "rehash xs ?st4 = Inr (Broken ?st4)"
      then show ?thesis using step inv4 by metis
    next
      fix h t
      assume "rehash xs ?st4 = Inr (Again (?st4\<lparr>hval := h, htab := t\<rparr>))"
      then show ?thesis using step inv4 compress_inv_hash [where st = ?st4 and h = h and t = t] by metis
    qed
  qed
qed

section \<open>The loops\<close>

lemma compress_step_inv:
  assumes "compress_inv xs cap st ts" "ip st + 2 < length xs"
  shows "(\<exists>st' us. compress_step xs st = Again st' \<and> compress_inv xs cap st' us) \<or>
    (\<exists>st' us. compress_step xs st = Broken st' \<and> compress_inv xs cap st' us \<and> length xs \<le> ip st' + 2) \<or>
    (\<exists>st'. compress_step xs st = Returned_0 st' \<and> length (out st') = cap \<and> cap \<le> op_pos st + 4)"
proof -
  define h where "h = NEXT (hval st) (xs ! (ip st + 2))"
  define r where "r = unat (htab st (IDX h))"
  let ?st1 = "st\<lparr>hval := h, htab := (htab st)(IDX h := of_nat (ip st))\<rparr>"
  have inv1: "compress_inv xs cap ?st1 ts"
    using assms(1) by (simp add: compress_inv_hash)
  have len: "length (out ?st1) = cap"
    using assms(1) by (simp add: compress_inv_def)
  define found where "found \<longleftrightarrow> r < ip st \<and> ip st - r - 1 < 8192 \<and> 0 < r \<and> agree xs r (ip st) 3"
  have step: "compress_step xs st = step_of (if found then match_step xs r ?st1
      else if length (out ?st1) \<le> op_pos ?st1 then Inr (Returned_0 ?st1)
      else bindR (copy_literal xs ?st1) (\<lambda>st2. Inr (Again st2)))"
    using assms(2) is_match_value [OF assms(2), of r]
    by (simp add: compress_step_def byte_at_def Let_def h_def r_def found_def)
  show ?thesis
  proof (cases found)
    case True
    then have m: "r < ip ?st1" "ip ?st1 - r - 1 < 8192" "agree xs r (ip ?st1) 3"
      by (simp_all add: found_def)
    have "ip ?st1 + 2 < length xs" using assms(2) by simp
    from match_step_inv [OF inv1 this m] show ?thesis
      using True step len by auto
  next
    case False
    show ?thesis
    proof (cases "cap \<le> op_pos st")
      case True
      with False step len show ?thesis by simp
    next
      case room: False
      have "ip ?st1 < length xs" "op_pos ?st1 < cap"
        using assms(2) room by simp_all
      then obtain st' us where "copy_literal xs ?st1 = Inr st'" "compress_inv xs cap st' us"
        using copy_literal_ex [OF inv1] by blast
      with False room step len show ?thesis by auto
    qed
  qed
qed

lemma compress_inv_bound:
  "compress_inv xs cap st ts \<Longrightarrow> op_pos st \<le> ip st + ip st div 32 + 1"
proof -
  assume inv: "compress_inv xs cap st ts"
  have "run_start st div 32 \<le> ip st div 32"
    by (rule div_le_mono) (simp add: run_start_def)
  then show ?thesis
    using inv by (auto simp: compress_inv_def run_start_def)
qed

lemma compress_loop_inv:
  assumes "compress_inv xs cap st ts"
  shows "(\<exists>st' us. compress_loop xs st = Broken st' \<and> compress_inv xs cap st' us \<and> length xs \<le> ip st' + 2) \<or>
    (\<exists>st' i. compress_loop xs st = Returned_0 st' \<and> length (out st') = cap \<and>
      i + 2 < length xs \<and> cap \<le> i + i div 32 + 5)"
  using assms
proof (induction xs st arbitrary: ts rule: compress_loop.induct)
  case (1 xs st)
  note unfold = compress_loop.simps [of xs st]
  show ?case
  proof (cases "ip st + 2 < length xs")
    case True
    from compress_step_inv [OF 1(2) True] show ?thesis
    proof (elim disjE exE conjE)
      fix st' us
      assume "compress_step xs st = Again st'" "compress_inv xs cap st' us"
      with 1(1) [OF True, of st' us] True show ?thesis
        unfolding unfold by simp
    next
      fix st'
      assume "compress_step xs st = Returned_0 st'" "length (out st') = cap" "cap \<le> op_pos st + 4"
      moreover have "op_pos st \<le> ip st + ip st div 32 + 1"
        using 1(2) by (rule compress_inv_bound)
      ultimately show ?thesis
        using True unfolding unfold by (intro disjI2 exI [of _ st'] exI [of _ "ip st"]) simp
    qed (use True in \<open>unfold unfold, auto\<close>)
  next
    case False
    with 1(2) show ?thesis
      unfolding unfold by auto
  qed
qed

lemma tail_loop_inv:
  assumes "compress_inv xs cap st ts" "n = length xs - ip st" "n \<le> 2" "op_pos st + 3 \<le> cap"
  obtains st' us where "tail_loop xs n st = Inr st'" "compress_inv xs cap st' us" "ip st' = length xs"
    "op_pos st' \<le> op_pos st + 3"
proof -
  have le: "ip st \<le> length xs"
    using assms(1) by (simp add: compress_inv_def)
  consider "n = 0" | "n = 1" | "n = 2"
    using assms(3) by linarith
  then show thesis
  proof cases
    case 1
    with assms le show ?thesis by (intro that [of st ts]) auto
  next
    case 2
    have "ip st < length xs" "op_pos st < cap"
      using 2 assms(2,4) by auto
    then obtain st1 us where "copy_literal xs st = Inr st1" "compress_inv xs cap st1 us" "ip st1 = ip st + 1"
      "op_pos st1 = op_pos st + 1 \<or> lit st = 31 \<and> lit st1 = 0 \<and> op_pos st1 = op_pos st + 2"
      using copy_literal_ex [OF assms(1)] by blast
    with 2 assms(2) le show ?thesis by (intro that [of st1 us]) auto
  next
    case 3
    have "ip st < length xs" "op_pos st < cap"
      using 3 assms(2,4) by auto
    then obtain st1 us1 where st1: "copy_literal xs st = Inr st1" "compress_inv xs cap st1 us1" "ip st1 = ip st + 1"
      "op_pos st1 = op_pos st + 1 \<or> lit st = 31 \<and> lit st1 = 0 \<and> op_pos st1 = op_pos st + 2"
      using copy_literal_ex [OF assms(1)] by blast
    have "ip st1 < length xs" "op_pos st1 < cap"
      using 3 assms(2,4) st1(3,4) by auto
    then obtain st2 us2 where st2: "copy_literal xs st1 = Inr st2" "compress_inv xs cap st2 us2"
      "ip st2 = ip st1 + 1"
      "op_pos st2 = op_pos st1 + 1 \<or> lit st1 = 31 \<and> lit st2 = 0 \<and> op_pos st2 = op_pos st1 + 2"
      using copy_literal_ex [OF st1(2)] by blast
    have "tail_loop xs n st = Inr st2"
      using 3 st1(1) st2(1) by (simp add: numeral_2_eq_2)
    moreover have "ip st2 = length xs" "op_pos st2 \<le> op_pos st + 3"
      using 3 assms(2) st1(3,4) st2(3,4) by auto
    ultimately show ?thesis
      using st2(2) by (intro that)
  qed
qed

lemma finish_compress_cases:
  assumes "compress_inv xs cap st ts" "length xs \<le> ip st + 2"
  shows "cap < op_pos st + 3 \<and> finish_compress xs st = Inr (0, out st) \<or>
    (\<exists>us ys. finish_compress xs st = Inr (length (encode_tokens us), ys) \<and> length ys = cap \<and>
      take (length (encode_tokens us)) ys = encode_tokens us \<and> expand us [] = Some xs \<and>
      length (encode_tokens us) \<le> cap \<and>
      length (encode_tokens us) \<le> length xs + length xs div 32 + 1)"
proof (cases "cap < op_pos st + 3")
  case True
  with assms(1) show ?thesis
    by (simp add: finish_compress_def compress_inv_def)
next
  case False
  have "length xs - ip st \<le> 2" "op_pos st + 3 \<le> cap"
    using assms(2) False by simp_all
  then obtain st1 us1 where st1: "tail_loop xs (length xs - ip st) st = Inr st1" "compress_inv xs cap st1 us1"
    "ip st1 = length xs" "op_pos st1 \<le> op_pos st + 3"
    using tail_loop_inv [OF assms(1) refl] by metis
  have "length (encode_tokens us1) < cap"
    using st1(2,4) False by (simp add: compress_inv_def)
  then obtain st2 us where st2: "stop_run st1 = Inr st2" "ip st2 = ip st1" "op_pos st2 = op_pos st1" "lit st2 = lit st1"
    "finished xs cap st2 us" "length (encode_tokens us) = op_pos st1 - (if lit st1 = 0 then 1 else 0)"
    "length (encode_tokens us) \<le> ip st1 + run_start st1 div 32 + (if lit st1 = 0 then 0 else 1)"
    using stop_run_finishes [OF st1(2)] by metis
  have "run_start st1 div 32 \<le> length xs div 32"
    using st1(3) by (intro div_le_mono) (simp add: run_start_def)
  then have "length (encode_tokens us) \<le> length xs + length xs div 32 + 1"
    using st2(7) st1(3) by (simp split: if_splits)
  moreover have "finish_compress xs st = Inr (length (encode_tokens us), out st2)"
    using False st1(1) st2(1,3,4,6) assms(1) by (simp add: finish_compress_def compress_inv_def)
  ultimately show ?thesis
    using st2(2,5) st1(3) by (auto simp: finished_def)
qed

lemma compress_inv_start:
  "compress_inv xs (length buffer) \<lparr>ip = 0, op_pos = 1, lit = 0, out = buffer, hval = h, htab = t\<rparr> []"
  by (simp add: compress_inv_def run_start_def)

text \<open>What a call returns: zero, when the tokens might not fit, or a whole encoding of the input.\<close>

lemma lzf_compress_cases:
  assumes "2 \<le> length xs" "buffer \<noteq> []"
  shows "(\<exists>ys i. lzf_compress xs buffer = Inr (0, ys) \<and> length ys = length buffer \<and>
      (i + 2 < length xs \<and> length buffer \<le> i + i div 32 + 5 \<or>
       i \<le> length xs \<and> length buffer < i + i div 32 + 4)) \<or>
    (\<exists>us ys. lzf_compress xs buffer = Inr (length (encode_tokens us), ys) \<and> length ys = length buffer \<and>
      take (length (encode_tokens us)) ys = encode_tokens us \<and> expand us [] = Some xs \<and>
      length (encode_tokens us) \<le> length buffer \<and>
      length (encode_tokens us) \<le> length xs + length xs div 32 + 1)"
proof -
  let ?st = "\<lparr>ip = 0, op_pos = 1, lit = 0, out = buffer, hval = FRST (xs ! 0) (xs ! 1), htab = \<lambda>_. 0\<rparr>"
  have "byte_at xs 0 = Inr (xs ! 0)" "byte_at xs 1 = Inr (xs ! 1)" "xs \<noteq> []"
    using assms(1) by (auto simp: byte_at_def)
  then have call: "lzf_compress xs buffer =
      (case compress_loop xs ?st of
          Again st \<Rightarrow> finish_compress xs st
        | Broken st \<Rightarrow> finish_compress xs st
        | Returned_0 st \<Rightarrow> Inr (0, out st)
        | Fault e \<Rightarrow> Inl e)"
    using assms(2) by (simp add: lzf_compress_def)
  from compress_loop_inv [OF compress_inv_start [of xs buffer "FRST (xs ! 0) (xs ! 1)" "\<lambda>_. 0"]]
  show ?thesis
  proof (elim disjE exE conjE)
    fix st us
    assume loop: "compress_loop xs ?st = Broken st" "compress_inv xs (length buffer) st us" "length xs \<le> ip st + 2"
    have "op_pos st \<le> ip st + ip st div 32 + 1"
      using loop(2) by (rule compress_inv_bound)
    with finish_compress_cases [OF loop(2,3)] loop call show ?thesis
      by (force simp: compress_inv_def)
  next
    fix st i
    assume "compress_loop xs ?st = Returned_0 st" "length (out st) = length buffer" "i + 2 < length xs"
      "length buffer \<le> i + i div 32 + 5"
    with call show ?thesis by auto
  qed
qed

lemma lzf_compress_length:
  assumes "2 \<le> length xs" "lzf_compress xs buffer = Inr (n, ys)"
  shows "length ys = length buffer"
proof (cases "buffer = []")
  case True
  with assms show ?thesis by (auto simp: lzf_compress_def)
next
  case False
  from lzf_compress_cases [OF assms(1) this] assms(2) show ?thesis by auto
qed

section \<open>Properties\<close>

text \<open>C6: what the compressor returns, the decompressor turns back: when \<open>lzf_compress\<close>
  returns a length, the octets it wrote decompress to its input, whatever the buffer held before.\<close>

theorem lzf_roundtrip:
  assumes "2 \<le> length xs" "lzf_compress xs buffer = Inr (n, ys)" "0 < n" "length xs \<le> limit"
  shows "lzf_decompress (take n ys) limit = Decoded xs"
proof -
  have "buffer \<noteq> []"
    using assms(2,3) by (auto simp: lzf_compress_def)
  from lzf_compress_cases [OF assms(1) this] assms(2,3) obtain us where
    us: "take n ys = encode_tokens us" "expand us [] = Some xs" "n = length (encode_tokens us)"
    by auto
  have "us \<noteq> []" using us(3) assms(3) by auto
  with decode_loop_tokens [OF us(2) _ assms(4), of "[]"] us(1) show ?thesis
    by (simp add: lzf_decompress_def)
qed

definition small_input :: "u8 list" where
  "small_input = [1, 2, 3, 1, 2, 3, 1, 2, 3, 9]"

theorem lzf_roundtrip_witness:
  "lzf_decompress (take 10 ([3, 1, 2, 3, 1, 64, 2, 1, 3, 9] @ replicate 10 0)) 10 =
     Decoded small_input"
proof -
  have c: "lzf_compress small_input (replicate 20 0) =
      Inr (10, [3, 1, 2, 3, 1, 64, 2, 1, 3, 9] @ replicate 10 0)"
    by code_simp
  show ?thesis
    by (rule lzf_roundtrip [OF _ c]) (simp_all add: small_input_def)
qed

text \<open>C27: on an input of at least two octets the compressor stays inside its buffers: it reads nothing
  outside the input, writes nothing outside the output buffer, and returns no more than its length.\<close>

theorem lzf_compress_in_bounds:
  assumes "2 \<le> length xs"
  shows "\<exists>n ys. lzf_compress xs buffer = Inr (n, ys) \<and> n \<le> length buffer \<and> length ys = length buffer"
proof (cases "buffer = []")
  case True
  then show ?thesis by (simp add: lzf_compress_def)
next
  case False
  from lzf_compress_cases [OF assms this] show ?thesis by auto
qed

theorem lzf_compress_in_bounds_witness:
  "\<exists>n ys. lzf_compress [5, 5] [0] = Inr (n, ys) \<and> n \<le> 1 \<and> length ys = 1"
  using lzf_compress_in_bounds [of "[5, 5]" "[0]"] by simp

text \<open>A single octet is not covered: the compressor looks at two octets before its first test.\<close>

lemma lzf_compress_single_octet:
  "buffer \<noteq> [] \<Longrightarrow> lzf_compress [b] buffer = Inl (Undefined ''input read'')"
  by (simp add: lzf_compress_def byte_at_def)

text \<open>A buffer of twice the input, as \<open>EncodedResult\<close> allocates it, is always large
  enough from four octets on: the compressor never gives up, and leaves an octet for the terminator
  written behind its result.\<close>

lemma lzf_compress_fits:
  assumes "4 \<le> length xs" "length buffer = 2 * length xs"
  shows "\<exists>n ys. lzf_compress xs buffer = Inr (n, ys) \<and> 0 < n \<and> n < length buffer \<and>
    lzf_decompress (take n ys) (length xs) = Decoded xs"
proof -
  have "buffer \<noteq> []" "2 \<le> length xs" using assms by auto
  from lzf_compress_cases [OF this(2,1)] show ?thesis
  proof (elim disjE exE conjE)
    fix us ys
    assume r: "lzf_compress xs buffer = Inr (length (encode_tokens us), ys)" "expand us [] = Some xs"
      "take (length (encode_tokens us)) ys = encode_tokens us"
      "length (encode_tokens us) \<le> length xs + length xs div 32 + 1"
    have ne: "us \<noteq> []" using r(2) assms(1) by auto
    then have "encode_tokens us \<noteq> []"
      using encode_token_nonempty by (cases us) auto
    moreover have "lzf_decompress (encode_tokens us) (length xs) = Decoded xs"
      using decode_loop_tokens [OF r(2) ne, of "length xs" "[]"] by (simp add: lzf_decompress_def)
    moreover have "length (encode_tokens us) < length buffer"
      using r(4) assms by linarith
    ultimately show ?thesis using r(1,3) by auto
  qed (use assms in linarith)+
qed

end
