(* ===== verification/Compressed_Spectra.thy ===== *)
theory Compressed_Spectra
  imports LZF_Roundtrip Acquired_Data
begin

text \<open>
  \<open>EncodedResult::get_compressed_spectra\<close>: the octets of an encoded spectrum, as they lie
  in memory on a little-endian machine, compressed into a buffer of twice their number and
  terminated.
\<close>

definition word_bytes :: "i32 \<Rightarrow> u8 list" where
  "word_bytes w = [ucast w, ucast (drop_bit 8 w), ucast (drop_bit 16 w), ucast (drop_bit 24 w)]"

definition spectra_bytes :: "i32 list \<Rightarrow> u8 list" where
  "spectra_bytes vs = concat (map word_bytes vs)"

text \<open>What a reader of the \<open>Intensities\<close> column does with the octets.\<close>

definition bytes_word :: "u8 \<Rightarrow> u8 \<Rightarrow> u8 \<Rightarrow> u8 \<Rightarrow> i32" where
  "bytes_word a b c d = ucast a OR push_bit 8 (ucast b) OR push_bit 16 (ucast c) OR push_bit 24 (ucast d)"

fun bytes_spectra :: "u8 list \<Rightarrow> i32 list" where
  "bytes_spectra (a # b # c # d # bs) = bytes_word a b c d # bytes_spectra bs"
| "bytes_spectra _ = []"

record compressed_spectra =
  spectra_data :: "u8 list"
  spectra_size :: u64

text \<open>
  \<open>contents\<close> is what the allocation of a given size holds; an allocation of a negative size
  throws. The terminator is written one past the compressed octets.
\<close>

definition get_compressed_spectra :: "(nat \<Rightarrow> u8 list) \<Rightarrow> encoded_result \<Rightarrow> compressed_spectra result" where
  "get_compressed_spectra contents er =
     (let encoded_size = of_nat (length (encoded_spectra er) * 4) :: i32;
          processing_buffer_size = encoded_size * 2 in
      if processing_buffer_size <s 0 then Inl (Runtime_error ''bad array new length'')
      else
        bindR (lzf_compress (take (unat encoded_size) (spectra_bytes (encoded_spectra er)))
                 (contents (unat processing_buffer_size))) (\<lambda>(bytes, buffer).
        if bytes < length buffer
        then Inr \<lparr>spectra_data = buffer[bytes := 0], spectra_size = of_nat bytes\<rparr>
        else Inl (Undefined ''output write'')))"

lemma bytes_word_bytes [simp]:
  "bytes_word (ucast w) (ucast (drop_bit 8 w)) (ucast (drop_bit 16 w)) (ucast (drop_bit 24 w)) = (w :: i32)"
proof (rule bit_word_eqI)
  fix n
  assume "n < LENGTH(32)"
  then consider "n < 8" | "8 \<le> n" "n < 16" | "16 \<le> n" "n < 24" | "24 \<le> n" "n < 32"
    by force
  then show "bit (bytes_word (ucast w) (ucast (drop_bit 8 w)) (ucast (drop_bit 16 w)) (ucast (drop_bit 24 w))) n = bit w n"
    by cases (auto simp: bytes_word_def bit_simps)
qed

lemma bytes_spectra_inverse [simp]: "bytes_spectra (spectra_bytes vs) = vs"
  by (induction vs) (simp_all add: spectra_bytes_def word_bytes_def)

lemma length_spectra_bytes [simp]: "length (spectra_bytes vs) = 4 * length vs"
  by (induction vs) (simp_all add: spectra_bytes_def word_bytes_def)

lemma sint_of_nat_eq_small: "n < 2147483648 \<Longrightarrow> sint (of_nat n :: i32) = int n"
  using sint32_uint [of "of_nat n"] by (simp add: unsigned_of_nat take_bit_nat_eq_self)

lemma encoded_size:
  assumes "n < 268435456"
  shows "unat (of_nat (n * 4) :: i32) = 4 * n \<and> unat (of_nat (n * 4) * 2 :: i32) = 8 * n \<and>
    \<not> (of_nat (n * 4) * 2 :: i32) <s 0"
proof -
  have d: "(of_nat (n * 4) * 2 :: i32) = of_nat (8 * n)"
    by (simp add: algebra_simps)
  have u: "unat (of_nat (4 * n) :: i32) = 4 * n" "unat (of_nat (8 * n) :: i32) = 8 * n"
    using assms by (simp_all add: unsigned_of_nat take_bit_nat_eq_self del: of_nat_mult)
  have "sint (of_nat (8 * n) :: i32) = int (8 * n)"
    using assms by (simp add: sint_of_nat_eq_small del: of_nat_mult)
  then have "\<not> (of_nat (8 * n) :: i32) <s 0" by (simp add: word_sless_alt del: of_nat_mult)
  with d u show ?thesis by (simp add: mult.commute del: of_nat_mult)
qed

lemma compressed_spectra_sound:
  assumes "\<And>n. length (contents n) = n"
    and "encoded_spectra er \<noteq> []" "length (encoded_spectra er) < 268435456"
  shows "\<exists>cs bytes. get_compressed_spectra contents er = Inr cs \<and> 0 < spectra_size cs \<and>
    lzf_decompress (take (unat (spectra_size cs)) (spectra_data cs)) (4 * length (encoded_spectra er)) = Decoded bytes \<and>
    bytes_spectra bytes = encoded_spectra er"
proof -
  let ?vs = "encoded_spectra er" and ?e = "of_nat (length (encoded_spectra er) * 4) :: i32"
  have len: "0 < length ?vs" "length (spectra_bytes ?vs) = 4 * length ?vs"
    using assms(2) by simp_all
  from encoded_size [OF assms(3)] have
    es: "unat ?e = 4 * length ?vs" "unat (?e * 2) = 8 * length ?vs" "\<not> ?e * 2 <s 0" by blast+
  have "4 \<le> length (spectra_bytes ?vs)" "length (contents (8 * length ?vs)) = 2 * length (spectra_bytes ?vs)"
    using assms(1,2) len by (simp_all add: Suc_leI)
  from lzf_compress_fits [OF this] obtain n ys where
    n: "lzf_compress (spectra_bytes ?vs) (contents (8 * length ?vs)) = Inr (n, ys)" "0 < n"
      "n < length (contents (8 * length ?vs))" "lzf_decompress (take n ys) (length (spectra_bytes ?vs)) = Decoded (spectra_bytes ?vs)"
    by blast
  have ys: "length ys = 8 * length ?vs"
    using lzf_compress_length [OF _ n(1)] len assms(1) by simp
  have "take (unat ?e) (spectra_bytes ?vs) = spectra_bytes ?vs"
    using es(1) len by simp
  with n(1,3) es ys assms(1) have
    cs: "get_compressed_spectra contents er = Inr \<lparr>spectra_data = ys[n := 0], spectra_size = of_nat n\<rparr>"
    by (simp add: get_compressed_spectra_def del: of_nat_mult)
  have small: "n < 2147483648" using n(3) assms(1,3) by simp
  then have "unat (of_nat n :: u64) = n" "(0 :: u64) < of_nat n"
    using n(2) by (simp_all add: unsigned_of_nat take_bit_nat_eq_self word_less_nat_alt)
  with cs n(4) len(2) show ?thesis by simp
qed

text \<open>C18: a spectrum of one to fewer than 2^28 elements is always compressed: the call returns, with at
  least one octet and within its buffer, and a reader that decompresses the octets and reads them as
  32-bit integers gets the encoded spectrum back.\<close>

theorem compressed_spectra_roundtrip:
  assumes "\<And>n. length (contents n) = n"
    and "encoded_spectra er \<noteq> []" "length (encoded_spectra er) < 268435456"
  shows "\<exists>cs bytes. get_compressed_spectra contents er = Inr cs \<and> 0 < spectra_size cs \<and>
    lzf_decompress (take (unat (spectra_size cs)) (spectra_data cs)) (4 * length (encoded_spectra er)) = Decoded bytes \<and>
    bytes_spectra bytes = encoded_spectra er"
  using assms by (rule compressed_spectra_sound)

definition small_spectrum :: encoded_result where
  "small_spectrum = \<lparr>er_timestamp = 0, encoded_spectra = [-3, 5, 5, 5], non_zero_count = 3, er_scan = 0,
     er_tic = 15, er_bpi = 5, index_max_intensity = 3\<rparr>"

theorem compressed_spectra_roundtrip_witness:
  "\<exists>cs bytes. get_compressed_spectra (\<lambda>n. replicate n 7) small_spectrum = Inr cs \<and> 0 < spectra_size cs \<and>
    lzf_decompress (take (unat (spectra_size cs)) (spectra_data cs)) (4 * length (encoded_spectra small_spectrum)) = Decoded bytes \<and>
    bytes_spectra bytes = encoded_spectra small_spectrum"
  by (rule compressed_spectra_roundtrip) (simp_all add: small_spectrum_def)

end
