(* ===== verification/UIMF_Writer.thy ===== *)
theory UIMF_Writer
  imports Complex_Main Compressed_Spectra
begin

text \<open>
  \<open>UimfWriter\<close> and \<open>UimfFrameWriterSubscriber\<close>: the scans of a frame written to
  the \<open>Frame_Scans\<close> table of a UIMF file in one transaction. The database is the statements
  it has executed and a function that says which statement it refuses, given those before; what its
  queries return is an argument. A \<open>double\<close> is the rational number it stands for, its
  operations round with \<open>rnd\<close>, and \<open>lf\<close> is its text under \<open>%lf\<close>; what is
  known of that text is how its length grows with the number, \<open>fixed_text\<close>.
\<close>

section \<open>Calibration\<close>

record uimf_calibration =
  cal_slope :: rat
  cal_intercept :: rat
  cal_bin_width_ns :: rat
  cal_usable :: bool

definition no_calibration :: uimf_calibration where
  "no_calibration = \<lparr>cal_slope = 0, cal_intercept = 0, cal_bin_width_ns = 0, cal_usable = False\<rparr>"

definition mz :: "(rat \<Rightarrow> rat) \<Rightarrow> uimf_calibration \<Rightarrow> i32 \<Rightarrow> rat" where
  "mz rnd c bin =
     (let time_us = rnd (rnd (of_int (sint bin) * cal_bin_width_ns c) / 1000);
          past_origin = rnd (time_us - cal_intercept c) in
      if past_origin \<le> 0 then 0
      else rnd (rnd (cal_slope c * past_origin) * rnd (cal_slope c * past_origin)))"

definition calibration_slope_key :: int where "calibration_slope_key = 12"
definition calibration_intercept_key :: int where "calibration_intercept_key = 13"

record uimf_writer =
  calibration_read :: bool
  calibration :: uimf_calibration

definition new_uimf_writer :: uimf_writer where
  "new_uimf_writer = \<lparr>calibration_read = False, calibration = no_calibration\<rparr>"

text \<open>
  What the two queries give: the rows of the frame's calibration parameters, and the bin width when
  there is one. A query that fails is \<open>None\<close>.
\<close>

record calibration_source =
  frame_params_rows :: "int \<Rightarrow> (int \<times> rat) list option"
  bin_width_row :: "rat option option"

definition take_param :: "int \<times> rat \<Rightarrow> uimf_calibration \<Rightarrow> uimf_calibration" where
  "take_param row c =
     (if fst row = calibration_slope_key then c\<lparr>cal_slope := snd row\<rparr> else c\<lparr>cal_intercept := snd row\<rparr>)"

definition calibration_for :: "calibration_source \<Rightarrow> u32 \<Rightarrow> uimf_writer \<Rightarrow> uimf_writer" where
  "calibration_for src frame w =
     (if calibration_read w then w
      else
        (case frame_params_rows src (sint (ucast frame :: i32)) of
           None \<Rightarrow> w\<lparr>calibration_read := True, calibration := no_calibration\<rparr>
         | Some rows \<Rightarrow>
             (let c = fold take_param rows (calibration w) in
              case bin_width_row src of
                None \<Rightarrow> w\<lparr>calibration_read := True, calibration := no_calibration\<rparr>
              | Some row \<Rightarrow>
                  (let c' = (case row of None \<Rightarrow> c | Some b \<Rightarrow> c\<lparr>cal_bin_width_ns := b\<rparr>) in
                   w\<lparr>calibration_read := True,
                     calibration := c'\<lparr>cal_usable := 0 < cal_slope c' \<and> 0 < cal_bin_width_ns c'\<rparr>\<rparr>))))"

section \<open>Writing scans\<close>

text \<open>A value under \<open>%d\<close> prints its low 32 bits, whatever its type.\<close>

definition printed :: "'a::len word \<Rightarrow> string" where
  "printed v = int_to_string (sint (ucast v :: i32))"

definition insert_text :: "(rat \<Rightarrow> string) \<Rightarrow> uimf_frame_parameters \<Rightarrow> encoded_result \<Rightarrow> rat \<Rightarrow> string" where
  "insert_text lf ps er bpi_mz =
     ''INSERT INTO Frame_Scans (FrameNum, ScanNum, NonZeroCount, BPI, BPI_MZ, TIC, Intensities) VALUES('' @
     printed (frame_number ps) @ '', '' @ printed (scast (er_scan er) - start_trigger ps :: u64) @ '', '' @
     printed (non_zero_count er) @ '', '' @ printed (er_bpi er) @ '', '' @ lf bpi_mz @ '', '' @
     printed (er_tic er) @ '', ?)''"

definition statement_size :: nat where
  "statement_size = 110 + 128"

datatype sql =
    Synchronous_off
  | Begin_transaction
  | Insert_scan string "u8 list"
  | End_transaction
  | Synchronous_on
  | Update_frame_param string string string

type_synonym database = "sql list \<Rightarrow> sql \<Rightarrow> bool"

text \<open>An exception comes with the statements executed before it.\<close>

type_synonym 'a db_result = "(sql list \<times> exn) + 'a"

definition execute :: "database \<Rightarrow> sql \<Rightarrow> sql list \<Rightarrow> sql list db_result" where
  "execute db s executed =
     (if db executed s then Inr (executed @ [s]) else Inl (executed, Runtime_error ''SQLite::Exception''))"

definition is_written :: "uimf_frame_parameters \<Rightarrow> encoded_result \<Rightarrow> bool" where
  "is_written ps er \<longleftrightarrow>
     \<not> (scast (er_scan er) :: u64) < start_trigger ps \<and>
     (1 < length (encoded_spectra er) \<or> er_scan er = 0)"

definition bpi_mz :: "(rat \<Rightarrow> rat) \<Rightarrow> uimf_calibration \<Rightarrow> encoded_result \<Rightarrow> rat" where
  "bpi_mz rnd c er =
     (if cal_usable c then mz rnd c (index_max_intensity er) else of_int (sint (index_max_intensity er)))"

text \<open>
  One row: its text has to fit the buffer it is printed into, its blob is the compressed spectrum.
  \<open>contents\<close> is what a fresh allocation holds.
\<close>

definition write_scan :: "database \<Rightarrow> (nat \<Rightarrow> u8 list) \<Rightarrow> (rat \<Rightarrow> string) \<Rightarrow> (rat \<Rightarrow> rat) \<Rightarrow> uimf_calibration \<Rightarrow>
    uimf_frame_parameters \<Rightarrow> encoded_result \<Rightarrow> i32 \<times> sql list \<Rightarrow> (i32 \<times> sql list) db_result" where
  "write_scan db contents lf rnd c ps er bs =
     (if \<not> is_written ps er then Inr bs
      else
        (let statement = insert_text lf ps er (bpi_mz rnd c er) in
         if statement_size \<le> length statement
         then Inl (snd bs, Undefined ''sprintf past the statement buffer'')
         else
           (case get_compressed_spectra contents er of
              Inl e \<Rightarrow> Inl (snd bs, e)
            | Inr cs \<Rightarrow>
                bindR (execute db (Insert_scan statement (take (unat (spectra_size cs)) (spectra_data cs))) (snd bs))
                  (\<lambda>executed. Inr (fst bs + ucast (spectra_size cs + of_nat (length statement)), executed)))))"

fun write_scans :: "database \<Rightarrow> (nat \<Rightarrow> u8 list) \<Rightarrow> (rat \<Rightarrow> string) \<Rightarrow> (rat \<Rightarrow> rat) \<Rightarrow> uimf_calibration \<Rightarrow>
    uimf_frame_parameters \<Rightarrow> encoded_result list \<Rightarrow> i32 \<times> sql list \<Rightarrow> (i32 \<times> sql list) db_result" where
  "write_scans db contents lf rnd c ps [] bs = Inr bs"
| "write_scans db contents lf rnd c ps (er # ers) bs =
     bindR (write_scan db contents lf rnd c ps er bs) (write_scans db contents lf rnd c ps ers)"

definition write_scan_data :: "database \<Rightarrow> (nat \<Rightarrow> u8 list) \<Rightarrow> (rat \<Rightarrow> string) \<Rightarrow> (rat \<Rightarrow> rat) \<Rightarrow> calibration_source \<Rightarrow>
    uimf_frame \<Rightarrow> uimf_writer \<Rightarrow> sql list \<Rightarrow> (i32 \<times> uimf_writer \<times> sql list) db_result" where
  "write_scan_data db contents lf rnd src frame w executed =
     (let ps = frame_parameters frame; w' = calibration_for src (frame_number ps) w in
      bindR (execute db Synchronous_off executed) (\<lambda>log1.
      bindR (execute db Begin_transaction log1) (\<lambda>log2.
      bindR (write_scans db contents lf rnd (calibration w') ps (encoded_data frame) (0, log2)) (\<lambda>(bytes, log3).
      bindR (execute db End_transaction log3) (\<lambda>log4.
      bindR (execute db Synchronous_on log4) (\<lambda>log5. Inr (bytes, w', log5)))))))"

text \<open>
  The duration of a frame, one parameter of it. The statement is prepared before the handler that drops
  every exception.
\<close>

definition duration_seconds_key :: int where "duration_seconds_key = 2"

definition update_timing_information :: "bool \<Rightarrow> database \<Rightarrow> (rat \<Rightarrow> string) \<Rightarrow> uimf_frame \<Rightarrow> rat \<Rightarrow> sql list \<Rightarrow>
    sql list db_result" where
  "update_timing_information prepares db lf frame ts_sample_period_s executed =
     (if \<not> prepares then Inl (executed, Runtime_error ''SQLite::Exception'')
      else
        (case execute db (Update_frame_param (lf (of_int (get_frame_duration_seconds frame ts_sample_period_s)))
                (nat_to_string (unat (frame_number (frame_parameters frame)))) (int_to_string duration_seconds_key))
              executed of
           Inl _ \<Rightarrow> Inr executed
         | Inr executed' \<Rightarrow> Inr executed'))"

section \<open>The subscriber\<close>

text \<open>
  A frame is written through a writer of its own; opening the file may fail. Every exception is logged and
  dropped, and the rows of a transaction that has not ended are gone when the writer is.
\<close>

definition committed :: "sql list \<Rightarrow> sql list \<Rightarrow> sql list" where
  "committed before after = (if End_transaction \<in> set (drop (length before) after) then after else before)"

definition frame_writer_on_notify :: "(string \<Rightarrow> bool) \<Rightarrow> database \<Rightarrow> (nat \<Rightarrow> u8 list) \<Rightarrow> (rat \<Rightarrow> string) \<Rightarrow>
    (rat \<Rightarrow> rat) \<Rightarrow> calibration_source \<Rightarrow> uimf_frame \<Rightarrow> sql list \<Rightarrow> sql list result" where
  "frame_writer_on_notify opens db contents lf rnd src frame before =
     (if \<not> opens (file_name (frame_parameters frame)) then Inr before
      else
        (case write_scan_data db contents lf rnd src frame new_uimf_writer before of
           Inl (after, Undefined s) \<Rightarrow> Inl (Undefined s)
         | Inl (after, e) \<Rightarrow> Inr (committed before after)
         | Inr (bytes, w, after) \<Rightarrow> Inr (committed before after)))"

section \<open>Text lengths\<close>

lemma nat_to_string_length:
  assumes "n < 10 ^ k" "0 < k"
  shows "length (nat_to_string n) \<le> k"
  using assms
proof (induction k arbitrary: n)
  case (Suc k)
  show ?case
  proof (cases "n < 10")
    case True
    then show ?thesis by (subst nat_to_string.simps) simp
  next
    case False
    then have "0 < k" using Suc.prems(1) by (cases k) auto
    moreover have "n div 10 < 10 ^ k" using Suc.prems(1) by (simp add: less_mult_imp_div_less)
    ultimately have "length (nat_to_string (n div 10)) \<le> k" by (intro Suc.IH)
    with False show ?thesis by (subst nat_to_string.simps) simp
  qed
qed simp

lemma printed_length: "length (printed v) \<le> 11"
proof -
  have r: "nat (- sint (w :: i32)) < 10 ^ 10" "nat (sint w) < 10 ^ 10" for w
    using sint32_range [of w] by simp_all
  show ?thesis
    using nat_to_string_length [OF r(1), of "ucast v"] nat_to_string_length [OF r(2), of "ucast v"]
    by (simp add: printed_def int_to_string_def)
qed

text \<open>
  The text of a number under \<open>%lf\<close>: its sign, its integer part, the point and six digits, rounded;
  so it is as long as the number asks for. \<open>six_decimals\<close> is such a text.
\<close>

definition fixed_text :: "(rat \<Rightarrow> string) \<Rightarrow> bool" where
  "fixed_text lf \<longleftrightarrow>
     (\<forall>q k. (\<bar>q\<bar> < 10 ^ k \<longrightarrow> length (lf q) \<le> k + 9) \<and> (10 ^ k \<le> \<bar>q\<bar> \<longrightarrow> k + 8 \<le> length (lf q)))"

lemma fixed_text_upper: "fixed_text lf \<Longrightarrow> \<bar>q\<bar> < 10 ^ k \<Longrightarrow> length (lf q) \<le> k + 9"
  by (simp add: fixed_text_def)

lemma fixed_text_lower: "fixed_text lf \<Longrightarrow> 10 ^ k \<le> \<bar>q\<bar> \<Longrightarrow> k + 8 \<le> length (lf q)"
  by (simp add: fixed_text_def)

definition six_decimals :: "rat \<Rightarrow> string" where
  "six_decimals q =
     (let m = nat (round (\<bar>q\<bar> * 1000000)) in
      (if q < 0 then ''-'' else []) @ nat_to_string (m div 1000000) @ ''.'' @
      drop 1 (nat_to_string (1000000 + m mod 1000000)))"

lemma nat_to_string_length_least:
  "10 ^ k \<le> n \<Longrightarrow> Suc k \<le> length (nat_to_string n)"
proof (induction k arbitrary: n)
  case 0
  then show ?case by (subst nat_to_string.simps) simp
next
  case (Suc k)
  then have "10 ^ k \<le> n div 10" "\<not> n < 10"
    by (simp_all add: less_eq_div_iff_mult_less_eq mult.commute not_less
        order_trans [OF self_le_power [of 10 "Suc k"]])
  with Suc.IH [of "n div 10"] show ?case by (subst nat_to_string.simps) simp
qed

lemma six_digits: "m < 1000000 \<Longrightarrow> length (drop 1 (nat_to_string (1000000 + m))) = 6"
  using nat_to_string_length [of "1000000 + m" 7] nat_to_string_length_least [of 6 "1000000 + m"] by simp

lemma six_decimals_length:
  assumes "m = nat (round (\<bar>q\<bar> * 1000000))"
  shows "length (six_decimals q) = (if q < 0 then 1 else 0) + length (nat_to_string (m div 1000000)) + 7"
  using six_digits [of "m mod 1000000"] by (simp add: six_decimals_def Let_def flip: assms)

lemma fixed_text_six_decimals: "fixed_text six_decimals"
  unfolding fixed_text_def
proof (intro allI conjI impI)
  fix q :: rat and k :: nat
  let ?r = "round (\<bar>q\<bar> * 1000000)"
  obtain m where m: "m = nat ?r" by blast
  show "length (six_decimals q) \<le> k + 9" if "\<bar>q\<bar> < 10 ^ k"
  proof -
    have "\<bar>q\<bar> * 1000000 \<le> of_int (10 ^ k * 1000000)" using that by simp
    then have "?r \<le> 10 ^ k * 1000000" using round_mono by (metis round_of_int)
    then have "m \<le> 10 ^ k * 1000000" by (simp add: nat_le_iff m)
    then have "m div 1000000 \<le> 10 ^ k * 1000000 div 1000000" by (rule div_le_mono)
    then have "m div 1000000 < 10 ^ Suc k"
      by (simp only: nonzero_mult_div_cancel_right) (auto intro: order_le_less_trans)
    from nat_to_string_length [OF this] show ?thesis by (simp add: six_decimals_length [OF m])
  qed
  show "k + 8 \<le> length (six_decimals q)" if "10 ^ k \<le> \<bar>q\<bar>"
  proof -
    have "of_int (10 ^ k * 1000000) \<le> \<bar>q\<bar> * 1000000" using that by simp
    then have "10 ^ k * 1000000 \<le> ?r" using round_mono by (metis round_of_int)
    then have "int (10 ^ k * 1000000) \<le> int m" by (simp add: m)
    then have "10 ^ k * 1000000 \<le> m" by (simp only: of_nat_le_iff)
    then have "10 ^ k \<le> m div 1000000" by (simp add: less_eq_div_iff_mult_less_eq)
    from nat_to_string_length_least [OF this] show ?thesis by (simp add: six_decimals_length [OF m])
  qed
qed

lemma insert_text_length:
  assumes "length (lf q) \<le> 72"
  shows "length (insert_text lf ps er q) < statement_size"
  using assms printed_length [of "frame_number ps"] printed_length [of "scast (er_scan er) - start_trigger ps :: u64"]
    printed_length [of "non_zero_count er"] printed_length [of "er_bpi er"] printed_length [of "er_tic er"]
  by (simp add: insert_text_def statement_size_def)

section \<open>What is stored\<close>

text \<open>A row stores a scan when its text is the one of the scan and its blob reads back as the spectrum.\<close>

definition stores :: "(rat \<Rightarrow> string) \<Rightarrow> (rat \<Rightarrow> rat) \<Rightarrow> uimf_calibration \<Rightarrow> uimf_frame_parameters \<Rightarrow> encoded_result \<Rightarrow> sql \<Rightarrow> bool" where
  "stores lf rnd c ps er row \<longleftrightarrow>
     (case row of
        Insert_scan statement blob \<Rightarrow>
          statement = insert_text lf ps er (bpi_mz rnd c er) \<and>
          (case lzf_decompress blob (4 * length (encoded_spectra er)) of
             Decoded bytes \<Rightarrow> bytes_spectra bytes = encoded_spectra er
           | _ \<Rightarrow> False)
      | _ \<Rightarrow> False)"

definition storable :: "encoded_result \<Rightarrow> bool" where
  "storable er \<longleftrightarrow> length (encoded_spectra er) < 268435456"

lemma empty_spectrum_undefined:
  "length (contents 0) = 0 \<Longrightarrow> encoded_spectra er = [] \<Longrightarrow>
   get_compressed_spectra contents er = Inl (Undefined ''output write'')"
  by (simp add: get_compressed_spectra_def lzf_compress_def)

lemma write_scan_stores:
  assumes "\<And>n. length (contents n) = n" "storable er"
    and "write_scan db contents lf rnd c ps er (b, log0) = Inr (b', log1)"
  shows "if is_written ps er then \<exists>row. log1 = log0 @ [row] \<and> stores lf rnd c ps er row else log1 = log0"
proof (cases "is_written ps er")
  case True
  then obtain cs where cs: "get_compressed_spectra contents er = Inr cs"
      "log1 = log0 @ [Insert_scan (insert_text lf ps er (bpi_mz rnd c er)) (take (unat (spectra_size cs)) (spectra_data cs))]"
    using assms(3)
    by (auto simp: write_scan_def Let_def execute_def bindR_Inr_iff split: if_splits sum.splits)
  have "encoded_spectra er \<noteq> []"
    using cs(1) empty_spectrum_undefined [of contents er] assms(1) by auto
  from compressed_spectra_sound [OF assms(1) this] assms(2) cs(1) obtain bytes where
    "lzf_decompress (take (unat (spectra_size cs)) (spectra_data cs)) (4 * length (encoded_spectra er)) = Decoded bytes"
    "bytes_spectra bytes = encoded_spectra er"
    by (auto simp: storable_def)
  with True cs(2) show ?thesis by (simp add: stores_def)
qed (use assms(3) in \<open>simp add: write_scan_def\<close>)

lemma write_scans_store:
  assumes "\<And>n. length (contents n) = n"
  shows "list_all storable ers \<Longrightarrow> write_scans db contents lf rnd c ps ers (b, log0) = Inr (b', log1) \<Longrightarrow>
   \<exists>rows. log1 = log0 @ rows \<and> list_all2 (stores lf rnd c ps) (filter (is_written ps) ers) rows"
proof (induction ers arbitrary: b log0)
  case (Cons er ers)
  from Cons.prems(2) obtain b1 log2 where
    w: "write_scan db contents lf rnd c ps er (b, log0) = Inr (b1, log2)"
      "write_scans db contents lf rnd c ps ers (b1, log2) = Inr (b', log1)"
    by (auto simp: bindR_Inr_iff)
  have "storable er" using Cons.prems(1) by simp
  note one = write_scan_stores [OF assms this w(1)]
  from Cons.prems(1) have "list_all storable ers" by simp
  from Cons.IH [OF this w(2)] obtain rows where
    rows: "log1 = log2 @ rows" "list_all2 (stores lf rnd c ps) (filter (is_written ps) ers) rows" by blast
  show ?case
  proof (cases "is_written ps er")
    case True
    with one obtain row where "log2 = log0 @ [row]" "stores lf rnd c ps er row" by auto
    with True rows show ?thesis by (intro exI [of _ "row # rows"]) simp
  next
    case False
    with one rows show ?thesis by auto
  qed
qed simp

text \<open>
  What the writer relies on, of a scan it writes: that its spectrum is not empty, and that the m/z of its
  base peak has at most 63 digits before the point.
\<close>

definition frame_calibration :: "calibration_source \<Rightarrow> uimf_frame_parameters \<Rightarrow> uimf_calibration" where
  "frame_calibration src ps = calibration (calibration_for src (frame_number ps) new_uimf_writer)"

definition printable :: "(rat \<Rightarrow> rat) \<Rightarrow> uimf_calibration \<Rightarrow> encoded_result \<Rightarrow> bool" where
  "printable rnd c er \<longleftrightarrow> \<bar>bpi_mz rnd c er\<bar> < 10 ^ 63"

definition writable :: "(rat \<Rightarrow> rat) \<Rightarrow> uimf_calibration \<Rightarrow> uimf_frame_parameters \<Rightarrow> encoded_result \<Rightarrow> bool" where
  "writable rnd c ps er \<longleftrightarrow>
     storable er \<and> (is_written ps er \<longrightarrow> encoded_spectra er \<noteq> [] \<and> printable rnd c er)"

lemma bin_value_small: "\<bar>of_int (sint (bin :: i32))\<bar> \<le> (10 ^ 10 :: rat)"
proof -
  have "\<bar>sint bin\<bar> \<le> 10 ^ 10" using sint32_range [of bin] by auto
  then show ?thesis by (metis of_int_abs of_int_le_iff of_int_numeral of_int_power)
qed

lemma uncalibrated_printable: "\<not> cal_usable c \<Longrightarrow> printable rnd c er"
  unfolding printable_def bpi_mz_def
  by (simp only: if_False) (rule order_le_less_trans [OF bin_value_small], simp)

text \<open>
  A calibration of any instrument is far inside that bound: a slope up to \<open>10 ^ 15\<close>, bins of up to a
  millisecond and an intercept of up to \<open>10 ^ 9\<close> microseconds will do, whatever a rounding less than
  doubles.
\<close>

definition sane_calibration :: "uimf_calibration \<Rightarrow> bool" where
  "sane_calibration c \<longleftrightarrow>
     \<bar>cal_slope c\<bar> \<le> 10 ^ 15 \<and> \<bar>cal_bin_width_ns c\<bar> \<le> 10 ^ 6 \<and> \<bar>cal_intercept c\<bar> \<le> 10 ^ 9"

lemma sane_calibration_printable:
  assumes "\<And>q. \<bar>rnd q\<bar> \<le> 2 * \<bar>q\<bar>" "sane_calibration c"
  shows "printable rnd c er"
proof (cases "cal_usable c")
  case True
  let ?b = "index_max_intensity er"
  let ?t = "rnd (rnd (of_int (sint ?b) * cal_bin_width_ns c) / 1000)"
  let ?p = "rnd (?t - cal_intercept c)"
  let ?s = "rnd (cal_slope c * ?p)"
  have round_le: "\<bar>rnd q\<bar> \<le> 2 * u" if "\<bar>q\<bar> \<le> u" for q u
    using assms(1) [of q] that by simp
  have c: "\<bar>cal_slope c\<bar> \<le> 10 ^ 15" "\<bar>cal_bin_width_ns c\<bar> \<le> 10 ^ 6" "\<bar>cal_intercept c\<bar> \<le> 10 ^ 9"
    using assms(2) by (simp_all add: sane_calibration_def)
  from mult_mono [OF bin_value_small c(2)] have "\<bar>of_int (sint ?b) * cal_bin_width_ns c\<bar> \<le> 10 ^ 16"
    by (simp add: abs_mult)
  from round_le [OF this] have "\<bar>rnd (of_int (sint ?b) * cal_bin_width_ns c) / 1000\<bar> \<le> 10 ^ 14" by simp
  from round_le [OF this] c(3) have "\<bar>?t - cal_intercept c\<bar> \<le> 10 ^ 15" by simp
  from round_le [OF this] have "\<bar>?p\<bar> \<le> 10 ^ 16" by simp
  from mult_mono [OF c(1) this] have "\<bar>cal_slope c * ?p\<bar> \<le> 10 ^ 31" by (simp add: abs_mult)
  from round_le [OF this] have s: "\<bar>?s\<bar> \<le> 2 * 10 ^ 31" by simp
  from mult_mono [OF s s] have "\<bar>?s * ?s\<bar> \<le> 4 * 10 ^ 62" by (simp add: abs_mult)
  from round_le [OF this] have "\<bar>rnd (?s * ?s)\<bar> < 10 ^ 63" by simp
  with True show ?thesis by (simp add: printable_def bpi_mz_def mz_def Let_def)
qed (rule uncalibrated_printable)

lemma writable_statement_fits:
  assumes "fixed_text lf" "writable rnd c ps er" "is_written ps er"
  shows "length (insert_text lf ps er (bpi_mz rnd c er)) < statement_size"
  using assms fixed_text_upper [of lf "bpi_mz rnd c er" 63]
  by (intro insert_text_length) (simp add: writable_def printable_def)

text \<open>The bound is needed: a base peak of 230 digits prints past the buffer.\<close>

lemma long_base_peak_undefined:
  assumes "fixed_text lf" "is_written ps er" "10 ^ 230 \<le> \<bar>bpi_mz rnd c er\<bar>"
  shows "write_scan db contents lf rnd c ps er bs = Inl (snd bs, Undefined ''sprintf past the statement buffer'')"
proof -
  have "statement_size \<le> length (insert_text lf ps er (bpi_mz rnd c er))"
    using fixed_text_lower [OF assms(1,3)] by (simp add: insert_text_def statement_size_def)
  with assms(2) show ?thesis by (simp add: write_scan_def Let_def)
qed

lemma write_scan_defined:
  assumes "\<And>n. length (contents n) = n" "fixed_text lf" "writable rnd c ps er"
  shows "write_scan db contents lf rnd c ps er bs \<noteq> Inl (log', Undefined s)"
proof (cases "is_written ps er")
  case True
  then have "encoded_spectra er \<noteq> []" "length (encoded_spectra er) < 268435456"
    using assms(3) by (auto simp: writable_def storable_def)
  from compressed_spectra_sound [OF assms(1) this] obtain cs where "get_compressed_spectra contents er = Inr cs"
    by blast
  then show ?thesis
    using True writable_statement_fits [OF assms(2,3) True]
    by (simp add: write_scan_def Let_def execute_def bindR_Inl_iff)
qed (simp add: write_scan_def)

lemma write_scans_defined:
  assumes "\<And>n. length (contents n) = n" "fixed_text lf"
  shows "list_all (writable rnd c ps) ers \<Longrightarrow> write_scans db contents lf rnd c ps ers bs \<noteq> Inl (log', Undefined s)"
  by (induction ers arbitrary: bs) (auto simp: bindR_Inl_iff write_scan_defined [OF assms])

section \<open>Properties\<close>

text \<open>C7: when a frame is written, the transaction holds one row for each scan from the start trigger on
  that has data or is scan 0, in order, each with the text of its scan and a blob that decompresses to its
  spectrum, and nothing else.\<close>

theorem frame_is_stored:
  assumes "\<And>n. length (contents n) = n" "list_all storable (encoded_data frame)"
    and "write_scan_data db contents lf rnd src frame w executed = Inr (bytes, w', executed')"
  shows "\<exists>rows. executed' = executed @ [Synchronous_off, Begin_transaction] @ rows @ [End_transaction, Synchronous_on] \<and>
    list_all2 (stores lf rnd (calibration w') (frame_parameters frame))
      (filter (is_written (frame_parameters frame)) (encoded_data frame)) rows"
proof -
  obtain b log3 where w: "write_scans db contents lf rnd (calibration w') (frame_parameters frame) (encoded_data frame)
      (0, executed @ [Synchronous_off, Begin_transaction]) = Inr (b, log3)"
      "executed' = log3 @ [End_transaction, Synchronous_on]"
    using assms(3)
    by (auto simp: write_scan_data_def Let_def execute_def bindR_Inr_iff split: if_splits)
  from write_scans_store [OF assms(1,2) w(1)] w(2) show ?thesis by auto
qed

text \<open>C28: the writer stays inside its buffers, whatever the database answers and the calibration of the file: it
  neither prints a statement nor compresses a spectrum past the memory it has, and every other exception is
  dropped. It is assumed that a number prints as \<open>%lf\<close> documents, that every scan it writes has a
  spectrum, of fewer than 2^28 elements, and that the m/z of its base peak under the calibration of the frame
  is below 10^63. The last one is no restriction on an uncalibrated file
  (\<open>uncalibrated_printable\<close>) or one whose calibration is that of an instrument
  (\<open>sane_calibration_printable\<close>); a base peak of 230 digits does print past the buffer
  (\<open>long_base_peak_undefined\<close>).\<close>

theorem frame_writer_stays_in_bounds:
  assumes "\<And>n. length (contents n) = n" "fixed_text lf"
    and "list_all (writable rnd (frame_calibration src (frame_parameters frame)) (frame_parameters frame))
      (encoded_data frame)"
  shows "\<exists>after. frame_writer_on_notify opens db contents lf rnd src frame before = Inr after"
proof -
  have "write_scan_data db contents lf rnd src frame new_uimf_writer before \<noteq> Inl (after, Undefined s)" for after s
    using write_scans_defined [OF assms(1,2,3)]
    by (simp add: write_scan_data_def Let_def execute_def bindR_Inl_iff frame_calibration_def split: prod.split)
  then show ?thesis
    by (auto simp: frame_writer_on_notify_def split: sum.splits exn.splits)
qed

definition small_frame :: uimf_frame where
  "small_frame = \<lparr>frame_parameters = \<lparr>start_trigger = 2, nbr_samples = 0, nbr_accumulations = 1, frame_length = 4,
       frame_number = 1, offset_bins = 0, file_name = ''a.uimf''\<rparr>,
     encoded_data = [small_spectrum, small_spectrum\<lparr>er_scan := 3\<rparr>]\<rparr>"

definition small_source :: calibration_source where
  "small_source = \<lparr>frame_params_rows = (\<lambda>_. Some []), bin_width_row = Some None\<rparr>"

theorem frame_is_stored_witness:
  "\<exists>bytes (w :: uimf_writer) rows.
    write_scan_data (\<lambda>_ _. True) (\<lambda>n. replicate n 7) (\<lambda>_. ''7.000000'') id small_source small_frame new_uimf_writer [] =
      Inr (bytes, w, [] @ [Synchronous_off, Begin_transaction] @ rows @ [End_transaction, Synchronous_on]) \<and>
    list_all2 (stores (\<lambda>_. ''7.000000'') id (calibration w) (frame_parameters small_frame))
      (filter (is_written (frame_parameters small_frame)) (encoded_data small_frame)) rows"
proof -
  let ?r = "write_scan_data (\<lambda>_ _. True) (\<lambda>n. replicate n 7) (\<lambda>_. ''7.000000'') id small_source small_frame new_uimf_writer []"
  have "case ?r of Inr (b, w, l) \<Rightarrow> True | _ \<Rightarrow> False" by code_simp
  then obtain b w l where r: "?r = Inr (b, w, l)" by (auto split: sum.splits)
  have "list_all storable (encoded_data small_frame)"
    by (simp add: small_frame_def small_spectrum_def storable_def)
  from frame_is_stored [OF _ this r] have "\<exists>rows. l = [] @ [Synchronous_off, Begin_transaction] @ rows @
      [End_transaction, Synchronous_on] \<and>
    list_all2 (stores (\<lambda>_. ''7.000000'') id (calibration w) (frame_parameters small_frame))
      (filter (is_written (frame_parameters small_frame)) (encoded_data small_frame)) rows"
    by simp
  with r show ?thesis by blast
qed

text \<open>A file with the calibration of an instrument.\<close>

definition calibrated_source :: calibration_source where
  "calibrated_source = \<lparr>frame_params_rows = (\<lambda>_. Some [(12, 347 / 1000), (13, - 3 / 100)]), bin_width_row = Some (Some 1)\<rparr>"

lemma calibrated_source_calibration:
  "frame_calibration calibrated_source ps =
     \<lparr>cal_slope = 347 / 1000, cal_intercept = - 3 / 100, cal_bin_width_ns = 1, cal_usable = True\<rparr>"
  by (simp add: frame_calibration_def calibration_for_def new_uimf_writer_def no_calibration_def calibrated_source_def
      take_param_def calibration_slope_key_def calibration_intercept_key_def)

theorem frame_writer_stays_in_bounds_witness:
  "\<exists>after. frame_writer_on_notify (\<lambda>_. True) (\<lambda>_ _. True) (\<lambda>n. replicate n 7) six_decimals id calibrated_source
    small_frame [] = Inr after"
proof (rule frame_writer_stays_in_bounds)
  have "printable id (frame_calibration calibrated_source (frame_parameters small_frame)) er" for er
    by (rule sane_calibration_printable) (simp_all add: calibrated_source_calibration sane_calibration_def)
  then show "list_all (writable id (frame_calibration calibrated_source (frame_parameters small_frame))
      (frame_parameters small_frame)) (encoded_data small_frame)"
    by (simp add: small_frame_def small_spectrum_def writable_def storable_def)
qed (simp_all add: fixed_text_six_decimals)

end
