(* ===== verification/Chain_Run.thy ===== *)
theory Chain_Run
  imports Frame_Chain UIMF_Writer Zmq_Subscriber
begin

text \<open>
  The threads of an acquisition together: the acquisition thread that publishes its records, the worker of the
  process subject that encodes them and publishes the frames, and the workers of the two subscribers, the one
  that sums and the one that writes the file. \<open>AcquirePublisher::stop(true)\<close> completes the publisher of
  the records at any time, also before the last record is published.
\<close>

section \<open>The two subscribers\<close>

text \<open>
  What the subscribers of frames keep: the summing one its publications and its vector, the file writer the
  statements its file has executed.
\<close>

datatype sink =
    Summing "(publication list \<times> zmq_subscriber) result"
  | Writing "sql list result"

text \<open>What the subscribers get from outside: the serialisation, the files and the numbers' texts.\<close>

record sink_env =
  se_encode :: "message \<Rightarrow> string"
  se_opens :: "string \<Rightarrow> bool"
  se_db :: database
  se_contents :: "nat \<Rightarrow> u8 list"
  se_lf :: "rat \<Rightarrow> string"
  se_rnd :: "rat \<Rightarrow> rat"
  se_src :: calibration_source

definition writer_on_notify :: "sink_env \<Rightarrow> uimf_frame \<Rightarrow> sql list \<Rightarrow> sql list result" where
  "writer_on_notify env =
     frame_writer_on_notify (se_opens env) (se_db env) (se_contents env) (se_lf env) (se_rnd env) (se_src env)"

fun sink_on_notify :: "sink_env \<Rightarrow> uimf_frame \<Rightarrow> sink \<Rightarrow> sink" where
  "sink_on_notify env f (Summing r) =
     Summing (bindR r (\<lambda>(sent, z). bindR (zmq_on_notify (se_encode env) f z) (\<lambda>(ps, z'). Inr (sent @ ps, z'))))"
| "sink_on_notify env f (Writing r) = Writing (bindR r (writer_on_notify env f))"

text \<open>The undefined behaviour a subscriber ran into, which is that of the process.\<close>

fun sink_error :: "sink \<Rightarrow> exn option" where
  "sink_error (Summing r) = (case r of Inl e \<Rightarrow> Some e | Inr _ \<Rightarrow> None)"
| "sink_error (Writing r) = (case r of Inl e \<Rightarrow> Some e | Inr _ \<Rightarrow> None)"

section \<open>The chain\<close>

type_synonym buffered_record = "acq_buffer \<times> uimf_acquisition_record"

text \<open>
  The records the acquisition thread has still to publish, and the publisher of records, whose subscriber 0 is the
  process subject: what the subject's worker keeps is its publisher of frames, as long as nothing undefined
  happened.
\<close>

record chain =
  chain_left :: "buffered_record list"
  chain_records :: "(buffered_record, sink process_subject result) publisher"

definition subject :: "chain \<Rightarrow> (buffered_record, sink process_subject result) subscriber" where
  "subject c = subscriber_at (chain_records c) 0"

definition chain_frames :: "chain \<Rightarrow> sink process_subject result" where
  "chain_frames c = handled (subject c)"

definition with_subject :: "(buffered_record, sink process_subject result) subscriber \<Rightarrow> chain \<Rightarrow> chain" where
  "with_subject s c = c\<lparr>chain_records := map_subscriber 0 (\<lambda>_. s) (chain_records c)\<rparr>"

definition with_frames :: "sink process_subject result \<Rightarrow> chain \<Rightarrow> chain" where
  "with_frames p c = with_subject ((subject c)\<lparr>handled := p\<rparr>) c"

definition new_chain :: "zmq_subscriber \<Rightarrow> buffered_record list \<Rightarrow> chain result" where
  "new_chain z recs =
     bindR (register_subscriber 0 ACQUIRE
       (new_publisher (\<lambda>i. new_subscriber (if i = 0 then Summing (Inr ([], z)) else Writing (Inr []))))) (\<lambda>p.
     bindR (register_subscriber 1 ACQUIRE_FRAME p) (\<lambda>p'.
     bindR (register_subscriber 0 BOTH (new_publisher (\<lambda>_. new_subscriber (Inr p')))) (\<lambda>src.
       Inr \<lparr>chain_left = recs, chain_records = src\<rparr>)))"

definition subject_on_notify :: "buffered_record \<Rightarrow> sink process_subject result \<Rightarrow> sink process_subject result" where
  "subject_on_notify item r = bindR r (process_on_notify item)"

section \<open>Its steps\<close>

text \<open>
  A step is one of the acquisition thread, of the thread in \<open>stop(true)\<close> or of a worker. The end of the
  subject's worker is two steps: it completes the publisher of frames, and once every subscriber of it has
  completed it completes itself.
\<close>

datatype chain_event = Record_published | Stop_signalled | Subject_worked | Frames_completed | Subject_ended | Sink_worked nat

fun chain_perform :: "sink_env \<Rightarrow> chain_event \<Rightarrow> chain \<Rightarrow> chain option" where
  "chain_perform env Record_published c =
     (case chain_left c of
        [] \<Rightarrow> None
      | r # rs \<Rightarrow> Some (c\<lparr>chain_left := rs, chain_records := notify r BOTH (chain_records c)\<rparr>))"
| "chain_perform env Stop_signalled c =
     (case notify_completed (chain_records c) of Inl e \<Rightarrow> None | Inr p \<Rightarrow> Some (c\<lparr>chain_records := p\<rparr>))"
| "chain_perform env Subject_worked c =
     (if worker_pc (subject c) = Completing then None
      else map_option (\<lambda>s. with_subject s c)
        (worker_step subject_on_notify id (completed (chain_records c)) (subject c)))"
| "chain_perform env Frames_completed c =
     (if worker_pc (subject c) \<noteq> Completing then None
      else
        (case bindR (chain_frames c) process_on_completed of
           Inl e \<Rightarrow> None
         | Inr p \<Rightarrow> Some (with_frames (Inr p) c)))"
| "chain_perform env Subject_ended c =
     (if worker_pc (subject c) \<noteq> Completing then None
      else
        (case chain_frames c of
           Inl e \<Rightarrow> None
         | Inr p \<Rightarrow>
             if completed p \<and> all_completed p
             then map_option (\<lambda>s. with_subject s c) (worker_step subject_on_notify id True (subject c))
             else None))"
| "chain_perform env (Sink_worked i) c =
     (case chain_frames c of
        Inl e \<Rightarrow> None
      | Inr p \<Rightarrow>
          (case worker_step (sink_on_notify env) id (completed p) (subscriber_at p i) of
             None \<Rightarrow> None
           | Some s \<Rightarrow>
               Some (with_frames
                 (case sink_error (handled s) of
                    Some e \<Rightarrow> Inl e
                  | None \<Rightarrow> Inr (map_subscriber i (\<lambda>_. s) p)) c)))"

inductive chain_run :: "sink_env \<Rightarrow> chain \<Rightarrow> chain_event list \<Rightarrow> chain \<Rightarrow> bool" for env where
  begun: "chain_run env c [] c"
| stepped: "chain_run env c es c' \<Longrightarrow> chain_perform env e c' = Some c'' \<Longrightarrow> chain_run env c (es @ [e]) c''"

fun chain_perform_all :: "sink_env \<Rightarrow> chain_event list \<Rightarrow> chain \<Rightarrow> chain option" where
  "chain_perform_all env [] c = Some c"
| "chain_perform_all env (e # es) c = Option.bind (chain_perform env e c) (chain_perform_all env es)"

lemma chain_run_cons:
  "chain_run env c' es c'' \<Longrightarrow> chain_perform env e c = Some c' \<Longrightarrow> chain_run env c (e # es) c''"
proof (induction rule: chain_run.induct)
  case (begun c')
  from chain_run.stepped [OF chain_run.begun begun] show ?case by simp
next
  case (stepped c' es c1 e1 c2)
  from chain_run.stepped [OF stepped.IH [OF stepped.prems] stepped.hyps(2)] show ?case by simp
qed

lemma chain_perform_all_run: "chain_perform_all env es c = Some c' \<Longrightarrow> chain_run env c es c'"
  by (induction es arbitrary: c) (auto simp: Option.bind_eq_Some_conv intro: chain_run.begun chain_run_cons)

text \<open>The records published before \<open>stop(true)\<close> completed the publisher.\<close>

fun published_before_stop :: "chain_event list \<Rightarrow> nat" where
  "published_before_stop [] = 0"
| "published_before_stop (Stop_signalled # es) = 0"
| "published_before_stop (Record_published # es) = Suc (published_before_stop es)"
| "published_before_stop (e # es) = published_before_stop es"

section \<open>What a schedule publishes\<close>

fun publications :: "'a event list \<Rightarrow> ('a \<times> subscriber_type) list" where
  "publications [] = []"
| "publications (Published x u # es) = (x, u) # publications es"
| "publications (Completed_signal # es) = publications es"
| "publications (Worked i # es) = publications es"

text \<open>What is published before the publisher completes, and what still is after.\<close>

fun early_publications :: "'a event list \<Rightarrow> ('a \<times> subscriber_type) list" where
  "early_publications [] = []"
| "early_publications (Completed_signal # es) = []"
| "early_publications (Published x u # es) = (x, u) # early_publications es"
| "early_publications (Worked i # es) = early_publications es"

fun late_publications :: "'a event list \<Rightarrow> ('a \<times> subscriber_type) list" where
  "late_publications [] = []"
| "late_publications (Completed_signal # es) = publications es"
| "late_publications (Published x u # es) = late_publications es"
| "late_publications (Worked i # es) = late_publications es"

lemma publications_append [simp]: "publications (es @ es') = publications es @ publications es'"
  by (induction es rule: publications.induct) simp_all

lemma early_publications_append [simp]:
  "early_publications (es @ es') =
     (if Completed_signal \<in> set es then early_publications es else early_publications es @ early_publications es')"
  by (induction es rule: early_publications.induct) simp_all

lemma late_publications_append [simp]:
  "late_publications (es @ es') =
     (if Completed_signal \<in> set es then late_publications es @ publications es' else late_publications es')"
  by (induction es rule: late_publications.induct) simp_all

lemma early_publications_le: "length (early_publications es) \<le> length (publications es)"
  by (induction es rule: early_publications.induct) simp_all

lemma sent_to_publications: "sent_to t es = map fst (filter (\<lambda>(x, u). type_and u t \<noteq> 0) (publications es))"
  by (induction es rule: publications.induct) (simp_all add: sent_to_def)

lemma frames_for_the_writer:
  "map fst (filter (\<lambda>(f, u). type_and u ACQUIRE_FRAME \<noteq> 0) (map (\<lambda>f. (f, notify_type f)) fs)) = filter has_file fs"
  by (induction fs) (simp_all add: notify_type_def has_file_def kinds_meet)

lemma late_publications_tail:
  "late_publications (es1 @ es2) = [] \<Longrightarrow> Completed_signal \<in> set es1 \<Longrightarrow> publications es2 = []"
  by simp

lemma ended_without_late:
  assumes "pub_run on_notify id p es p'" "ready_to_publish p" "(t, i) \<in> set (subscribers p)"
    and "worker_pc (subscriber_at p' i) = Ended" "late_publications es = []"
  shows "Completed_signal \<in> set es \<and>
    handled (subscriber_at p' i) = fold on_notify (sent_to t es) (handled (subscriber_at p i))"
proof -
  from ended_handled [OF assms(1-4)] obtain es1 es2 where
    es: "es = es1 @ es2" "Completed_signal \<in> set es1"
      "handled (subscriber_at p' i) = fold on_notify (sent_to t es1) (handled (subscriber_at p i))"
    by auto
  have "publications es2 = []" using late_publications_tail assms(5) es(1,2) by blast
  then have "sent_to t es = sent_to t es1" by (simp add: sent_to_publications es(1))
  with es show ?thesis by simp
qed

section \<open>The invariant of the chain\<close>

lemma subject_simps [simp]:
  "subject (with_subject s c) = s" "subject (with_frames p c) = (subject c)\<lparr>handled := p\<rparr>"
  "chain_frames (with_frames p c) = p" "chain_frames (with_subject s c) = handled s"
  "chain_left (with_subject s c) = chain_left c" "chain_left (with_frames p c) = chain_left c"
  "subscribers (chain_records (with_subject s c)) = subscribers (chain_records c)"
  "subscribers (chain_records (with_frames p c)) = subscribers (chain_records c)"
  "completed (chain_records (with_subject s c)) = completed (chain_records c)"
  "completed (chain_records (with_frames p c)) = completed (chain_records c)"
  by (simp_all add: subject_def with_subject_def with_frames_def map_subscriber_def chain_frames_def)

lemma in_queue_handled [simp]: "in_queue t es (s\<lparr>handled := h\<rparr>) D = in_queue t es s D" "closing (s\<lparr>handled := h\<rparr>) = closing s"
  by (simp_all add: in_queue_def closing_def)

lemma published_before_stop_snoc:
  "published_before_stop (es @ [e]) =
     published_before_stop es + (if e = Record_published \<and> Stop_signalled \<notin> set es then 1 else 0)"
  by (induction es rule: published_before_stop.induct) (cases e; simp)+

text \<open>
  The schedule \<open>ss\<close> of the publisher of records and the schedule \<open>fs\<close> of the publisher of frames that a
  schedule of the chain amounts to. \<open>D\<close> is the records the subject has handled.
\<close>

definition frames_run :: "sink_env \<Rightarrow> sink process_subject \<Rightarrow> buffered_record list \<Rightarrow> chain \<Rightarrow> sink process_subject \<Rightarrow> bool" where
  "frames_run env q0 D c q \<longleftrightarrow>
     (\<exists>fs. pub_run (sink_on_notify env) id q0 fs q \<and> publications fs = map (\<lambda>f. (f, notify_type f)) (encoded_frames D) \<and>
       late_publications fs = [] \<and> (Completed_signal \<in> set fs \<longrightarrow> closing (subject c)))"

definition records_run :: "buffered_record list \<Rightarrow> chain_event list \<Rightarrow> chain \<Rightarrow> buffered_record event list \<Rightarrow> bool" where
  "records_run recs es c ss \<longleftrightarrow>
     publications ss @ map (\<lambda>r. (r, BOTH)) (chain_left c) = map (\<lambda>r. (r, BOTH)) recs \<and>
     (completed (chain_records c) \<longrightarrow> Completed_signal \<in> set ss) \<and>
     (Completed_signal \<in> set ss \<longleftrightarrow> Stop_signalled \<in> set es) \<and>
     length (early_publications ss) = published_before_stop es"

definition chain_inv :: "sink_env \<Rightarrow> buffered_record list \<Rightarrow> sink process_subject \<Rightarrow> chain_event list \<Rightarrow> chain \<Rightarrow> bool" where
  "chain_inv env recs q0 es c \<longleftrightarrow>
     subscribers (chain_records c) = [(BOTH, 0)] \<and>
     (\<exists>ss D. records_run recs es c ss \<and> in_queue BOTH ss (subject c) D \<and>
       (\<forall>q. chain_frames c = Inr q \<longrightarrow> frames_run env q0 D c q))"

lemma chain_invI:
  "subscribers (chain_records c) = [(BOTH, 0)] \<Longrightarrow> records_run recs es c ss \<Longrightarrow> in_queue BOTH ss (subject c) D \<Longrightarrow>
   (\<And>q. chain_frames c = Inr q \<Longrightarrow> frames_run env q0 D c q) \<Longrightarrow> chain_inv env recs q0 es c"
  by (auto simp: chain_inv_def)

lemma records_run_quiet:
  "records_run recs es c ss \<Longrightarrow> e \<noteq> Record_published \<Longrightarrow> e \<noteq> Stop_signalled \<Longrightarrow> chain_left c' = chain_left c \<Longrightarrow>
   completed (chain_records c') = completed (chain_records c) \<Longrightarrow> records_run recs (es @ [e]) c' ss"
  by (auto simp: records_run_def published_before_stop_snoc)

lemma sent_to_all:
  assumes "publications ss = map (\<lambda>r. (r, BOTH)) rs"
  shows "sent_to BOTH ss = rs"
  unfolding sent_to_publications assms by (simp add: filter_map comp_def type_and_def BOTH_def)

lemma records_run_split:
  assumes "records_run recs es c (es1 @ es2)"
  shows "sent_to BOTH es1 @ sent_to BOTH es2 @ chain_left c = recs"
    "length (publications es1) = length (sent_to BOTH es1)"
proof -
  have all: "publications es1 @ publications es2 @ map (\<lambda>r. (r, BOTH)) (chain_left c) = map (\<lambda>r. (r, BOTH)) recs"
    using assms by (simp add: records_run_def)
  then obtain rs1 rs2 where rs: "recs = rs1 @ rs2 @ chain_left c"
      "publications es1 = map (\<lambda>r. (r, BOTH)) rs1" "publications es2 = map (\<lambda>r. (r, BOTH)) rs2"
    by (auto simp: append_eq_map_conv inj_on_def dest!: map_injective)
  show "sent_to BOTH es1 @ sent_to BOTH es2 @ chain_left c = recs"
    by (simp add: sent_to_all [OF rs(2)] sent_to_all [OF rs(3)] rs(1))
  show "length (publications es1) = length (sent_to BOTH es1)"
    by (simp add: sent_to_all [OF rs(2)]) (simp add: rs(2))
qed

lemma records_run_sent: "records_run recs es c ss \<Longrightarrow> sent_to BOTH ss @ chain_left c = recs"
  using records_run_split(1) [of recs es c ss "[]"] by simp

lemma frames_run_published:
  assumes "frames_run env q0 D c q" "\<not> closing (subject c)" "to_frame (fst x) (snd x) = Inr f"
  shows "frames_run env q0 (D @ [x]) c' (notify f (notify_type f) q)"
proof -
  obtain fs where fs: "pub_run (sink_on_notify env) id q0 fs q" "late_publications fs = []" "Completed_signal \<notin> set fs"
      "publications fs = map (\<lambda>f. (f, notify_type f)) (encoded_frames D)"
    using assms(1,2) by (auto simp: frames_run_def)
  have "encoded_frames (D @ [x]) = encoded_frames D @ [f]"
    using assms(3) by (induction D) (simp_all split: sum.split)
  with fs pub_run.more [OF fs(1) pub_step.published] show ?thesis
    unfolding frames_run_def by (intro exI [of _ "fs @ [Published f (notify_type f)]"]) simp
qed

lemma frames_run_quiet:
  "frames_run env q0 D c q \<Longrightarrow> (closing (subject c) \<longrightarrow> closing (subject c')) \<Longrightarrow> frames_run env q0 D c' q"
  by (auto simp: frames_run_def)

lemma frames_run_completed:
  assumes "frames_run env q0 D c q" "closing (subject c')" "notify_completed q = Inr q'"
  shows "frames_run env q0 D c' q'"
proof -
  obtain fs where fs: "pub_run (sink_on_notify env) id q0 fs q" "late_publications fs = []"
      "publications fs = map (\<lambda>f. (f, notify_type f)) (encoded_frames D)"
    using assms(1) by (auto simp: frames_run_def)
  with assms(2) pub_run.more [OF fs(1) pub_step.signalled [OF assms(3)]] show ?thesis
    unfolding frames_run_def by (intro exI [of _ "fs @ [Completed_signal]"]) simp
qed

lemma frames_run_worked:
  assumes "frames_run env q0 D c q" "closing (subject c) \<longrightarrow> closing (subject c')"
    and "worker_step (sink_on_notify env) id (completed q) (subscriber_at q i) = Some s"
  shows "frames_run env q0 D c' (map_subscriber i (\<lambda>_. s) q)"
proof -
  obtain fs where fs: "pub_run (sink_on_notify env) id q0 fs q" "late_publications fs = []"
      "publications fs = map (\<lambda>f. (f, notify_type f)) (encoded_frames D)" "Completed_signal \<in> set fs \<longrightarrow> closing (subject c)"
    using assms(1) by (auto simp: frames_run_def)
  with assms(2) pub_run.more [OF fs(1) pub_step.worked [OF assms(3)]] show ?thesis
    unfolding frames_run_def by (intro exI [of _ "fs @ [Worked i]"]) simp
qed

lemma chain_inv_subject_step:
  assumes "chain_inv env recs q0 es c" "list_all record_sound recs"
    and "worker_step subject_on_notify id stop (subject c) = Some s" "stop \<longrightarrow> completed (chain_records c)"
    and "e = Subject_worked \<or> e = Subject_ended"
  shows "chain_inv env recs q0 (es @ [e]) (with_subject s c)"
proof -
  obtain ss D where inv: "subscribers (chain_records c) = [(BOTH, 0)]" "records_run recs es c ss" "in_queue BOTH ss (subject c) D"
      "\<And>q. chain_frames c = Inr q \<Longrightarrow> frames_run env q0 D c q"
    using assms(1) by (auto simp: chain_inv_def)
  have run: "records_run recs (es @ [e]) (with_subject s c) ss"
    using assms(5) by (intro records_run_quiet [OF inv(2)]) auto
  have stop: "stop \<longrightarrow> Completed_signal \<in> set ss" using assms(4) inv(2) by (auto simp: records_run_def)
  from worker_step_queued [OF inv(3) assms(3) stop] show ?thesis
  proof (elim conjE disjE exE)
    assume "in_queue BOTH ss s D" "handled s = handled (subject c)" "worker_pc (subject c) \<noteq> Ended" "worker_pc (subject c) \<noteq> Completing"
    with inv show ?thesis
      by (intro chain_invI [OF _ run]) (auto simp: chain_frames_def closing_def intro: frames_run_quiet)
  next
    fix x
    assume x: "in_queue BOTH ss s (D @ [x])" "handled s = subject_on_notify x (handled (subject c))"
      "worker_pc (subject c) \<noteq> Ended" "worker_pc (subject c) \<noteq> Completing"
    have "(D @ [x]) @ items s @ protected_queue s = sent_to BOTH ss" using x(1) by (simp only: in_queue_def)
    then have "recs = ((D @ [x]) @ items s @ protected_queue s) @ chain_left c"
      using records_run_sent [OF inv(2)] by simp
    then have "x \<in> set recs" by simp
    then have "record_sound x" using assms(2) by (simp add: list_all_iff)
    then obtain f where f: "to_frame (fst x) (snd x) = Inr f" using sound_record_encoded by blast
    have "frames_run env q0 (D @ [x]) (with_subject s c) q" if "handled s = Inr q" for q
    proof -
      have "bindR (chain_frames c) (process_on_notify x) = Inr q"
        using that x(2) by (simp add: subject_on_notify_def chain_frames_def)
      then obtain q1 where "chain_frames c = Inr q1" "process_on_notify x q1 = Inr q"
        by (auto simp: bindR_Inr_iff)
      with f frames_run_published [OF inv(4) _ f] x(3,4) show ?thesis
        by (auto simp: process_on_notify_def closing_def)
    qed
    with inv x(1) show ?thesis by (intro chain_invI [OF _ run]) auto
  next
    assume "in_queue BOTH ss s D" "handled s = id (handled (subject c))" "worker_pc s = Ended"
    with inv show ?thesis
      by (intro chain_invI [OF _ run]) (auto simp: chain_frames_def closing_def intro: frames_run_quiet)
  qed
qed

lemma chain_inv_step:
  assumes "chain_inv env recs q0 es c" "list_all record_sound recs" "chain_perform env e c = Some c'"
  shows "chain_inv env recs q0 (es @ [e]) c'"
proof -
  obtain ss D where inv: "subscribers (chain_records c) = [(BOTH, 0)]" "records_run recs es c ss" "in_queue BOTH ss (subject c) D"
      "\<And>q. chain_frames c = Inr q \<Longrightarrow> frames_run env q0 D c q"
    using assms(1) by (auto simp: chain_inv_def)
  show ?thesis
  proof (cases e)
    case Record_published
    then obtain r rs where c': "chain_left c = r # rs" "c' = c\<lparr>chain_left := rs, chain_records := notify r BOTH (chain_records c)\<rparr>"
      using assms(3) by (auto split: list.splits)
    have n: "notify r BOTH (chain_records c) = map_subscriber 0 (update r) (chain_records c)"
      using inv(1) by (simp add: notify_def notify_one_def type_and_def BOTH_def)
    then have s: "subject c' = update r (subject c)" by (simp add: c'(2) subject_def map_subscriber_def)
    then have "chain_frames c' = chain_frames c" "closing (subject c') = closing (subject c)"
      by (simp_all add: chain_frames_def update_def closing_def)
    moreover have "in_queue BOTH (ss @ [Published r BOTH]) (subject c') D"
      using in_queue_sent [OF inv(3), of "Published r BOTH"] s by (simp add: type_and_def BOTH_def)
    moreover have "records_run recs (es @ [e]) c' (ss @ [Published r BOTH])"
      using inv(2) Record_published c'(1)
      by (auto simp: records_run_def published_before_stop_snoc c'(2) n map_subscriber_def)
    ultimately show ?thesis
      using inv(1,4) by (intro chain_invI) (auto simp: c'(2) n map_subscriber_def intro: frames_run_quiet)
  next
    case Stop_signalled
    then have c': "c' = c\<lparr>chain_records := (chain_records c)\<lparr>completed := True\<rparr>\<rparr>"
      using assms(3) by (auto simp: notify_completed_def split: if_splits)
    then have s: "subject c' = subject c" "chain_frames c' = chain_frames c" by (simp_all add: subject_def chain_frames_def)
    moreover have "in_queue BOTH (ss @ [Completed_signal]) (subject c') D"
      using in_queue_sent [OF inv(3), of Completed_signal] s by simp
    moreover have "records_run recs (es @ [e]) c' (ss @ [Completed_signal])"
      using inv(2) Stop_signalled by (auto simp: records_run_def published_before_stop_snoc c')
    ultimately show ?thesis
      using inv(1,4) by (intro chain_invI) (auto simp: c' intro: frames_run_quiet)
  next
    case Subject_worked
    then obtain s where "worker_step subject_on_notify id (completed (chain_records c)) (subject c) = Some s" "c' = with_subject s c"
      using assms(3) by (auto split: if_splits)
    with chain_inv_subject_step [OF assms(1,2)] Subject_worked show ?thesis by blast
  next
    case Frames_completed
    then obtain q q' where q: "chain_frames c = Inr q" "notify_completed q = Inr q'" "c' = with_frames (Inr q') c"
        "worker_pc (subject c) = Completing"
      using assms(3) by (auto simp: process_on_completed_def bindR_Inr_iff split: if_splits sum.splits)
    have "closing (subject c')" using q(3,4) by (simp add: closing_def)
    from frames_run_completed [OF inv(4) [OF q(1)] this q(2)] have "frames_run env q0 D c' q'" .
    moreover have "records_run recs (es @ [e]) c' ss"
      by (rule records_run_quiet [OF inv(2)]) (simp_all add: Frames_completed q(3))
    ultimately show ?thesis using inv(1,3) by (intro chain_invI) (auto simp: q(3))
  next
    case Subject_ended
    then obtain s where s: "worker_step subject_on_notify id True (subject c) = Some s" "c' = with_subject s c"
        "worker_pc (subject c) = Completing"
      using assms(3) by (auto split: if_splits sum.splits)
    from s(1,3) have "worker_step subject_on_notify id False (subject c) = Some s" by (simp add: worker_step_def)
    with chain_inv_subject_step [OF assms(1,2)] Subject_ended s(2) show ?thesis by blast
  next
    case (Sink_worked i)
    then obtain q s where q: "chain_frames c = Inr q"
        "worker_step (sink_on_notify env) id (completed q) (subscriber_at q i) = Some s"
        "c' = with_frames (case sink_error (handled s) of Some x \<Rightarrow> Inl x | None \<Rightarrow> Inr (map_subscriber i (\<lambda>_. s) q)) c"
      using assms(3) by (auto split: sum.splits option.splits)
    have "closing (subject c) \<longrightarrow> closing (subject c')" by (simp add: q(3))
    from frames_run_worked [OF inv(4) [OF q(1)] this q(2)] have "frames_run env q0 D c' (map_subscriber i (\<lambda>_. s) q)" .
    moreover have "records_run recs (es @ [e]) c' ss"
      by (rule records_run_quiet [OF inv(2)]) (simp_all add: Sink_worked q(3))
    ultimately show ?thesis
      using inv(1,3) by (intro chain_invI) (auto simp: q(3) split: option.splits)
  qed
qed

text \<open>A chain of which nothing is left of an earlier frame.\<close>

definition chain_ready :: "chain \<Rightarrow> bool" where
  "chain_ready c \<longleftrightarrow>
     subscribers (chain_records c) = [(BOTH, 0)] \<and> ready_to_publish (chain_records c) \<and>
     (case chain_frames c of Inl e \<Rightarrow> False | Inr q \<Rightarrow> ready_to_publish q)"

lemma chain_ready_inv:
  assumes "chain_ready c" "chain_frames c = Inr q"
  shows "chain_inv env (chain_left c) q [] c"
proof (rule chain_invI)
  show "records_run (chain_left c) [] c []" "in_queue BOTH [] (subject c) []"
    using assms by (auto simp: chain_ready_def records_run_def in_queue_def ready_to_publish_def subject_def)
  show "frames_run env q [] c q'" if "chain_frames c = Inr q'" for q'
    using that assms(2) pub_run.nothing by (fastforce simp: frames_run_def)
qed (use assms in \<open>simp add: chain_ready_def\<close>)

lemma chain_run_inv:
  "chain_run env c es c' \<Longrightarrow> chain_ready c \<Longrightarrow> chain_frames c = Inr q \<Longrightarrow> list_all record_sound (chain_left c) \<Longrightarrow>
   chain_inv env (chain_left c) q es c'"
  by (induction rule: chain_run.induct) (auto intro: chain_ready_inv chain_inv_step)

text \<open>
  Whatever the schedule, a file writer whose worker has ended has handled the frames of the first records, and
  these are at least those published before the publisher completed.
\<close>

lemma chain_sink_ended:
  assumes "chain_run env c es c'" "chain_ready c" "list_all record_sound (chain_left c)" "chain_frames c = Inr q0"
    and "chain_frames c' = Inr q" "(ACQUIRE_FRAME, v) \<in> set (subscribers q0)" "worker_pc (subscriber_at q v) = Ended"
  shows "\<exists>k. published_before_stop es \<le> k \<and> k \<le> length (chain_left c) \<and>
    handled (subscriber_at q v) =
      fold (sink_on_notify env) (filter has_file (encoded_frames (take k (chain_left c)))) (handled (subscriber_at q0 v))"
proof -
  let ?recs = "chain_left c"
  obtain ss D where inv: "records_run ?recs es c' ss" "in_queue BOTH ss (subject c') D" "frames_run env q0 D c' q"
    using chain_run_inv [OF assms(1,2,4,3)] assms(5) by (auto simp: chain_inv_def)
  then obtain fs where fs: "pub_run (sink_on_notify env) id q0 fs q" "late_publications fs = []"
      "publications fs = map (\<lambda>f. (f, notify_type f)) (encoded_frames D)" "Completed_signal \<in> set fs \<longrightarrow> closing (subject c')"
    by (auto simp: frames_run_def)
  have ready: "ready_to_publish q0" using assms(2,4) by (simp add: chain_ready_def)
  from ended_without_late [OF fs(1) ready assms(6,7) fs(2)] have
    h: "handled (subscriber_at q v) = fold (sink_on_notify env) (filter has_file (encoded_frames D)) (handled (subscriber_at q0 v))"
      "closing (subject c')"
    using fs(4) by (simp_all add: sent_to_publications fs(3) frames_for_the_writer)
  with inv(2) obtain es1 es2 where split: "ss = es1 @ es2" "Completed_signal \<in> set es1" "D = sent_to BOTH es1"
    by (auto simp: in_queue_def)
  note run = records_run_split [OF inv(1) [unfolded split(1)], folded split(3)]
  have "published_before_stop es = length (early_publications es1)"
    using inv(1) split(1,2) by (simp add: records_run_def)
  also have "\<dots> \<le> length D" using early_publications_le [of es1] run(2) by simp
  finally have "published_before_stop es \<le> length D" .
  moreover have "D = take (length D) ?recs" "length D \<le> length ?recs"
    using run(1) by (metis append_eq_conv_conj, metis length_append le_add1)
  ultimately show ?thesis using h(1) by (intro exI [of _ "length D"]) simp
qed

end
