(* ===== verification/Frame_Archive.thy ===== *)
theory Frame_Archive
  imports Chain_Run
begin

text \<open>
  The end of the chain: the file writer turns the frames its worker is handed into transactions. Together with
  the acquisition thread, the encoding and the schedules of the chain this gives the path of a trigger from the
  card to its row, for every interleaving of the threads.
\<close>

section \<open>One frame\<close>

definition transaction :: "sql list \<Rightarrow> sql list" where
  "transaction rows = [Synchronous_off, Begin_transaction] @ rows @ [End_transaction, Synchronous_on]"

definition accepts :: "database \<Rightarrow> bool" where
  "accepts db \<longleftrightarrow> (\<forall>executed s. db executed s)"

lemma accepts_execute: "accepts db \<Longrightarrow> execute db s executed = Inr (executed @ [s])"
  by (simp add: accepts_def execute_def)

lemma write_scan_succeeds:
  assumes "\<And>n. length (contents n) = n" "fixed_text lf" "accepts db" "writable rnd c ps er"
  shows "\<exists>bs'. write_scan db contents lf rnd c ps er bs = Inr bs'"
proof (cases "is_written ps er")
  case True
  then have "encoded_spectra er \<noteq> []" "length (encoded_spectra er) < 268435456"
    using assms(4) by (auto simp: writable_def storable_def)
  from compressed_spectra_sound [OF assms(1) this] obtain cs where "get_compressed_spectra contents er = Inr cs"
    by blast
  with writable_statement_fits [OF assms(2,4) True] show ?thesis
    by (simp add: write_scan_def Let_def accepts_execute [OF assms(3)])
qed (simp add: write_scan_def)

lemma write_scans_succeed:
  assumes "\<And>n. length (contents n) = n" "fixed_text lf" "accepts db"
  shows "list_all (writable rnd c ps) ers \<Longrightarrow> \<exists>bs'. write_scans db contents lf rnd c ps ers bs = Inr bs'"
proof (induction ers arbitrary: bs)
  case (Cons er ers)
  then have "writable rnd c ps er" by simp
  from write_scan_succeeds [of contents lf db rnd c ps er, OF assms this] obtain bs1
    where "write_scan db contents lf rnd c ps er bs = Inr bs1"
    by blast
  with Cons show ?case by simp
qed simp

lemma frame_archived:
  assumes "\<And>n. length (contents n) = n" "fixed_text lf" "accepts db"
    and "opens (file_name (frame_parameters f))"
    and "list_all (writable rnd (frame_calibration src (frame_parameters f)) (frame_parameters f)) (encoded_data f)"
  shows "\<exists>rows. frame_writer_on_notify opens db contents lf rnd src f before = Inr (before @ transaction rows) \<and>
    list_all2 (stores lf rnd (frame_calibration src (frame_parameters f)) (frame_parameters f))
      (filter (is_written (frame_parameters f)) (encoded_data f)) rows"
proof -
  let ?c = "frame_calibration src (frame_parameters f)"
  obtain b log3 where w: "write_scans db contents lf rnd ?c (frame_parameters f) (encoded_data f)
      (0, before @ [Synchronous_off, Begin_transaction]) = Inr (b, log3)"
    using write_scans_succeed [of contents lf db, OF assms(1-3,5)] by fast
  have "list_all storable (encoded_data f)"
    using assms(5) by (auto simp: list_all_iff writable_def)
  from write_scans_store [OF assms(1) this w] obtain rows where rows: "log3 = before @ [Synchronous_off, Begin_transaction] @ rows"
      "list_all2 (stores lf rnd ?c (frame_parameters f)) (filter (is_written (frame_parameters f)) (encoded_data f)) rows"
    by auto
  have "write_scan_data db contents lf rnd src f new_uimf_writer before =
      Inr (b, calibration_for src (frame_number (frame_parameters f)) new_uimf_writer, before @ transaction rows)"
    using w rows(1)
    by (simp add: write_scan_data_def Let_def accepts_execute [OF assms(3)] frame_calibration_def transaction_def)
  then have "frame_writer_on_notify opens db contents lf rnd src f before = Inr (before @ transaction rows)"
    using assms(4) by (simp add: frame_writer_on_notify_def committed_def transaction_def)
  with rows(2) show ?thesis by blast
qed

section \<open>The frames of a worker\<close>

lemma frames_archived:
  assumes "\<And>n. length (se_contents env n) = n" "fixed_text (se_lf env)" "accepts (se_db env)" "se_opens env (file_name ps)"
    and "c = frame_calibration (se_src env) ps"
  shows "list_all (\<lambda>f. frame_parameters f = ps \<and> list_all (writable (se_rnd env) c ps) (encoded_data f)) fs \<Longrightarrow>
    \<exists>rowss. fold (sink_on_notify env) fs (Writing (Inr before)) = Writing (Inr (before @ concat (map transaction rowss))) \<and>
      length rowss = length fs \<and>
      list_all2 (stores (se_lf env) (se_rnd env) c ps) (filter (is_written ps) (concat (map encoded_data fs))) (concat rowss)"
proof (induction fs arbitrary: before)
  case Nil
  show ?case by (rule exI [of _ "[]"]) simp
next
  case (Cons f fs)
  then have f: "frame_parameters f = ps" by simp
  have "se_opens env (file_name (frame_parameters f))"
    "list_all (writable (se_rnd env) (frame_calibration (se_src env) (frame_parameters f)) (frame_parameters f)) (encoded_data f)"
    using f assms(4,5) Cons.prems by simp_all
  from frame_archived [of "se_contents env" "se_lf env" "se_db env" "se_opens env" f, OF assms(1-3) this, of before] obtain rows where
    rows: "writer_on_notify env f before = Inr (before @ transaction rows)"
      "list_all2 (stores (se_lf env) (se_rnd env) c ps) (filter (is_written ps) (encoded_data f)) rows"
    unfolding f assms(5) writer_on_notify_def by blast
  from Cons.IH [of "before @ transaction rows"] Cons.prems obtain rowss where
    rest: "fold (sink_on_notify env) fs (Writing (Inr (before @ transaction rows))) =
        Writing (Inr ((before @ transaction rows) @ concat (map transaction rowss)))"
      "length rowss = length fs"
      "list_all2 (stores (se_lf env) (se_rnd env) c ps) (filter (is_written ps) (concat (map encoded_data fs))) (concat rowss)"
    by auto
  with rows show ?case
    by (intro exI [of _ "rows # rowss"]) (simp add: list_all2_appendI)
qed

section \<open>The first records of a frame\<close>

definition triggers_of :: "buffered_record list \<Rightarrow> nat" where
  "triggers_of recs = (\<Sum>item\<leftarrow>recs. length (stamps (acquiredData (snd item))))"

lemma consecutive_prefix:
  "consecutive k (map snd recs) = Some n \<Longrightarrow>
   n = k + triggers_of recs \<and> consecutive k (map snd (take m recs)) = Some (k + triggers_of (take m recs))"
proof (induction recs arbitrary: k m)
  case (Cons item recs)
  then have "consecutive (k + length (stamps (acquiredData (snd item)))) (map snd recs) = Some n"
      "unat (start_scan_index (snd item)) = k"
    by (auto split: if_splits)
  with Cons.IH [OF this(1), of "m - 1"] show ?case by (cases m) (simp_all add: triggers_of_def)
qed (simp add: triggers_of_def)

lemma encoded_frames_of_prefix:
  assumes "acquisition_thread zs1_streaming seg ps stops w = Ended_thread a" "unat seg < 2147483647"
    and "map snd recs = acq_records a" "list_all record_sound recs" "fs = encoded_frames (take k recs)"
  shows "list_all (\<lambda>f. frame_parameters f = ps) fs" "length fs = length (take k recs)"
    "map er_scan (concat (map encoded_data fs)) = map of_nat [0 ..< triggers_of (take k recs)]"
    "map (\<lambda>er. decode_spectrum 0 (encoded_spectra er)) (concat (map encoded_data fs)) =
       concat (map gate_samples_of (take k recs))"
    "triggers_of recs = unat (scans_acquired_count a)"
    "scans_acquired_count a = frame_length ps \<or> has_errored a \<or> list_ex id stops \<or> zw_measuring w = Inr True"
proof -
  note covered = frame_covered [OF assms(1,2), folded assms(3)]
  have "list_all record_sound (take k recs)" using assms(4) by (auto simp: list_all_iff dest: in_set_takeD)
  note encoded = sound_records_encoded [OF this, folded assms(5)]
  note prefix = consecutive_prefix [OF covered [THEN conjunct1]]
  show "list_all (\<lambda>f. frame_parameters f = ps) fs"
    by (rule consecutive_parameters [OF list_all2_mono [OF encoded]])
      (use covered in \<open>auto simp: list_all_iff take_map dest: in_set_takeD\<close>)
  show "length fs = length (take k recs)" using list_all2_lengthD [OF encoded] by simp
  have "concat (map scan_numbers fs) = map of_nat [0 ..< triggers_of (take k recs)]"
    using consecutive_scan_numbers [of 0 "take k recs" "triggers_of (take k recs)" fs] prefix [of k]
      list_all2_mono [OF encoded] by simp
  then show "map er_scan (concat (map encoded_data fs)) = map of_nat [0 ..< triggers_of (take k recs)]"
    by (simp add: map_concat scan_numbers_def [abs_def] comp_def)
  have "concat (map scan_samples fs) = concat (map gate_samples_of (take k recs))"
    by (rule encoded_samples_of [OF list_all2_mono [OF encoded]]) simp
  then show "map (\<lambda>er. decode_spectrum 0 (encoded_spectra er)) (concat (map encoded_data fs)) =
       concat (map gate_samples_of (take k recs))"
    by (simp add: map_concat scan_samples_def [abs_def] comp_def)
  show "triggers_of recs = unat (scans_acquired_count a)" using prefix by simp
  show "scans_acquired_count a = frame_length ps \<or> has_errored a \<or> list_ex id stops \<or> zw_measuring w = Inr True"
    using covered by simp
qed

lemma encoded_frames_append: "encoded_frames (xs @ ys) = encoded_frames xs @ encoded_frames ys"
  by (induction xs) (simp_all split: sum.split)

lemma encoded_frames_take: "set (encoded_frames (take k recs)) \<subseteq> set (encoded_frames recs)"
  by (metis append_take_drop_id encoded_frames_append set_append Un_upper1)

section \<open>Properties\<close>

text \<open>C2: from the card to the file, for every schedule of the acquisition thread, of a thread in
  \<open>stop(true)\<close> and of the three workers, on a chain of which nothing is left of an earlier frame. The frame
  names a file and its thread ends; \<open>recs\<close> are the records it publishes, each with the buffer its samples
  are in when it is encoded. When the worker of the file writer has ended, the file has one transaction for each of the first
  \<open>k\<close> records, in order; \<open>k\<close> is at least the number of records published before \<open>stop(true)\<close>
  completed the publisher, and may be less than all of them when some were published after. The rows of the
  transactions are, in order, those of the scans to be written among one scan per trigger of these records,
  numbered from 0, each with the samples of its trigger's gates; each row has the text of its scan and a blob
  that decompresses to its spectrum. The triggers of all records are the frame length, unless the frame failed,
  was stopped or the card was acquiring. It is assumed that the records are sound, that nothing undefined
  happened in the process (\<open>chain_frames\<close> is \<open>Inr\<close>), that memory has the size asked for and
  \<open>%lf\<close> prints as documented, that the file opens and takes every statement, and that each scan to be
  written has a spectrum and a base peak that prints.\<close>

theorem frame_is_archived:
  assumes "acquisition_thread zs1_streaming seg ps stops w = Ended_thread a" "unat seg < 2147483647"
    and "map snd recs = acq_records a" "list_all record_sound recs" "file_name ps \<noteq> []"
    and "chain_ready c" "chain_left c = recs" "chain_frames c = Inr q0"
    and "(ACQUIRE_FRAME, v) \<in> set (subscribers q0)" "handled (subscriber_at q0 v) = Writing (Inr before)"
    and "chain_run env c es c'" "chain_frames c' = Inr q" "worker_pc (subscriber_at q v) = Ended"
    and "\<And>n. length (se_contents env n) = n" "fixed_text (se_lf env)" "accepts (se_db env)" "se_opens env (file_name ps)"
    and "list_all (\<lambda>f. list_all (writable (se_rnd env) (frame_calibration (se_src env) ps) ps) (encoded_data f))
      (encoded_frames recs)"
  shows "\<exists>k ers rowss. published_before_stop es \<le> k \<and> k \<le> length recs \<and> length rowss = k \<and>
    map er_scan ers = map of_nat [0 ..< triggers_of (take k recs)] \<and>
    map (\<lambda>er. decode_spectrum 0 (encoded_spectra er)) ers = concat (map gate_samples_of (take k recs)) \<and>
    handled (subscriber_at q v) = Writing (Inr (before @ concat (map transaction rowss))) \<and>
    list_all2 (stores (se_lf env) (se_rnd env) (frame_calibration (se_src env) ps) ps) (filter (is_written ps) ers) (concat rowss) \<and>
    triggers_of recs = unat (scans_acquired_count a) \<and>
    (scans_acquired_count a = frame_length ps \<or> has_errored a \<or> list_ex id stops \<or> zw_measuring w = Inr True)"
proof -
  let ?c = "frame_calibration (se_src env) ps"
  obtain k where k: "published_before_stop es \<le> k" "k \<le> length recs"
      "handled (subscriber_at q v) =
        fold (sink_on_notify env) (filter has_file (encoded_frames (take k recs))) (Writing (Inr before))"
    using chain_sink_ended [OF assms(11,6) _ assms(8,12,9,13)] assms(4,7,10) by auto
  let ?fs = "encoded_frames (take k recs)"
  note frames = encoded_frames_of_prefix [where k = k, OF assms(1-4) refl]
  have all: "filter has_file ?fs = ?fs" using has_file_all [OF frames(1)] assms(5) by simp
  have "set ?fs \<subseteq> set (encoded_frames recs)" by (rule encoded_frames_take)
  then have "list_all (\<lambda>f. frame_parameters f = ps \<and> list_all (writable (se_rnd env) ?c ps) (encoded_data f)) ?fs"
    using frames(1) assms(18) by (auto simp: list_all_iff)
  from frames_archived [OF assms(14-17) refl this, of before] obtain rowss where
    "fold (sink_on_notify env) ?fs (Writing (Inr before)) = Writing (Inr (before @ concat (map transaction rowss)))"
    "length rowss = length ?fs"
    "list_all2 (stores (se_lf env) (se_rnd env) ?c ps) (filter (is_written ps) (concat (map encoded_data ?fs))) (concat rowss)"
    by blast
  then show ?thesis
    using k frames all
    by (intro exI [of _ k] exI [of _ "concat (map encoded_data ?fs)"] exI [of _ rowss]) simp
qed

definition archive_env :: sink_env where
  "archive_env =
     \<lparr>se_encode = (\<lambda>_. ''m''), se_opens = (\<lambda>_. True), se_db = (\<lambda>_ _. True), se_contents = (\<lambda>n. replicate n 7),
      se_lf = six_decimals, se_rnd = id, se_src = calibrated_source\<rparr>"

text \<open>The summing subscriber and the file writer take turns; \<open>stop(true)\<close> comes while the subject works.\<close>

definition archive_schedule :: "chain_event list" where
  "archive_schedule =
     [Subject_worked, Sink_worked 1, Record_published, Subject_worked, Subject_worked, Stop_signalled, Subject_worked,
      Sink_worked 0, Subject_worked, Subject_worked, Frames_completed] @
     concat (replicate 6 [Sink_worked 0, Sink_worked 1]) @ [Subject_ended]"

lemma archive_schedule_runs:
  assumes "to_frame (fst item) (snd item) = Inr f" "has_file f"
    and "zmq_on_notify (\<lambda>_. ''m'') f z = Inr (sent, z')" "writer_on_notify archive_env f [] = Inr rows"
  shows "\<exists>c q0 c' q. new_chain z [item] = Inr c \<and> chain_ready c \<and> chain_left c = [item] \<and> chain_frames c = Inr q0 \<and>
    (ACQUIRE_FRAME, 1) \<in> set (subscribers q0) \<and> handled (subscriber_at q0 1) = Writing (Inr []) \<and>
    chain_run archive_env c archive_schedule c' \<and> chain_frames c' = Inr q \<and>
    worker_pc (subscriber_at q 0) = Ended \<and> worker_pc (subscriber_at q 1) = Ended \<and> worker_pc (subject c') = Ended"
proof -
  obtain c where c: "new_chain z [item] = Inr c"
    by (simp add: new_chain_def register_subscriber_def setup_subscriber_def new_subscriber_def new_publisher_def map_subscriber_def)
  have kinds: "notify_type f = BOTH" using assms(2) by (simp add: notify_type_def has_file_def)
  have met: "type_and BOTH ACQUIRE \<noteq> 0" "type_and BOTH ACQUIRE_FRAME \<noteq> 0" "type_and BOTH BOTH \<noteq> 0"
    by (simp_all add: type_and_def ACQUIRE_def ACQUIRE_FRAME_def BOTH_def)
  have enc: "se_encode archive_env = (\<lambda>_. ''m'')" by (simp add: archive_env_def)
  note start = c [unfolded new_chain_def register_subscriber_def setup_subscriber_def new_subscriber_def new_publisher_def
      map_subscriber_def, simplified, symmetric]
  have "chain_ready c \<and> chain_left c = [item]"
    by (simp add: start chain_ready_def ready_to_publish_def chain_frames_def subject_def closing_def)
  moreover have "\<exists>c' q. chain_perform_all archive_env archive_schedule c = Some c' \<and> chain_frames c' = Inr q \<and>
      worker_pc (subscriber_at q 0) = Ended \<and> worker_pc (subscriber_at q 1) = Ended \<and> worker_pc (subject c') = Ended"
    unfolding archive_schedule_def
    by (simp add: start numeral_eq_Suc subject_def with_subject_def with_frames_def chain_frames_def map_subscriber_def
        worker_step_def drain_def notify_def notify_one_def update_def notify_completed_def process_on_completed_def
        all_completed_def subject_on_notify_def process_on_notify_def assms kinds met enc)
  ultimately show ?thesis
    using c chain_perform_all_run by (fastforce simp: start chain_frames_def subject_def)
qed

definition archived_ok :: "uimf_frame \<Rightarrow> bool" where
  "archived_ok f \<longleftrightarrow>
     has_file f \<and> frame_parameters f = file_parameters \<and>
     list_all (\<lambda>er. 1 < length (encoded_spectra er) \<and> length (encoded_spectra er) < 100) (encoded_data f) \<and>
     (case zmq_on_notify (\<lambda>_. ''m'') f (new_zmq_subscriber 104 1) of Inr _ \<Rightarrow> True | Inl _ \<Rightarrow> False)"

lemma example_frame:
  "\<exists>a item f. acquisition_thread zs1_streaming 10 file_parameters [False, False] example_world = Ended_thread a \<and>
    \<not> has_errored a \<and> with_first_buffer a = [item] \<and> record_sound item \<and>
    to_frame (fst item) (snd item) = Inr f \<and> archived_ok f"
proof -
  have "case acquisition_thread zs1_streaming 10 file_parameters [False, False] example_world of
      Ended_thread a \<Rightarrow> \<not> has_errored a \<and>
        (case with_first_buffer a of
           [item] \<Rightarrow> record_sound item \<and>
             (case to_frame (fst item) (snd item) of Inr f \<Rightarrow> archived_ok f | Inl _ \<Rightarrow> False)
         | _ \<Rightarrow> False)
    | _ \<Rightarrow> False"
    by code_simp
  then show ?thesis
    by (auto split: thread_end.splits list.splits sum.splits)
qed

lemma archived_ok_writable:
  assumes "archived_ok f"
  shows "list_all (writable id (frame_calibration calibrated_source file_parameters) file_parameters) (encoded_data f)"
proof -
  have "printable id (frame_calibration calibrated_source file_parameters) er" for er
    by (rule sane_calibration_printable) (simp_all add: calibrated_source_calibration sane_calibration_def)
  with assms show ?thesis by (auto simp: archived_ok_def list_all_iff writable_def storable_def)
qed

theorem frame_is_archived_witness:
  "\<exists>a c c' q rowss.
    acquisition_thread zs1_streaming 10 file_parameters [False, False] example_world = Ended_thread a \<and>
    new_chain (new_zmq_subscriber 104 1) (with_first_buffer a) = Inr c \<and>
    chain_run archive_env c archive_schedule c' \<and> chain_frames c' = Inr q \<and>
    handled (subscriber_at q 1) = Writing (Inr (concat (map transaction rowss))) \<and>
    length rowss = 1 \<and> length (concat rowss) = 1"
proof -
  obtain a item f where a: "acquisition_thread zs1_streaming 10 file_parameters [False, False] example_world = Ended_thread a"
      "\<not> has_errored a" "with_first_buffer a = [item]" "record_sound item" "to_frame (fst item) (snd item) = Inr f" "archived_ok f"
    using example_frame by blast
  note ok = a(6) [unfolded archived_ok_def]
  obtain sent z' where z: "zmq_on_notify (\<lambda>_. ''m'') f (new_zmq_subscriber 104 1) = Inr (sent, z')"
    using ok by (auto split: sum.splits)
  obtain rows where rows: "writer_on_notify archive_env f [] = Inr rows"
    using frame_archived [of "\<lambda>n. replicate n 7" six_decimals "\<lambda>_ _. True" "\<lambda>_. True" f id calibrated_source "[]"]
      archived_ok_writable [OF a(6)] ok
    by (auto simp: writer_on_notify_def archive_env_def fixed_text_six_decimals accepts_def)
  obtain c q0 c' q where c: "new_chain (new_zmq_subscriber 104 1) [item] = Inr c" "chain_ready c" "chain_left c = [item]"
      "chain_frames c = Inr q0" "(ACQUIRE_FRAME, 1) \<in> set (subscribers q0)" "handled (subscriber_at q0 1) = Writing (Inr [])"
      "chain_run archive_env c archive_schedule c'" "chain_frames c' = Inr q" "worker_pc (subscriber_at q 1) = Ended"
    using archive_schedule_runs [OF a(5) _ z rows] ok by blast
  have "map snd (with_first_buffer a) = acq_records a" by (simp add: with_first_buffer_def comp_def)
  then have recs: "map snd [item] = acq_records a" "list_all record_sound [item]"
    using a(3,4) by simp_all
  have frame: "unat (10 :: u64) < 2147483647" "file_name file_parameters \<noteq> []"
    by (simp_all add: file_parameters_def segment_parameters_def)
  have env: "length (se_contents archive_env n) = n" "fixed_text (se_lf archive_env)" "accepts (se_db archive_env)"
    "se_opens archive_env (file_name file_parameters)"
    "list_all (\<lambda>f. list_all (writable (se_rnd archive_env) (frame_calibration (se_src archive_env) file_parameters) file_parameters)
      (encoded_data f)) (encoded_frames [item])" for n
    using archived_ok_writable [OF a(6)] a(5)
    by (simp_all add: archive_env_def fixed_text_six_decimals accepts_def)
  from frame_is_archived [OF a(1) frame(1) recs frame(2) c(2-9) env] obtain k ers rowss where
    k: "published_before_stop archive_schedule \<le> k" "k \<le> length [item]" "length rowss = k"
      "map er_scan ers = map of_nat [0 ..< triggers_of (take k [item])]"
      "handled (subscriber_at q 1) = Writing (Inr ([] @ concat (map transaction rowss)))"
      "list_all2 (stores (se_lf archive_env) (se_rnd archive_env) (frame_calibration (se_src archive_env) file_parameters)
        file_parameters) (filter (is_written file_parameters) ers) (concat rowss)"
      "triggers_of [item] = unat (scans_acquired_count a)"
      "scans_acquired_count a = frame_length file_parameters \<or> has_errored a \<or> list_ex id [False, False] \<or>
        zw_measuring example_world = Inr True"
    by blast
  have "k = 1" using k(1,2) by (simp add: archive_schedule_def)
  moreover have "scans_acquired_count a = 1"
    using k(8) a(2) by (simp add: file_parameters_def segment_parameters_def example_world_def)
  ultimately obtain er where "ers = [er]" "er_scan er = 0"
    using k(4,7) by (auto simp: map_eq_Cons_conv)
  moreover from this have "is_written file_parameters er"
    by (simp add: is_written_def file_parameters_def segment_parameters_def)
  ultimately have "length (concat rowss) = 1" using list_all2_lengthD [OF k(6)] by simp
  with a(1,3) c(1,7,8) k(3,5) \<open>k = 1\<close> show ?thesis
    by (intro exI [of _ a] exI [of _ c] exI [of _ c'] exI [of _ q] exI [of _ rowss]) simp
qed

end
