(* ===== verification/LZF_Best.thy ===== *)
theory LZF_Best
  imports LZF_Roundtrip
begin

unbundle bit_operations_syntax

text \<open>
  The variant of the compressor that looks for the longest match (lzf_c_best.c, with the tables of lzfP.h). It
  follows a chain of positions with the same hash through two tables that the function never initialises: what
  they hold before the call is a parameter. A pointer is an address, \<open>base\<close> the one of the input; a pointer
  is only followed while it lies in the input before \<open>ip\<close>, and the null pointer lies before every object.
\<close>

section \<open>The tables\<close>

definition HASH :: "u8 \<Rightarrow> u8 \<Rightarrow> u8 \<Rightarrow> u16" where
  "HASH p0 p1 p2 = push_bit 6 (ucast p0) XOR push_bit 3 (ucast p1) XOR ucast p2"

record lzf_best_state = lzf_cursor +
  best_first :: "u16 \<Rightarrow> int"
  best_prev :: "int \<Rightarrow> u16"

text \<open>The most recent position with the hash of the one at \<open>ip\<close>, which takes its place.\<close>

definition enter_best :: "u8 list \<Rightarrow> int \<Rightarrow> lzf_best_state \<Rightarrow> (int \<times> lzf_best_state) result" where
  "enter_best xs base st =
     bindR (byte_at xs (ip st)) (\<lambda>p0.
     bindR (byte_at xs (ip st + 1)) (\<lambda>p1.
     bindR (byte_at xs (ip st + 2)) (\<lambda>p2.
       let h = HASH p0 p1 p2; here = base + int (ip st); p = best_first st h in
       Inr (p, st\<lparr>best_prev := (best_prev st)(here mod int max_off := word_of_int (here - p)),
                  best_first := (best_first st)(h := here)\<rparr>))))"

section \<open>The longest match\<close>

text \<open>The octets are compared before the bound is.\<close>

function extend_match :: "u8 list \<Rightarrow> nat \<Rightarrow> nat \<Rightarrow> nat \<Rightarrow> nat \<Rightarrow> nat result" where
  "extend_match xs r i e l =
     (case same_byte xs (r + l) (i + l) of
        Inl x \<Rightarrow> Inl x
      | Inr eq \<Rightarrow> if eq \<and> l < e then extend_match xs r i e (l + 1) else Inr l)"
  by pat_completeness auto
termination by (relation "measure (\<lambda>(xs, r, i, e, l). e - l)") auto

declare extend_match.simps [simp del]

definition try_match :: "u8 list \<Rightarrow> nat \<Rightarrow> nat \<Rightarrow> nat \<Rightarrow> nat \<times> nat \<Rightarrow> (nat \<times> nat) result" where
  "try_match xs r i e best =
     bindR (same_byte xs (r + 2) (i + 2)) (\<lambda>eq2.
     if \<not> eq2 then Inr best else
     bindR (same_byte xs (r + fst best) (i + fst best)) (\<lambda>longer.
     if \<not> longer then Inr best else
     bindR (same_byte xs (r + 1) (i + 1)) (\<lambda>eq1.
     if \<not> eq1 then Inr best else
     bindR (same_byte xs r i) (\<lambda>eq0.
     if \<not> eq0 then Inr best else
     bindR (extend_match xs r i e 3) (\<lambda>l. Inr (if fst best \<le> l then (l, r) else best))))))"

function best_scan :: "u8 list \<Rightarrow> int \<Rightarrow> (int \<Rightarrow> u16) \<Rightarrow> int \<Rightarrow> nat \<Rightarrow> nat \<Rightarrow> int \<Rightarrow> nat \<times> nat \<Rightarrow> (nat \<times> nat) result" where
  "best_scan xs base prev b i e p best =
     (if p < b then Inr best
      else
        (case try_match xs (nat (p - base)) i e best of
           Inl x \<Rightarrow> Inl x
         | Inr best' \<Rightarrow>
             (let diff = uint (prev (p mod int max_off)) in
              if diff = 0 then Inr best' else best_scan xs base prev b i e (p - diff) best')))"
  by pat_completeness auto
termination
proof (relation "measure (\<lambda>(xs, base, prev, b, i, e, p, best). nat (p + 1 - b))", goal_cases)
  case (2 xs base prev b i e p best x diff)
  then have "0 < diff" using uint_ge_0 [of "prev (p mod int max_off)"] by linarith
  with 2 show ?case by simp
qed simp

declare best_scan.simps [simp del]

definition find_match :: "u8 list \<Rightarrow> int \<Rightarrow> int \<Rightarrow> lzf_best_state \<Rightarrow> (nat \<times> nat) result" where
  "find_match xs base p st =
     (let i = ip st; e = min (length xs - i) max_ref - 1;
          b = (if i < max_off then base else base + int i - int max_off) in
      if p < base + int i then best_scan xs base (best_prev st) b i e p (0, 0) else Inr (0, 0))"

section \<open>One round of the loop\<close>

fun fill_best :: "u8 list \<Rightarrow> int \<Rightarrow> nat \<Rightarrow> lzf_best_state \<Rightarrow> lzf_best_state result" where
  "fill_best xs base 0 st = Inr st"
| "fill_best xs base (Suc n) st =
     bindR (enter_best xs base st) (\<lambda>(p, st1). fill_best xs base n (st1\<lparr>ip := ip st1 + 1\<rparr>))"

definition best_match_step :: "u8 list \<Rightarrow> int \<Rightarrow> nat \<Rightarrow> nat \<Rightarrow> lzf_best_state \<Rightarrow> lzf_best_state lzf_step result" where
  "best_match_step xs base m r st =
     (let len = m - 2; off = ip st - r - 1; unlit = (if lit st = 0 then 1 else 0) in
      if length (out st) \<le> op_pos st + 3 + 1 \<and> length (out st) \<le> op_pos st - unlit + 3 + 1
      then Inr (Returned_0 st)
      else
        bindR (stop_run st) (\<lambda>st1.
        bindR (write_ref off len (st1\<lparr>op_pos := op_pos st - unlit, ip := ip st + 1\<rparr>)) (\<lambda>st3.
        let st4 = st3\<lparr>lit := 0, op_pos := op_pos st3 + 1\<rparr> in
        if length xs \<le> ip st4 + (len + 1) + 2 then Inr (Broken (st4\<lparr>ip := ip st4 + (len + 1)\<rparr>))
        else bindR (fill_best xs base (len + 1) st4) (\<lambda>st5. Inr (Again st5)))))"

definition best_step :: "u8 list \<Rightarrow> int \<Rightarrow> lzf_best_state \<Rightarrow> lzf_best_state lzf_step" where
  "best_step xs base st =
     step_of
      (bindR (enter_best xs base st) (\<lambda>(p, st1).
       bindR (find_match xs base p st1) (\<lambda>(best_l, best_p).
       if best_l \<noteq> 0 then best_match_step xs base best_l best_p st1
       else if length (out st1) \<le> op_pos st1 then Inr (Returned_0 st1)
       else bindR (copy_literal xs st1) (\<lambda>st2. Inr (Again st2)))))"

lemma enter_best_ip: "enter_best xs base st = Inr (p, st') \<Longrightarrow> ip st' = ip st"
  by (auto simp: enter_best_def bindR_Inr_iff Let_def)

lemma fill_best_ip: "fill_best xs base n st = Inr st' \<Longrightarrow> ip st' = ip st + n"
  by (induction n arbitrary: st) (force simp: bindR_Inr_iff dest!: enter_best_ip)+

lemma best_match_step_ip: "best_match_step xs base m r st = Inr (Again st') \<Longrightarrow> ip st < ip st'"
  by (auto simp: best_match_step_def Let_def bindR_Inr_iff simp del: fill_best.simps
      dest!: write_ref_frame fill_best_ip split: if_splits)

lemma best_step_ip: "best_step xs base st = Again st' \<Longrightarrow> ip st < ip st'"
  by (cases "best_step xs base st")
    (auto simp: best_step_def bindR_Inr_iff elim!: step_of.elims
      dest!: best_match_step_ip copy_literal_ip enter_best_ip split: if_splits)

function best_loop :: "u8 list \<Rightarrow> int \<Rightarrow> lzf_best_state \<Rightarrow> lzf_best_state lzf_step" where
  "best_loop xs base st =
     (if ip st + 2 < length xs then
        (case best_step xs base st of
           Again st' \<Rightarrow> best_loop xs base st'
         | Broken st' \<Rightarrow> Broken st'
         | Returned_0 st' \<Rightarrow> Returned_0 st'
         | Fault e \<Rightarrow> Fault e)
      else Broken st)"
  by pat_completeness auto
termination
  by (relation "measure (\<lambda>(xs, base, st). length xs - ip st)") (auto dest: best_step_ip)

declare best_loop.simps [simp del]

definition lzf_compress_best :: "(u16 \<Rightarrow> int) \<Rightarrow> (int \<Rightarrow> u16) \<Rightarrow> int \<Rightarrow> u8 list \<Rightarrow> u8 list \<Rightarrow> (nat \<times> u8 list) result" where
  "lzf_compress_best first prev base xs buffer =
     (if xs = [] \<or> buffer = [] then Inr (0, buffer)
      else
        bindR (byte_at xs 0) (\<lambda>b.
        bindR (put 1 b \<lparr>ip = 0, op_pos = 1, lit = 0, out = buffer, best_first = first, best_prev = prev\<rparr>) (\<lambda>st.
        case best_loop xs base (st\<lparr>ip := 1, op_pos := 2, lit := 1\<rparr>) of
          Again st \<Rightarrow> finish_compress xs st
        | Broken st \<Rightarrow> finish_compress xs st
        | Returned_0 st \<Rightarrow> Inr (0, out st)
        | Fault e \<Rightarrow> Inl e)))"

section \<open>What a scan finds\<close>

text \<open>A match that can be written: long enough, near enough, inside the input and equal.\<close>

definition good_match :: "u8 list \<Rightarrow> nat \<Rightarrow> nat \<times> nat \<Rightarrow> bool" where
  "good_match xs i best \<longleftrightarrow>
     fst best = 0 \<or>
     3 \<le> fst best \<and> fst best \<le> 264 \<and> i + fst best < length xs \<and> snd best < i \<and> i - snd best - 1 < 8192 \<and>
     agree xs (snd best) i (fst best)"

text \<open>The only read outside the input: three octets are left, and occurred before.\<close>

definition reads_past :: "u8 list \<Rightarrow> nat \<Rightarrow> exn \<Rightarrow> bool" where
  "reads_past xs i x \<longleftrightarrow> x = Undefined ''input read'' \<and> i + 3 = length xs \<and> (\<exists>r < i. agree xs r i 3)"

lemma same_byte_cases:
  "r < i \<Longrightarrow> same_byte xs r i = (if i < length xs then Inr (xs ! r = xs ! i) else Inl (Undefined ''input read'')) \<or>
    length xs \<le> i"
  by (simp add: same_byte_value)

lemma same_byte_outside: "r < i \<Longrightarrow> length xs \<le> i \<Longrightarrow> same_byte xs r i = Inl (Undefined ''input read'')"
  by (simp add: same_byte_def byte_at_def)

lemma extend_match_agrees:
  assumes "agree xs r i l" "r < i" "i + l \<le> length xs" "i + e < length xs" "l \<le> max 3 e"
  shows "(\<exists>l'. extend_match xs r i e l = Inr l' \<and> l \<le> l' \<and> l' \<le> max 3 e \<and> i + l' < length xs \<and> agree xs r i l') \<or>
    (extend_match xs r i e l = Inl (Undefined ''input read'') \<and> i + l = length xs)"
  using assms
proof (induction "e - l" arbitrary: l rule: less_induct)
  case less
  show ?case
  proof (cases "i + l < length xs")
    case False
    with less.prems(2,3) show ?thesis
      by (subst extend_match.simps) (simp add: same_byte_outside)
  next
    case True
    then have same: "same_byte xs (r + l) (i + l) = Inr (xs ! (r + l) = xs ! (i + l))"
      using less.prems(2) by (simp add: same_byte_value)
    show ?thesis
    proof (cases "xs ! (r + l) = xs ! (i + l) \<and> l < e")
      case more: True
      have "agree xs r i (l + 1)" using less.prems(1) more by (simp add: agree_Suc)
      from less.hyps [OF _ this less.prems(2) _ less.prems(4)] more True less.prems(4)
      have "\<exists>l'. extend_match xs r i e (l + 1) = Inr l' \<and> l + 1 \<le> l' \<and> l' \<le> max 3 e \<and> i + l' < length xs \<and> agree xs r i l'"
        by fastforce
      with same more show ?thesis by (subst (1 2) extend_match.simps) auto
    next
      case False
      with same True less.prems show ?thesis
        by (subst (1 2) extend_match.simps) auto
    qed
  qed
qed

lemma same_byte_first: "agree xs r i 3 \<longleftrightarrow> xs ! r = xs ! i \<and> xs ! (r + 1) = xs ! (i + 1) \<and> xs ! (r + 2) = xs ! (i + 2)"
  by (auto simp: numeral_3_eq_3 numeral_2_eq_2 agree_Suc agree_def [of xs r i 0])

lemma try_match_good:
  assumes "good_match xs i best" "r < i" "i - r - 1 < 8192" "i + 2 < length xs" "e = min (length xs - i) max_ref - 1"
  shows "(\<exists>best'. try_match xs r i e best = Inr best' \<and> good_match xs i best') \<or>
    (\<exists>x. try_match xs r i e best = Inl x \<and> reads_past xs i x)"
proof -
  have longer: "i + fst best < length xs" using assms(1,4) by (auto simp: good_match_def)
  note reads = same_byte_value [of "r + 2" xs "i + 2"] same_byte_value [of "r + 1" xs "i + 1"] same_byte_value [of r xs i]
    same_byte_value [of "r + fst best" xs "i + fst best"]
  show ?thesis
  proof (cases "xs ! (r + fst best) = xs ! (i + fst best) \<and> agree xs r i 3")
    case False
    then have "try_match xs r i e best = Inr best"
      using reads longer assms(2,4) by (auto simp: try_match_def same_byte_first)
    with assms(1) show ?thesis by blast
  next
    case True
    then have attempt: "try_match xs r i e best = bindR (extend_match xs r i e 3) (\<lambda>l. Inr (if fst best \<le> l then (l, r) else best))"
      using reads longer assms(2,4) by (auto simp: try_match_def same_byte_first)
    have "i + 3 \<le> length xs" "i + e < length xs" "3 \<le> max 3 e" "max 3 e \<le> 264"
      using assms(4,5) by (auto simp: max_ref_def)
    with extend_match_agrees [of xs r i 3 e] True assms(2) consider
        l where "extend_match xs r i e 3 = Inr l" "3 \<le> l" "l \<le> 264" "i + l < length xs" "agree xs r i l"
      | "extend_match xs r i e 3 = Inl (Undefined ''input read'')" "i + 3 = length xs"
      by fastforce
    then show ?thesis
    proof cases
      case 1
      then show ?thesis using attempt assms(1-3) by (auto simp: good_match_def)
    next
      case 2
      then show ?thesis using attempt True assms(2) by (auto simp: reads_past_def)
    qed
  qed
qed

lemma best_scan_good:
  assumes "good_match xs i best" "i + 2 < length xs" "e = min (length xs - i) max_ref - 1"
    and "base \<le> b" "base + int i - 8192 \<le> b" "p < base + int i"
  shows "(\<exists>best'. best_scan xs base prev b i e p best = Inr best' \<and> good_match xs i best') \<or>
    (\<exists>x. best_scan xs base prev b i e p best = Inl x \<and> reads_past xs i x)"
  using assms
proof (induction xs base prev b i e p best rule: best_scan.induct)
  case (1 xs base prev b i e p best)
  show ?case
  proof (cases "p < b")
    case True
    with "1.prems"(1) show ?thesis by (subst best_scan.simps) simp
  next
    case False
    have near: "nat (p - base) < i" "i - nat (p - base) - 1 < 8192"
      using False "1.prems"(4-6) by linarith+
    from try_match_good [OF "1.prems"(1) near "1.prems"(2,3)] show ?thesis
    proof (elim disjE exE conjE)
      fix best'
      assume t: "try_match xs (nat (p - base)) i e best = Inr best'" "good_match xs i best'"
      let ?diff = "uint (prev (p mod int max_off))"
      show ?thesis
      proof (cases "?diff = 0")
        case True
        with t False show ?thesis by (subst (1 2) best_scan.simps) simp
      next
        case more: False
        have "p - ?diff < base + int i" using "1.prems"(6) uint_ge_0 [of "prev (p mod int max_off)"] by linarith
        from "1.IH" [OF False t(1) refl more t(2) "1.prems"(2-5) this] more t False show ?thesis
          by (subst (1 2) best_scan.simps) simp
      qed
    next
      fix x
      assume "try_match xs (nat (p - base)) i e best = Inl x" "reads_past xs i x"
      with False show ?thesis by (subst (1 2) best_scan.simps) simp
    qed
  qed
qed

lemma find_match_good:
  assumes "ip st + 2 < length xs"
  shows "(\<exists>best. find_match xs base p st = Inr best \<and> good_match xs (ip st) best) \<or>
    (\<exists>x. find_match xs base p st = Inl x \<and> reads_past xs (ip st) x)"
proof (cases "p < base + int (ip st)")
  case True
  have "good_match xs (ip st) (0, 0)" by (simp add: good_match_def)
  from best_scan_good [OF this assms refl _ _ True,
      of "if ip st < max_off then base else base + int (ip st) - int max_off" "best_prev st"]
  show ?thesis using True by (simp add: find_match_def Let_def max_off_def split: if_splits)
qed (simp add: find_match_def good_match_def)

section \<open>The invariant\<close>

lemma enter_best_value:
  "ip st + 2 < length xs \<Longrightarrow> \<exists>p f g. enter_best xs base st = Inr (p, st\<lparr>best_prev := f, best_first := g\<rparr>)"
  by (auto simp: enter_best_def byte_at_def Let_def)

lemma fill_best_value:
  "ip st + n + 1 < length xs \<Longrightarrow> \<exists>f g. fill_best xs base n st = Inr (st\<lparr>best_prev := f, best_first := g, ip := ip st + n\<rparr>)"
proof (induction n arbitrary: st)
  case 0
  show ?case by (rule exI [of _ "best_prev st"], rule exI [of _ "best_first st"]) simp
next
  case (Suc n)
  then have "ip st + 2 < length xs" by simp
  from enter_best_value [OF this] obtain p f g where e: "enter_best xs base st = Inr (p, st\<lparr>best_prev := f, best_first := g\<rparr>)"
    by blast
  from Suc.IH [of "st\<lparr>best_prev := f, best_first := g, ip := ip st + 1\<rparr>"] Suc.prems show ?case
    by (auto simp: e)
qed

lemma compress_inv_tables:
  "compress_inv xs cap (st\<lparr>best_prev := f, best_first := g\<rparr>) ts = compress_inv xs cap st ts"
  by (simp add: compress_inv_def run_start_def)

lemma best_match_step_inv:
  assumes "compress_inv xs cap st ts" "good_match xs (ip st) (m, r)" "m \<noteq> 0"
  shows "best_match_step xs base m r st = Inr (Returned_0 st) \<or>
    (\<exists>st' us. (best_match_step xs base m r st = Inr (Again st') \<or>
        best_match_step xs base m r st = Inr (Broken st') \<and> length xs \<le> ip st' + 2) \<and> compress_inv xs cap st' us)"
proof -
  let ?unlit = "if lit st = 0 then 1 else (0 :: nat)" and ?off = "ip st - r - 1"
  have inv: "length (out st) = cap"
    using assms(1) by (simp add: compress_inv_def)
  have m: "3 \<le> m" "m \<le> 264" "ip st + m \<le> length xs" "r < ip st" "?off < 8192" "agree xs r (ip st) m"
    using assms(2,3) by (auto simp: good_match_def)
  show ?thesis
  proof (cases "cap \<le> op_pos st + 3 + 1 \<and> cap \<le> op_pos st - ?unlit + 3 + 1")
    case True
    then show ?thesis using inv by (simp add: best_match_step_def Let_def)
  next
    case False
    then have room: "op_pos st - ?unlit + 4 < cap" by auto
    obtain st1 st3 us where st1: "stop_run st = Inr st1" "ip st1 = ip st"
      and st3: "write_ref ?off (m - 2) (st1\<lparr>op_pos := op_pos st - ?unlit, ip := ip st + 1\<rparr>) = Inr st3" "ip st3 = ip st + 1"
      and inv_m: "compress_inv xs cap (st3\<lparr>lit := 0, op_pos := op_pos st3 + 1, ip := ip st + m\<rparr>) us"
      using emit_match [OF assms(1) room m(4,5,1-3,6)] by blast
    let ?st4 = "st3\<lparr>lit := 0, op_pos := op_pos st3 + 1\<rparr>"
    have ip4: "ip ?st4 + (m - 2 + 1) = ip st + m" using st3(2) m(1) by simp
    have step: "best_match_step xs base m r st =
        (if length xs \<le> ip st + m + 2 then Inr (Broken (?st4\<lparr>ip := ip st + m\<rparr>))
         else bindR (fill_best xs base (m - 2 + 1) ?st4) (\<lambda>st5. Inr (Again st5)))"
      using False inv st1(1) st3(1) ip4 by (auto simp: best_match_step_def Let_def simp del: fill_best.simps)
    show ?thesis
    proof (cases "length xs \<le> ip st + m + 2")
      case True
      with step inv_m show ?thesis by auto
    next
      case more: False
      then have "ip ?st4 + (m - 2 + 1) + 1 < length xs" using ip4 by simp
      from fill_best_value [OF this] obtain f g where
        "fill_best xs base (m - 2 + 1) ?st4 = Inr (?st4\<lparr>best_prev := f, best_first := g, ip := ip st + m\<rparr>)"
        unfolding ip4 by blast
      moreover have "compress_inv xs cap (?st4\<lparr>best_prev := f, best_first := g, ip := ip st + m\<rparr>) us"
        using inv_m by (simp add: compress_inv_def run_start_def)
      ultimately show ?thesis using step more by auto
    qed
  qed
qed

lemma best_step_inv:
  assumes "compress_inv xs cap st ts" "ip st + 2 < length xs"
  shows "(\<exists>st' us. best_step xs base st = Again st' \<and> compress_inv xs cap st' us) \<or>
    (\<exists>st' us. best_step xs base st = Broken st' \<and> compress_inv xs cap st' us \<and> length xs \<le> ip st' + 2) \<or>
    (\<exists>st'. best_step xs base st = Returned_0 st' \<and> length (out st') = cap) \<or>
    (\<exists>x. best_step xs base st = Fault x \<and> reads_past xs (ip st) x)"
proof -
  obtain p f g where e: "enter_best xs base st = Inr (p, st\<lparr>best_prev := f, best_first := g\<rparr>)"
    using enter_best_value [OF assms(2)] by blast
  let ?st1 = "st\<lparr>best_prev := f, best_first := g\<rparr>"
  have inv1: "compress_inv xs cap ?st1 ts" using assms(1) by (simp add: compress_inv_tables)
  have len: "length (out ?st1) = cap" using inv1 by (simp add: compress_inv_def)
  have ip1: "ip ?st1 + 2 < length xs" using assms(2) by simp
  from find_match_good [OF ip1, of base p] show ?thesis
  proof (elim disjE exE conjE)
    fix x
    assume "find_match xs base p ?st1 = Inl x" "reads_past xs (ip ?st1) x"
    then show ?thesis by (simp add: best_step_def e)
  next
    fix best
    assume find: "find_match xs base p ?st1 = Inr best" "good_match xs (ip ?st1) best"
    obtain m r where best: "best = (m, r)" by fastforce
    show ?thesis
    proof (cases "m = 0")
      case False
      have good: "good_match xs (ip ?st1) (m, r)" using find(2) best by simp
      have "best_step xs base st = step_of (best_match_step xs base m r ?st1)"
        using find(1) best False by (simp add: best_step_def e)
      with best_match_step_inv [OF inv1 good False, of base] len show ?thesis by auto
    next
      case True
      show ?thesis
      proof (cases "cap \<le> op_pos st")
        case full: True
        then have "best_step xs base st = Returned_0 ?st1"
          using find(1) best True len by (simp add: best_step_def e)
        with len show ?thesis by blast
      next
        case room: False
        have "ip ?st1 < length xs" "op_pos ?st1 < cap" using ip1 room by simp_all
        then obtain st' us where c: "copy_literal xs ?st1 = Inr st'" "compress_inv xs cap st' us"
          using copy_literal_ex [OF inv1] by blast
        then have "best_step xs base st = Again st'"
          using find(1) best True room len by (simp add: best_step_def e)
        with c(2) show ?thesis by blast
      qed
    qed
  qed
qed

lemma best_loop_inv:
  assumes "compress_inv xs cap st ts"
  shows "(\<exists>st' us. best_loop xs base st = Broken st' \<and> compress_inv xs cap st' us \<and> length xs \<le> ip st' + 2) \<or>
    (\<exists>st'. best_loop xs base st = Returned_0 st' \<and> length (out st') = cap) \<or>
    (\<exists>x i. best_loop xs base st = Fault x \<and> reads_past xs i x)"
  using assms
proof (induction xs base st arbitrary: ts rule: best_loop.induct)
  case (1 xs base st)
  note unfold = best_loop.simps [of xs base st]
  show ?case
  proof (cases "ip st + 2 < length xs")
    case True
    from best_step_inv [OF 1(2) True, of base] show ?thesis
    proof (elim disjE exE conjE)
      fix st' us
      assume "best_step xs base st = Again st'" "compress_inv xs cap st' us"
      with 1(1) [OF True, of st' us] True show ?thesis
        unfolding unfold by simp
    qed (use True in \<open>unfold unfold, auto\<close>)+
  next
    case False
    with 1(2) show ?thesis unfolding unfold by auto
  qed
qed

lemma lzf_compress_best_cases:
  assumes "xs \<noteq> []" "2 \<le> length buffer"
  shows "(\<exists>ys. lzf_compress_best first prev base xs buffer = Inr (0, ys) \<and> length ys = length buffer) \<or>
    (\<exists>us ys. lzf_compress_best first prev base xs buffer = Inr (length (encode_tokens us), ys) \<and>
      length ys = length buffer \<and> take (length (encode_tokens us)) ys = encode_tokens us \<and> expand us [] = Some xs \<and>
      length (encode_tokens us) \<le> length buffer) \<or>
    (\<exists>x i. lzf_compress_best first prev base xs buffer = Inl x \<and> reads_past xs i x)"
proof -
  let ?st0 = "\<lparr>ip = 0, op_pos = 1, lit = 0, out = buffer, best_first = first, best_prev = prev\<rparr>"
  let ?st = "?st0\<lparr>out := buffer[1 := xs ! 0], ip := 1, op_pos := 2, lit := 1\<rparr>"
  have ne: "buffer \<noteq> []" using assms(2) by auto
  have inv: "compress_inv xs (length buffer) ?st []"
    using assms by (cases xs; cases buffer; cases "tl buffer") (auto simp: compress_inv_def run_start_def)
  have call: "lzf_compress_best first prev base xs buffer =
      (case best_loop xs base ?st of
          Again st \<Rightarrow> finish_compress xs st
        | Broken st \<Rightarrow> finish_compress xs st
        | Returned_0 st \<Rightarrow> Inr (0, out st)
        | Fault e \<Rightarrow> Inl e)"
    using assms ne by (simp add: lzf_compress_best_def byte_at_def put_def)
  from best_loop_inv [OF inv, of base] show ?thesis
  proof (elim disjE exE conjE)
    fix st us
    assume loop: "best_loop xs base ?st = Broken st" "compress_inv xs (length buffer) st us" "length xs \<le> ip st + 2"
    with finish_compress_cases [OF loop(2,3)] call show ?thesis
      by (auto simp: compress_inv_def)
  qed (use call in auto)
qed

section \<open>Properties\<close>

text \<open>C26: the variant that looks for the longest match writes the same format: whatever its uninitialised tables
  hold and wherever its input lies, a returned length is inside the buffer and the octets decompress to the
  input. It never writes outside a buffer of two octets or more, and the one thing it reads outside its input is
  the octet behind it, when the last three octets occurred before.\<close>

theorem lzf_best_roundtrip:
  assumes "xs \<noteq> []" "2 \<le> length buffer" "length xs \<le> limit"
  shows "case lzf_compress_best first prev base xs buffer of
      Inl x \<Rightarrow> x = Undefined ''input read'' \<and> 3 < length xs \<and>
        (\<exists>r < length xs - 3. take 3 (drop r xs) = drop (length xs - 3) xs)
    | Inr (n, ys) \<Rightarrow> length ys = length buffer \<and> n \<le> length buffer \<and>
        (n = 0 \<or> lzf_decompress (take n ys) limit = Decoded xs)"
proof -
  have past: "x = Undefined ''input read'' \<and> 3 < length xs \<and> (\<exists>r < length xs - 3. take 3 (drop r xs) = drop (length xs - 3) xs)"
    if "reads_past xs i x" for x i
  proof -
    from that obtain r where r: "x = Undefined ''input read''" "i + 3 = length xs" "r < i" "agree xs r i 3"
      by (auto simp: reads_past_def)
    then have i: "length xs - 3 = i" by simp
    have "take 3 (drop r xs) = drop (length xs - 3) xs"
      unfolding i by (rule nth_equalityI) (use r in \<open>auto simp: agree_def\<close>)
    with r(1,3) i show ?thesis by (intro conjI exI [of _ r]) (use r(2) in auto)
  qed
  from lzf_compress_best_cases [OF assms(1,2), of first prev base] show ?thesis
  proof (elim disjE exE conjE)
    fix us ys
    assume r: "lzf_compress_best first prev base xs buffer = Inr (length (encode_tokens us), ys)"
      "length ys = length buffer" "take (length (encode_tokens us)) ys = encode_tokens us" "expand us [] = Some xs"
      "length (encode_tokens us) \<le> length buffer"
    have "us \<noteq> []" using r(4) assms(1) by auto
    with decode_loop_tokens [OF r(4) _ assms(3), of "[]"] r show ?thesis
      by (simp add: lzf_decompress_def)
  next
    fix x i
    assume "lzf_compress_best first prev base xs buffer = Inl x" "reads_past xs i x"
    with past show ?thesis by simp
  qed simp
qed

theorem lzf_best_roundtrip_witness:
  "\<exists>n ys. lzf_compress_best (\<lambda>_. 7) (\<lambda>_. 3) 65536 small_input (replicate 20 0) = Inr (n, ys) \<and> n = 9 \<and>
    lzf_decompress (take n ys) 10 = Decoded small_input"
proof -
  have c: "lzf_compress_best (\<lambda>_. 7) (\<lambda>_. 3) 65536 small_input (replicate 20 0) =
      Inr (9, [3, 1, 2, 3, 1, 96, 2, 0, 9] @ replicate 11 0)"
    by code_simp
  have "small_input \<noteq> []" "2 \<le> length (replicate 20 (0 :: u8))" "length small_input \<le> 10"
    by (simp_all add: small_input_def)
  from lzf_best_roundtrip [OF this, of "\<lambda>_. 7" "\<lambda>_. 3" 65536] c show ?thesis by simp
qed

text \<open>The read behind the input happens, and so does a write behind a buffer of one octet.\<close>

lemma best_reads_past_end:
  "lzf_compress_best (\<lambda>_. 0) (\<lambda>_. 0) 65536 [9, 1, 2, 3, 1, 2, 3] (replicate 20 0) = Inl (Undefined ''input read'')"
  by code_simp

lemma best_writes_past_end: "lzf_compress_best first prev base [1] [0] = Inl (Undefined ''output write'')"
  by (simp add: lzf_compress_best_def byte_at_def put_def)

end
