(* ===== verification/Data_Generator.thy ===== *)
theory Data_Generator
  imports Acquire_Publisher
begin

text \<open>
  The context of a test build (diagnostic/datageneratorcontext.h), which stands in for the card: it numbers its
  triggers one pusher period of 200000 samples apart, gives each the same gate, and hands out 400 samples of zero.
  The counter of the loop is an \<open>int\<close>; the delay before the loop is left out. It promises the acquisition
  thread the same as the context of the console does.
\<close>

section \<open>DataGeneratorContext\<close>

record generator_context =
  tof_width :: u64
  acq_count :: u64

definition new_generator_context :: generator_context where
  "new_generator_context = \<lparr>tof_width = 200000, acq_count = 0\<rparr>"

text \<open>The counter is passed by reference, so the index of a trigger is the counter after its increment.\<close>

definition generate_trigger :: "generator_context \<Rightarrow> trigger_data \<times> generator_context" where
  "generate_trigger g =
     (let g' = g\<lparr>acq_count := acq_count g + 1\<rparr>;
          trig = new_trigger_data (acq_count g * tof_width g) (ucast (acq_count g')) 0 in
      (trig\<lparr>trig_gates := trig_gates trig @
          [\<lparr>gate_start_block_index = 5000, gate_start_sample_pos = 1,
            gate_stop_block_index = 5001, gate_stop_sample_pos = 5, element_count = 2\<rparr>]\<rparr>, g'))"

fun generate_triggers :: "nat \<Rightarrow> generator_context \<Rightarrow> trigger_data list \<times> generator_context" where
  "generate_triggers 0 g = ([], g)"
| "generate_triggers (Suc n) g =
     (let (trig, g1) = generate_trigger g; (trigs, g2) = generate_triggers n g1 in (trig # trigs, g2))"

text \<open>An \<open>int\<close> that counts up to a number beyond its type overflows.\<close>

definition generator_acquire ::
  "u64 \<Rightarrow> generator_context \<Rightarrow> buffer_pool \<Rightarrow> (generator_context \<times> buffer_pool) \<times> acquired_data ending" where
  "generator_acquire triggers_per_read g p =
     (if 2147483647 < triggers_per_read then ((g, p), Threw (Undefined ''int overflow''))
      else
        (let (trigger_data, g') = generate_triggers (unat triggers_per_read) g;
             (k, p1) = get_buffer p; b = buffer_of p1 k in
         case write_at (get_raw_data b) (replicate 400 0) b of
           Inl e \<Rightarrow> ((g', p1), Threw e)
         | Inr b' \<Rightarrow>
             ((g', set_buffer k (advance_acquired 400 b') p1),
              Done \<lparr>samples_slot = k, stamps = trigger_data, samples_count = 800\<rparr>)))"

section \<open>The context of the acquisition thread\<close>

record generator_world =
  gw_context :: generator_context
  gw_pool :: buffer_pool
  gw_measuring :: "bool result"

definition generator_streaming :: "generator_world streaming" where
  "generator_streaming =
     \<lparr>sc_is_acquiring = gw_measuring, sc_start = Inr, sc_stop = Inr,
      sc_acquire = (\<lambda>n w. case generator_acquire n (gw_context w) (gw_pool w) of
        ((g, p), r) \<Rightarrow> (w\<lparr>gw_context := g, gw_pool := p\<rparr>, r))\<rparr>"

section \<open>What it generates\<close>

definition generated :: "generator_context \<Rightarrow> nat \<Rightarrow> trigger_data" where
  "generated g k = fst (generate_trigger (g\<lparr>acq_count := acq_count g + of_nat k\<rparr>))"

definition after :: "nat \<Rightarrow> generator_context \<Rightarrow> generator_context" where
  "after n g = g\<lparr>acq_count := acq_count g + of_nat n\<rparr>"

lemma after_after [simp]: "after n (after m g) = after (m + n) g"
  by (simp add: after_def ac_simps)

lemma generated_after [simp]: "generated (after m g) k = generated g (m + k)"
  by (simp add: generated_def after_def ac_simps)

lemma generate_trigger_eq: "generate_trigger g = (generated g 0, after 1 g)"
  by (simp add: generated_def after_def generate_trigger_def Let_def)

lemma generate_triggers_eq: "generate_triggers n g = (map (generated g) [0 ..< n], after n g)"
proof (induction n arbitrary: g)
  case 0
  show ?case by (simp add: after_def)
next
  case (Suc n)
  have "map (generated g) [0 ..< Suc n] = generated g 0 # map (\<lambda>k. generated g (1 + k)) [0 ..< n]"
    by (simp add: upt_conv_Cons map_Suc_upt [symmetric] comp_def del: upt_Suc)
  then show ?case
    by (simp add: generate_trigger_eq Suc.IH comp_def del: upt_Suc)
qed

text \<open>The numbers of a trigger, and the bins of its gate.\<close>

lemma generated_stamp:
  "trig_timestamp (generated g k) = (acq_count g + of_nat k) * tof_width g"
  "trig_index (generated g k) = ucast (acq_count g + of_nat k + 1)"
  "map (\<lambda>gt. (get_start_sample_index gt, get_stop_sample_index gt, element_count gt)) (trig_gates (generated g k)) =
     [(39993, 39997, 2)]"
  by (simp_all add: generated_def generate_trigger_def Let_def new_trigger_data_def get_start_sample_index_def
      get_stop_sample_index_def processing_block_size_def)

lemma generator_acquire_Done:
  assumes "generator_acquire n g p = ((g', p'), Done d)"
  shows "stamps d = map (generated g) [0 ..< unat n]" "g' = after (unat n) g"
    "take 400 (buf_data (buffer_of p' (samples_slot d))) = replicate 400 0"
proof -
  obtain k p1 where k: "get_buffer p = (k, p1)" by fastforce
  then have "k < length (samples_buffer_pool p1)" by (rule get_buffer_positions(4))
  with assms k show "stamps d = map (generated g) [0 ..< unat n]" "g' = after (unat n) g"
    "take 400 (buf_data (buffer_of p' (samples_slot d))) = replicate 400 0"
    by (auto simp: generator_acquire_def generate_triggers_eq Let_def set_buffer_def buffer_of_def advance_acquired_def
        get_raw_data_def dest!: write_at_data split: if_splits sum.splits)
qed

interpretation generator_counted: counted_context generator_streaming 2147483647
proof
  fix n w w' d
  assume "sc_acquire generator_streaming n w = (w', Done d)" "unat n \<le> 2147483647"
  then show "length (stamps d) = unat n"
    by (auto simp: generator_streaming_def split: prod.splits dest!: generator_acquire_Done(1))
qed

section \<open>The triggers of a frame\<close>

text \<open>Over all the segments of a frame the triggers follow one another, and the counter goes on from frame to
  frame, since nothing resets it.\<close>

lemma consecutive_length:
  "consecutive k rs = Some m \<Longrightarrow> m = k + length (concat (map (\<lambda>r. stamps (acquiredData r)) rs))"
  by (induction k rs arbitrary: m rule: consecutive.induct) (auto split: if_splits)

definition in_sequence :: "generator_context \<Rightarrow> generator_world acquisition \<Rightarrow> bool" where
  "in_sequence g a \<longleftrightarrow>
     (\<exists>n. concat (map (\<lambda>r. stamps (acquiredData r)) (acq_records a)) = map (generated g) [0 ..< n] \<and>
       gw_context (acq_world a) = after n g)"

lemma in_sequence_segment:
  assumes "in_sequence g a" "acquire_segment generator_streaming seg ps a = Acquired a'" "\<not> has_errored a'"
  shows "in_sequence g a'"
proof -
  from assms(2,3) obtain g1 p1 d where d: "generator_acquire
      (to_acquire_count (frame_length ps) (scans_acquired_count a) seg) (gw_context (acq_world a))
      (gw_pool (acq_world a)) = ((g1, p1), Done d)"
    "a' = a\<lparr>acq_world := (acq_world a)\<lparr>gw_context := g1, gw_pool := p1\<rparr>,
       acq_records := acq_records a @
         [\<lparr>rec_parameters = ps, acquiredData = d, start_scan_index = scans_acquired_count a\<rparr>],
       scans_acquired_count := scans_acquired_count a + of_nat (length (stamps d))\<rparr>"
    by (auto simp: acquire_segment_def generator_streaming_def split: prod.splits ending.splits exn.splits)
  from assms(1) obtain n where n:
    "concat (map (\<lambda>r. stamps (acquiredData r)) (acq_records a)) = map (generated g) [0 ..< n]"
    "gw_context (acq_world a) = after n g"
    by (auto simp: in_sequence_def)
  let ?m = "unat (to_acquire_count (frame_length ps) (scans_acquired_count a) seg)"
  have "stamps d = map (\<lambda>k. generated g (n + k)) [0 ..< ?m]" "g1 = after (n + ?m) g"
    using generator_acquire_Done(1,2) [OF d(1)] n(2) by simp_all
  moreover have "map (generated g) [0 ..< n] @ map (\<lambda>k. generated g (n + k)) [0 ..< ?m] = map (generated g) [0 ..< n + ?m]"
    by (rule nth_equalityI) (auto simp: nth_append)
  ultimately show ?thesis
    unfolding in_sequence_def by (intro exI [of _ "n + ?m"]) (simp add: d(2) n(1))
qed

lemma in_sequence_loop:
  assumes "acquire_loop generator_streaming seg ps stops a = Loop_done a'" "in_sequence g a" "\<not> has_errored a'"
  shows "in_sequence g a'"
  using assms
proof (induction stops arbitrary: a)
  case Nil
  then show ?case by (subst (asm) acquire_loop.simps) (auto split: if_splits)
next
  case (Cons stop stops)
  show ?case
  proof (cases "scans_acquired_count a < frame_length ps \<and> \<not> has_errored a \<and> \<not> stop")
    case True
    with Cons.prems(1) obtain a1 where a1: "acquire_segment generator_streaming seg ps a = Acquired a1"
        "acquire_loop generator_streaming seg ps stops a1 = Loop_done a'"
      by (subst (asm) acquire_loop.simps) (auto split: segment.splits)
    have "\<not> has_errored a1"
      using a1(2) Cons.prems(3) by (subst (asm) acquire_loop.simps) (auto split: if_splits)
    with Cons.IH [OF a1(2) _ Cons.prems(3)] in_sequence_segment [OF Cons.prems(2) a1(1)] show ?thesis by simp
  next
    case False
    with Cons.prems show ?thesis by (subst (asm) acquire_loop.simps) (auto split: if_splits)
  qed
qed

lemma generated_frame:
  assumes "acquisition_thread generator_streaming seg ps stops w = Ended_thread a" "unat seg < 2147483648"
    and "\<not> has_errored a"
  shows "concat (map (\<lambda>r. stamps (acquiredData r)) (acq_records a)) =
      map (generated (gw_context w)) [0 ..< unat (scans_acquired_count a)]"
    "scans_acquired_count a = frame_length ps \<or> list_ex id stops \<or> gw_measuring w = Inr True"
proof -
  have most: "unat seg \<le> 2147483647" using assms(2) by simp
  note covers = generator_counted.thread_covers [OF assms(1) most]
  have fin: "finish_thread generator_streaming b = Ended_thread a \<Longrightarrow>
      acq_records a = acq_records b \<and> acq_world a = acq_world b \<and> has_errored a = has_errored b" for b
    by (auto simp: finish_thread_def generator_streaming_def)
  have new: "in_sequence (gw_context w) (new_acquisition w)"
    by (simp add: in_sequence_def new_acquisition_def after_def exI [of _ 0])
  from assms(1) consider "finish_thread generator_streaming (new_acquisition w) = Ended_thread a"
    | b where "acquire_loop generator_streaming seg ps stops (new_acquisition w) = Loop_done b"
        "finish_thread generator_streaming b = Ended_thread a"
    by (auto simp: acquisition_thread_def generator_streaming_def split: sum.splits bool.splits loop_end.splits)
  then have "in_sequence (gw_context w) a"
  proof cases
    case 1
    with fin [OF 1] new show ?thesis by (simp add: in_sequence_def)
  next
    case (2 b)
    with fin [OF 2(2)] in_sequence_loop [OF 2(1) new] assms(3) show ?thesis by (simp add: in_sequence_def)
  qed
  then obtain n where n: "concat (map (\<lambda>r. stamps (acquiredData r)) (acq_records a)) = map (generated (gw_context w)) [0 ..< n]"
    by (auto simp: in_sequence_def)
  have "consecutive 0 (acq_records a) = Some (unat (scans_acquired_count a))" using covers by simp
  from consecutive_length [OF this] have "n = unat (scans_acquired_count a)"
    using arg_cong [OF n, of length] by simp
  with n covers assms(3) show "concat (map (\<lambda>r. stamps (acquiredData r)) (acq_records a)) =
      map (generated (gw_context w)) [0 ..< unat (scans_acquired_count a)]"
    "scans_acquired_count a = frame_length ps \<or> list_ex id stops \<or> gw_measuring w = Inr True"
    by (auto simp: generator_streaming_def)
qed

end
