(* ===== verification/Console.thy ===== *)
theory Console
  imports Settings Timing Messages_Roundtrip Process_Subject Acquire_Publisher Server
begin

text \<open>
  The request handler of the console: every command of the protocol on the state it works on, which is the
  card, the sampling rate, the buffer pool and the acquisition chain the last \<open>acquire\<close> built. What is
  not the program's own is the environment: the driver, the compression, the hash, the number of instruments
  VISA finds and the texts of the build. Log lines are left out.
\<close>

section \<open>State and environment\<close>

record 'f console_env =
  env_settings :: settings
  env_driver :: "rat driver"
  env_round :: "rat \<Rightarrow> rat"
  env_infinite :: rat
  env_band_text :: "u64 \<Rightarrow> rat \<Rightarrow> string"
  env_format :: "rat \<Rightarrow> string"
  env_instruments :: u32
  env_uncompress :: "string \<Rightarrow> string"
  env_sha256 :: "string \<Rightarrow> string"
  env_wire :: "'f wire"
  env_alive :: "nat \<Rightarrow> bool"
  env_project :: string
  env_version :: string
  env_commit :: string
  env_fork :: string
  env_branch :: string

record console =
  con_card :: card_state
  con_info :: digitizer_info
  con_sampling_rate :: rat
  con_pool :: "buffer_pool option"
  con_context :: "string option"
  con_controller :: "acquire_publisher option"
  con_records :: "(uimf_acquisition_record, unit) publisher option"
  con_subject :: "unit process_subject option"
  con_zmq :: "zmq_subscriber option"
  con_started :: "uimf_frame_parameters list"
  con_publishers :: publisher_table
  con_post_trigger_samples :: u32
  con_tof_period :: u64

definition start_console :: "'f console_env \<Rightarrow> card_state \<Rightarrow> console" where
  "start_console env st =
     (case new_sa220 (env_driver env) (resource_name (env_settings env)) False (card_calls st) of
        (info, calls) \<Rightarrow>
          \<lparr>con_card = st\<lparr>card_calls := calls\<rparr>, con_info = info, con_sampling_rate = 0, con_pool = None,
           con_context = None, con_controller = None, con_records = None, con_subject = None, con_zmq = None,
           con_started = [], con_publishers = \<lparr>table_publishers = Map.empty, table_next = 0\<rparr>,
           con_post_trigger_samples = 0, con_tof_period = 0\<rparr>)"

text \<open>
  How a command leaves the loop over the frames of its request, with the responses it sent. A driver call
  that never returns is \<open>Stuck\<close>.
\<close>

datatype flow = Next | Return | Thrown exn | Stuck

type_synonym command_result = "flow \<times> string list list \<times> console"

definition on_console :: "'a card_op \<Rightarrow> ('a \<Rightarrow> console \<Rightarrow> command_result) \<Rightarrow> console \<Rightarrow> command_result" where
  "on_console f g c =
     (case f (con_card c) of
        (Done a, st) \<Rightarrow> g a (c\<lparr>con_card := st\<rparr>)
      | (Threw e, st) \<Rightarrow> (Thrown e, [], c\<lparr>con_card := st\<rparr>)
      | (Waiting, st) \<Rightarrow> (Stuck, [], c\<lparr>con_card := st\<rparr>))"

definition or_throw :: "'a result \<Rightarrow> ('a \<Rightarrow> console \<Rightarrow> command_result) \<Rightarrow> console \<Rightarrow> command_result" where
  "or_throw r g c = (case r of Inl e \<Rightarrow> (Thrown e, [], c) | Inr a \<Rightarrow> g a c)"

definition ack :: string where "ack = ''ack''"

definition answer_with :: "string \<Rightarrow> console \<Rightarrow> command_result" where
  "answer_with r c = (Return, [[r]], c)"

section \<open>Questions\<close>

definition num_instruments :: "'f console_env \<Rightarrow> console \<Rightarrow> command_result" where
  "num_instruments env = answer_with (nat_to_string (unat (env_instruments env)))"

definition info_text :: "'f console_env \<Rightarrow> console \<Rightarrow> string" where
  "info_text env c =
     ''Digitizer Model: '' @ info_model (con_info c) @ '' / Digitizer Serial No.: '' @ info_serial_number (con_info c) @
     '' / Digitizer Firmware Version: '' @ info_firmware_revision (con_info c) @ '' / App: '' @ env_project env @
     '' / App Version: '' @ env_version env @ ''-'' @ env_commit env @ '' / Fork: '' @ env_fork env @ ''@'' @
     env_branch env @ '' / Full Scale: '' @ env_format env (full_scale_range (env_settings env))"

definition info_command :: "'f console_env \<Rightarrow> console \<Rightarrow> command_result" where
  "info_command env c = (Next, [[info_text env c]], c)"

definition firmware_command :: "console \<Rightarrow> command_result" where
  "firmware_command c = (Next, [[info_firmware_revision (con_info c)]], c)"

definition serial_command :: "console \<Rightarrow> command_result" where
  "serial_command c = (Next, [[info_serial_number (con_info c)]], c)"

section \<open>Settings of the card\<close>

definition init_command :: "'f console_env \<Rightarrow> console \<Rightarrow> command_result" where
  "init_command env =
     (let s = env_settings env in
      on_console (on_card (set_trigger_parameters (env_driver env) ''External1'' (trigger_level s) (trigger_rising s)
        (post_trigger_delay s))) (\<lambda>_ c. (Next, [[ack]], c)))"

definition horizontal_command :: "'f console_env \<Rightarrow> string list \<Rightarrow> console \<Rightarrow> command_result" where
  "horizontal_command env payload =
     (if length payload = 2
      then or_throw (stod (env_round env) (payload ! 1)) (\<lambda>resolution c.
        let rate = (if resolution = 0 then env_infinite env else env_round env (1 / resolution)) in
        on_console (on_card (set_sampling_rate (env_driver env) rate)) (\<lambda>_. answer_with ack)
          (c\<lparr>con_sampling_rate := rate\<rparr>))
      else answer_with ack)"

definition vertical_command :: "'f console_env \<Rightarrow> string list \<Rightarrow> console \<Rightarrow> command_result" where
  "vertical_command env payload =
     (if length payload = 2
      then or_throw (stod (env_round env) (payload ! 1)) (\<lambda>offset.
        on_console (on_card (set_channel_parameters (env_driver env) ''Channel1''
          (full_scale_range (env_settings env)) offset)) (\<lambda>_. answer_with ack))
      else answer_with ack)"

definition invert_command :: "'f console_env \<Rightarrow> string list \<Rightarrow> console \<Rightarrow> command_result" where
  "invert_command env payload =
     (if length payload = 2
      then on_console (on_card (set_channel_data_inversion (env_driver env) ''Channel1'' (payload ! 1 = ''true'')))
        (\<lambda>_. answer_with ack)
      else answer_with ack)"

definition enable_io_command :: "'f console_env \<Rightarrow> string list \<Rightarrow> console \<Rightarrow> command_result" where
  "enable_io_command env payload =
     (if length payload = 2
      then or_throw (stoi (payload ! 1)) (\<lambda>_.
        on_console (on_card (enable_io_port (env_driver env) (control_io_port_name (env_settings env))))
          (\<lambda>_. answer_with ack))
      else answer_with ack)"

definition disable_io_command :: "'f console_env \<Rightarrow> string list \<Rightarrow> console \<Rightarrow> command_result" where
  "disable_io_command env payload =
     (if length payload = 2
      then or_throw (stoi (payload ! 1)) (\<lambda>_.
        on_console (on_card (disable_io_port (env_driver env) (control_io_port_name (env_settings env))))
          (\<lambda>_. answer_with ack))
      else answer_with ack)"

section \<open>Acquiring\<close>

definition uimf_message_to_parameters :: "'f uimf_request_message \<Rightarrow> uimf_frame_parameters" where
  "uimf_message_to_parameters m =
     \<lparr>start_trigger = req_start_trigger m, nbr_samples = req_nbr_samples m, nbr_accumulations = req_nbr_accumulations m,
      frame_length = req_frame_length m, frame_number = req_frame_number m, offset_bins = req_offset_bins m,
      file_name = req_file_name m\<rparr>"

definition create_inf_params :: uimf_frame_parameters where
  "create_inf_params =
     \<lparr>start_trigger = 0, nbr_samples = 0, nbr_accumulations = 0, frame_length = 18446744073709551615,
      frame_number = 1, offset_bins = 20000, file_name = ''''\<rparr>"

text \<open>A controller that ends the process does not throw. None yet is a null pointer.\<close>

definition start_controller :: "uimf_frame_parameters \<Rightarrow> (console \<Rightarrow> command_result) \<Rightarrow> console \<Rightarrow> command_result" where
  "start_controller ps g c =
     (case con_controller c of
        None \<Rightarrow> (Thrown (Undefined ''null controller''), [], c)
      | Some p \<Rightarrow>
          (case ap_start p of
             Inl e \<Rightarrow> (Thrown (Undefined (what e)), [], c)
           | Inr (started, p') \<Rightarrow>
               g (c\<lparr>con_controller := Some p',
                    con_started := (if started then con_started c @ [ps] else con_started c)\<rparr>)))"

text \<open>\<open>MergeFromString\<close> may fail; what it has read by then is used all the same.\<close>

definition acquire_frame_command :: "'f console_env \<Rightarrow> string list \<Rightarrow> console \<Rightarrow> command_result" where
  "acquire_frame_command env payload =
     (if length payload = 2
      then
        (let lib = env_wire env;
             request = fst (uimf_parse lib (env_uncompress env (payload ! 1)) (new_uimf_request lib)) in
         start_controller (uimf_message_to_parameters request) (answer_with ack))
      else answer_with ack)"

definition measure_timing :: "'f console_env \<Rightarrow> (timing_information \<Rightarrow> console \<Rightarrow> command_result) \<Rightarrow> console \<Rightarrow> command_result" where
  "measure_timing env g c =
     (let s = env_settings env in
      on_console (create_timing_information (env_round env) (env_band_text env) (env_driver env) (con_sampling_rate c)
          (post_trigger_delay s) (estimated_trigger_rearm_time s))
        (\<lambda>t. on_console (on_card (set_record_size (env_driver env) (ti_record_size t))) (\<lambda>_. g t)) c)"

definition tof_width_response :: "'f console_env \<Rightarrow> timing_information \<Rightarrow> string list" where
  "tof_width_response env t =
     (let lib = env_wire env;
          m = (new_tof_width lib)\<lparr>tof_num_samples := ti_record_size t + ti_post_trigger_delay_samples t,
                pusher_pulse_width := ti_samples_per_trigger t\<rparr>;
          bytes = tof_serialize_as_string lib m in
      [bytes, env_sha256 env bytes])"

definition tof_width_command :: "'f console_env \<Rightarrow> console \<Rightarrow> command_result" where
  "tof_width_command env = measure_timing env (\<lambda>t c. (Return, [tof_width_response env t], c))"

text \<open>
  The chain of an acquisition: the publisher of records, the subject that encodes them, subscriber 0 of it that
  sums and subscriber 1 that writes files. All of them are new, so nothing is registered twice.
\<close>

definition build_chain :: "((uimf_acquisition_record, unit) publisher \<times> unit process_subject) result" where
  "build_chain =
     bindR (register_subscriber 0 ACQUIRE (new_publisher (\<lambda>_. new_subscriber ()))) (\<lambda>subj.
     bindR (register_subscriber 1 ACQUIRE_FRAME subj) (\<lambda>subj'.
     bindR (register_subscriber 0 BOTH (new_publisher (\<lambda>_. new_subscriber ()))) (\<lambda>recs. Inr (recs, subj'))))"

definition set_up_acquisition :: "'f console_env \<Rightarrow> timing_information \<Rightarrow> string \<Rightarrow> console \<Rightarrow> command_result" where
  "set_up_acquisition env t channel =
     or_throw build_chain (\<lambda>(recs, subj) c.
       if (case con_controller c of None \<Rightarrow> False | Some p \<Rightarrow> ap_joinable p)
       then (Thrown (Undefined ''std::terminate''), [], c)
       else
         start_controller create_inf_params (\<lambda>c'. (Return, [tof_width_response env t], c'))
           (c\<lparr>con_context := Some channel, con_records := Some recs, con_subject := Some subj,
              con_zmq := Some (new_zmq_subscriber (ucast (ti_record_size t + ti_post_trigger_delay_samples t))
                (zero_suppress_threshold (env_settings env) + 32768)),
              con_controller := Some new_acquire_publisher\<rparr>))"

definition prepare_acquisition :: "'f console_env \<Rightarrow> timing_information \<Rightarrow> console \<Rightarrow> console" where
  "prepare_acquisition env t c =
     (let s = env_settings env;
          c1 = c\<lparr>con_tof_period := ti_samples_per_trigger t,
                 con_post_trigger_samples := ucast (ti_post_trigger_delay_samples t),
                 con_publishers := snd (get_publisher (env_alive env) ''tcp://*:5554'' (con_publishers c))\<rparr> in
      case con_pool c1 of
        Some _ \<Rightarrow> c1
      | None \<Rightarrow> c1\<lparr>con_pool := Some (new_pool (notify_on_scans_count s) (con_tof_period c1)
          (acquisition_initial_buffer_count s) (acquisition_max_buffer_count s))\<rparr>)"

definition acquire_command :: "'f console_env \<Rightarrow> console \<Rightarrow> command_result" where
  "acquire_command env =
     measure_timing env (\<lambda>t c.
       let s = env_settings env in
       on_console (on_card (configure_cst_zs1 (env_driver env) ''Channel1''
           (new_zero_suppress_parameters (scast (zero_suppress_threshold s)) (ucast (zero_suppress_hysteresis s)))))
         (set_up_acquisition env t) (prepare_acquisition env t c))"

definition stop_command :: "string list \<Rightarrow> console \<Rightarrow> command_result" where
  "stop_command payload c =
     (if length payload \<noteq> 2 then (Return, [], c)
      else answer_with ack
        (c\<lparr>con_controller := map_option (ap_stop (payload ! 1 = ''acquire'')) (con_controller c)\<rparr>))"

section \<open>The handler\<close>

definition ignored_commands :: "string list" where
  "ignored_commands =
     [''trig class'', ''trig source'', ''mode'', ''config digitizer'', ''post samples'', ''pre samples'']"

definition handle_command :: "'f console_env \<Rightarrow> string list \<Rightarrow> string \<Rightarrow> console \<Rightarrow> command_result" where
  "handle_command env payload command =
     (if command = ''num instruments'' then num_instruments env
      else if command = ''info'' then info_command env
      else if command = ''firmware'' then firmware_command
      else if command = ''serial'' then serial_command
      else if command = ''init'' then init_command env
      else if command = ''horizontal'' then horizontal_command env payload
      else if command = ''vertical'' then vertical_command env payload
      else if command \<in> set ignored_commands then (\<lambda>c. (Next, [], c))
      else if command = ''setup array'' then answer_with ack
      else if command = ''acquire frame'' then acquire_frame_command env payload
      else if command = ''acquire'' then acquire_command env
      else if command = ''tof width'' then tof_width_command env
      else if command = ''stop'' then stop_command payload
      else if command = ''invert'' then invert_command env payload
      else if command = ''reset timestamps'' then (\<lambda>c. (Return, [], c))
      else if command = ''enable io port'' then enable_io_command env payload
      else if command = ''disable io port'' then disable_io_command env payload
      else (\<lambda>c. (Next, [], c)))"

fun run_commands :: "'f console_env \<Rightarrow> string list \<Rightarrow> string list \<Rightarrow> console \<Rightarrow> command_result" where
  "run_commands env payload [] c = (Next, [], c)"
| "run_commands env payload (command # commands) c =
     (case handle_command env payload command c of
        (Next, rs, c') \<Rightarrow>
          (case run_commands env payload commands c' of (fl, rs', c'') \<Rightarrow> (fl, rs @ rs', c''))
      | (fl, rs, c') \<Rightarrow> (fl, rs, c'))"

definition flow_exception :: "flow \<Rightarrow> exn option" where
  "flow_exception fl =
     (case fl of Thrown e \<Rightarrow> Some e | Stuck \<Rightarrow> Some (Undefined ''a driver call that does not return'') | _ \<Rightarrow> None)"

definition console_handler :: "'f console_env \<Rightarrow> console handler" where
  "console_handler env payload c =
     (case run_commands env payload payload c of
        (fl, rs, c') \<Rightarrow> \<lparr>answer_responses = rs, answer_exception = flow_exception fl, answer_world = c'\<rparr>)"

end
