(* ===== verification/Console_Service.thy ===== *)
theory Console_Service
  imports Console
begin

text \<open>
  What the console promises a client: which requests are answered, each exactly once, which of them take the
  console down instead, and what the replies to \<open>acquire\<close> and \<open>tof width\<close> say of the card and of the chain
  that was built.
\<close>

section \<open>One reply\<close>



text \<open>A command that leaves normally has sent one response, and one that throws none.\<close>

definition one_reply :: "bool \<Rightarrow> command_result \<Rightarrow> bool" where
  "one_reply returns r \<longleftrightarrow>
     (case r of (fl, rs, c) \<Rightarrow>
        (case fl of
           Thrown e \<Rightarrow> rs = []
         | Stuck \<Rightarrow> rs = []
         | Return \<Rightarrow> returns \<and> length rs = 1 \<and> list_all (\<lambda>r. r \<noteq> []) rs
         | Next \<Rightarrow> \<not> returns \<and> length rs = 1 \<and> list_all (\<lambda>r. r \<noteq> []) rs))"

lemma one_reply_simps [simp]:
  "one_reply returns (Thrown e, rs, c) \<longleftrightarrow> rs = []"
  "one_reply returns (Stuck, rs, c) \<longleftrightarrow> rs = []"
  "one_reply returns (Return, rs, c) \<longleftrightarrow> returns \<and> length rs = 1 \<and> list_all (\<lambda>r. r \<noteq> []) rs"
  "one_reply returns (Next, rs, c) \<longleftrightarrow> \<not> returns \<and> length rs = 1 \<and> list_all (\<lambda>r. r \<noteq> []) rs"
  by (simp_all add: one_reply_def)


named_theorems one_reply_intros

lemma one_reply_answer [one_reply_intros]: "one_reply True (answer_with r c)"
  by (simp add: answer_with_def)

lemma one_reply_on_console [one_reply_intros]:
  "(\<And>a c. one_reply returns (g a c)) \<Longrightarrow> one_reply returns (on_console f g c)"
  by (simp add: on_console_def split: prod.split ending.split)

lemma one_reply_or_throw [one_reply_intros]:
  "(\<And>a c. one_reply returns (g a c)) \<Longrightarrow> one_reply returns (or_throw r g c)"
  by (simp add: or_throw_def split: sum.split)

lemma one_reply_start [one_reply_intros]:
  "(\<And>c. one_reply returns (g c)) \<Longrightarrow> one_reply returns (start_controller ps g c)"
  by (simp add: start_controller_def split: option.split sum.split prod.split)

lemma one_reply_measure [one_reply_intros]:
  "(\<And>t c. one_reply returns (g t c)) \<Longrightarrow> one_reply returns (measure_timing env g c)"
  by (auto simp: measure_timing_def Let_def intro!: one_reply_intros)

lemma tof_width_response_ne: "tof_width_response env t \<noteq> []"
  by (simp add: tof_width_response_def Let_def)

lemma one_reply_set_up [one_reply_intros]: "one_reply True (set_up_acquisition env t channel c)"
  unfolding set_up_acquisition_def
  by (intro one_reply_or_throw) (auto split: prod.split intro!: one_reply_start simp: tof_width_response_ne)

text \<open>Which operation a command is.\<close>

lemma dispatch:
  "handle_command env payload ''num instruments'' = num_instruments env"
  "handle_command env payload ''horizontal'' = horizontal_command env payload"
  "handle_command env payload ''vertical'' = vertical_command env payload"
  "handle_command env payload ''setup array'' = answer_with ack"
  "handle_command env payload ''acquire frame'' = acquire_frame_command env payload"
  "handle_command env payload ''acquire'' = acquire_command env"
  "handle_command env payload ''tof width'' = tof_width_command env"
  "handle_command env payload ''invert'' = invert_command env payload"
  "handle_command env payload ''enable io port'' = enable_io_command env payload"
  "handle_command env payload ''disable io port'' = disable_io_command env payload"
  "handle_command env payload ''info'' = info_command env"
  "handle_command env payload ''firmware'' = firmware_command"
  "handle_command env payload ''serial'' = serial_command"
  "handle_command env payload ''init'' = init_command env"
  "handle_command env payload ''stop'' = stop_command payload"
  by (simp_all add: handle_command_def ignored_commands_def)

lemma one_reply_commands [one_reply_intros]:
  "one_reply True (num_instruments env c)"
  "one_reply True (horizontal_command env payload c)"
  "one_reply True (vertical_command env payload c)"
  "one_reply True (acquire_frame_command env payload c)"
  "one_reply True (acquire_command env c)"
  "one_reply True (tof_width_command env c)"
  "one_reply True (invert_command env payload c)"
  "one_reply True (enable_io_command env payload c)"
  "one_reply True (disable_io_command env payload c)"
proof -
  show "one_reply True (num_instruments env c)"
    by (simp add: num_instruments_def one_reply_answer)
  show "one_reply True (horizontal_command env payload c)"
    by (auto simp: horizontal_command_def Let_def intro!: one_reply_intros)
  show "one_reply True (vertical_command env payload c)"
    by (auto simp: vertical_command_def intro!: one_reply_intros)
  show "one_reply True (acquire_frame_command env payload c)"
    by (auto simp: acquire_frame_command_def Let_def intro!: one_reply_intros)
  show "one_reply True (acquire_command env c)"
    unfolding acquire_command_def Let_def by (intro one_reply_intros)
  show "one_reply True (tof_width_command env c)"
    unfolding tof_width_command_def by (intro one_reply_intros) (simp add: tof_width_response_ne)
  show "one_reply True (invert_command env payload c)"
    by (auto simp: invert_command_def intro!: one_reply_intros)
  show "one_reply True (enable_io_command env payload c)"
    by (auto simp: enable_io_command_def intro!: one_reply_intros)
  show "one_reply True (disable_io_command env payload c)"
    by (auto simp: disable_io_command_def intro!: one_reply_intros)
qed






section \<open>The reply to acquire\<close>

lemma build_chain_eq: "\<exists>recs subj. build_chain = Inr (recs, subj) \<and> subscribers recs = [(BOTH, 0)] \<and>
    subscribers subj = [(ACQUIRE, 0), (ACQUIRE_FRAME, 1)]"
  by (simp add: build_chain_def register_subscriber_def setup_subscriber_def new_subscriber_def new_publisher_def
      map_subscriber_def)

lemma response_parses:
  assumes "wire_format (env_wire env)"
  shows "\<exists>bytes m. tof_width_response env t = [bytes, env_sha256 env bytes] \<and>
    tof_parse (env_wire env) bytes (new_tof_width (env_wire env)) = (m, At_end) \<and>
    pusher_pulse_width m = ti_samples_per_trigger t \<and>
    tof_num_samples m = ti_record_size t + ti_post_trigger_delay_samples t"
proof -
  let ?lib = "env_wire env"
  let ?m = "(new_tof_width ?lib)\<lparr>tof_num_samples := ti_record_size t + ti_post_trigger_delay_samples t,
      pusher_pulse_width := ti_samples_per_trigger t\<rparr>"
  have "tof_unknown ?m = no_unknown ?lib" by (simp add: new_tof_width_def)
  from wire_format.tof_parses [OF assms this] show ?thesis
    by (simp add: tof_width_response_def Let_def)
qed

lemma measure_timing_Return:
  assumes "measure_timing env g c = (Return, rs, c')" "c = con"
  shows "\<exists>t st st'. create_timing_information (env_round env) (env_band_text env) (env_driver env) (con_sampling_rate c)
      (post_trigger_delay (env_settings env)) (estimated_trigger_rearm_time (env_settings env)) (con_card c) = (Done t, st) \<and>
    on_card (set_record_size (env_driver env) (ti_record_size t)) st = (Done (), st') \<and>
    g t (c\<lparr>con_card := st'\<rparr>) = (Return, rs, c')"
  using assms by (auto simp: measure_timing_def on_console_def Let_def split: prod.splits ending.splits)

lemma set_up_Return:
  assumes "set_up_acquisition env t channel c = (Return, rs, c')"
  shows "rs = [tof_width_response env t] \<and> con_card c' = con_card c \<and> con_context c' = Some channel \<and>
    (\<exists>recs subj. con_records c' = Some recs \<and> subscribers recs = [(BOTH, 0)] \<and>
       con_subject c' = Some subj \<and> subscribers subj = [(ACQUIRE, 0), (ACQUIRE_FRAME, 1)]) \<and>
    con_zmq c' = Some (new_zmq_subscriber (ucast (ti_record_size t + ti_post_trigger_delay_samples t))
      (zero_suppress_threshold (env_settings env) + 32768)) \<and>
    con_started c' = con_started c @ [create_inf_params] \<and>
    (\<exists>p. con_controller c' = Some p \<and> ap_joinable p)"
proof -
  obtain recs subj where chain: "build_chain = Inr (recs, subj)" "subscribers recs = [(BOTH, 0)]"
      "subscribers subj = [(ACQUIRE, 0), (ACQUIRE_FRAME, 1)]"
    using build_chain_eq by blast
  have start: "start_controller ps g (c\<lparr>con_controller := Some new_acquire_publisher\<rparr>) =
      g (c\<lparr>con_controller := Some (new_acquire_publisher\<lparr>ap_should_stop := False, ap_joinable := True\<rparr>),
          con_started := con_started c @ [ps]\<rparr>)" for ps g c
    by (simp add: start_controller_def ap_start_def is_acquiring_def new_acquire_publisher_def)
  show ?thesis
    using assms chain(2,3) by (auto simp: set_up_acquisition_def or_throw_def chain(1) start split: if_splits)
qed

lemma on_card_calls:
  "on_card f st = (Done a, st') \<Longrightarrow> \<exists>calls. f (card_calls st) = (Inr a, calls) \<and> card_calls st' = calls"
  by (auto simp: on_card_def split: prod.splits sum.splits)

lemma zs1_setup_in_calls:
  assumes "on_card (configure_cst_zs1 drv channel ps) st = (Done ch, st')"
  shows "ch = channel" "set (zs1_setup channel ps) \<subseteq> set (card_calls st')"
  using on_card_calls [OF assms] setup_then_calibrate [of drv "zs1_setup channel ps" channel "card_calls st" ch]
  by (auto simp: configure_cst_zs1_eq)

lemma fitting_zero_suppression:
  assumes "settings_fit s"
  shows "scast (scast (zero_suppress_threshold s) :: i16) = (scast (zero_suppress_threshold s) :: i64)"
    "ucast (ucast (zero_suppress_hysteresis s) :: u16) = (scast (zero_suppress_hysteresis s) :: i64)"
proof -
  have "sint (scast (zero_suppress_threshold s) :: i16) = sint (zero_suppress_threshold s)"
    "uint (ucast (zero_suppress_hysteresis s) :: u16) = sint (zero_suppress_hysteresis s)"
    using assms by (auto simp: settings_fit_def)
  then show "scast (scast (zero_suppress_threshold s) :: i16) = (scast (zero_suppress_threshold s) :: i64)"
    "ucast (ucast (zero_suppress_hysteresis s) :: u16) = (scast (zero_suppress_hysteresis s) :: i64)"
    by (metis scast_eq, metis scast_eq ucast_eq)
qed

section \<open>What a request can take the console down with\<close>

text \<open>
  A command that does not survive: it throws what is no exception, or a driver call in it never returns. An
  operation of the card only throws what the driver reported.
\<close>

definition is_undefined :: "exn \<Rightarrow> bool" where
  "is_undefined e \<longleftrightarrow> (case e of Undefined u \<Rightarrow> True | _ \<Rightarrow> False)"

definition survives :: "command_result \<Rightarrow> bool" where
  "survives r \<longleftrightarrow> (case fst r of Thrown e \<Rightarrow> \<not> is_undefined e | Stuck \<Rightarrow> False | _ \<Rightarrow> True)"

lemma survives_simps [simp]:
  "survives (Thrown e, rs, c) \<longleftrightarrow> \<not> is_undefined e" "\<not> survives (Stuck, rs, c)"
  "survives (Return, rs, c)" "survives (Next, rs, c)"
  by (simp_all add: survives_def)

named_theorems survives_intros


lemma survives_card_operation:
  assumes "\<And>calls e calls'. f calls = (Inl e, calls') \<Longrightarrow> \<exists>m. e = Runtime_error m"
    and "\<And>a st. survives (g a (c\<lparr>con_card := st\<rparr>))"
  shows "survives (on_console (on_card f) g c)"
proof (cases "f (card_calls (con_card c))")
  case (Pair r calls)
  then have "\<And>e. r = Inl e \<Longrightarrow> \<not> is_undefined e"
    using assms(1) by (fastforce simp: is_undefined_def)
  with Pair assms(2) show ?thesis by (cases r) (simp_all add: on_console_def on_card_def)
qed

lemmas survives_card_operations [survives_intros] =
  survives_card_operation [where f = "set_record_size drv n" for drv n,
    OF record_size.throws_what_the_card_reports]
  survives_card_operation [where f = "set_sampling_rate drv rate" for drv rate,
    OF sampling_rate.throws_what_the_card_reports]
  survives_card_operation [where f = "set_trigger_parameters drv trigger level rising delay" for drv trigger level rising delay,
    OF trigger_parameters.throws_what_the_card_reports]
  survives_card_operation [where f = "set_channel_parameters drv channel rng offset" for drv channel rng offset,
    OF channel_parameters.throws_what_the_card_reports]
  survives_card_operation [where f = "set_channel_data_inversion drv channel enable" for drv channel enable,
    OF data_inversion.throws_what_the_card_reports]
  survives_card_operation [where f = "enable_io_port drv port" for drv port,
    OF enabled_port.throws_what_the_card_reports]
  survives_card_operation [where f = "disable_io_port drv port" for drv port,
    OF disabled_port.throws_what_the_card_reports]
  survives_card_operation [where f = "configure_cst_zs1 drv channel ps" for drv channel ps,
    OF cst_zs1.throws_what_the_card_reports]

lemma survives_stod [survives_intros]: "(\<And>a. survives (g a c)) \<Longrightarrow> survives (or_throw (stod rnd t) g c)"
  by (auto simp: or_throw_def stod_def is_undefined_def split: option.split)

lemma survives_stoi [survives_intros]: "(\<And>a. survives (g a c)) \<Longrightarrow> survives (or_throw (stoi t) g c)"
  by (auto simp: or_throw_def stoi_def is_undefined_def split: option.split)

text \<open>The measurement of the period does not return, or computes what no integer can hold.\<close>

definition measurement_lost :: "'f console_env \<Rightarrow> console \<Rightarrow> bool" where
  "measurement_lost env c \<longleftrightarrow>
     (case fst (create_timing_information (env_round env) (env_band_text env) (env_driver env) (con_sampling_rate c)
         (post_trigger_delay (env_settings env)) (estimated_trigger_rearm_time (env_settings env)) (con_card c)) of
        Done t \<Rightarrow> False | Threw e \<Rightarrow> is_undefined e | Waiting \<Rightarrow> True)"

text \<open>
  Starting a frame before an \<open>acquire\<close>, or with the thread of the last one ended and not stopped, ends
  the process, as an \<open>acquire\<close> does while the controller still has a thread to join.
\<close>

definition start_lost :: "console \<Rightarrow> bool" where
  "start_lost c \<longleftrightarrow> (case con_controller c of None \<Rightarrow> True | Some p \<Rightarrow> ap_joinable p \<and> \<not> is_acquiring p)"

definition replacing_lost :: "console \<Rightarrow> bool" where
  "replacing_lost c \<longleftrightarrow> (case con_controller c of None \<Rightarrow> False | Some p \<Rightarrow> ap_joinable p)"


lemma survives_measure [survives_intros]:
  assumes "\<not> measurement_lost env c" "\<And>t st. survives (g t (c\<lparr>con_card := st\<rparr>))"
  shows "survives (measure_timing env g c)"
proof -
  obtain r st where m: "create_timing_information (env_round env) (env_band_text env) (env_driver env) (con_sampling_rate c)
      (post_trigger_delay (env_settings env)) (estimated_trigger_rearm_time (env_settings env)) (con_card c) = (r, st)"
    by fastforce
  have size: "survives (on_console (on_card (set_record_size (env_driver env) n)) (\<lambda>_. g t) (c\<lparr>con_card := st\<rparr>))" for n t
    by (intro survives_card_operations) (simp_all add: assms(2))
  show ?thesis
    using assms(1) size by (cases r) (simp_all add: measure_timing_def Let_def on_console_def m measurement_lost_def)
qed

lemma survives_start [survives_intros]:
  "\<not> start_lost c \<Longrightarrow> (\<And>c. survives (g c)) \<Longrightarrow> survives (start_controller ps g c)"
  by (auto simp: start_controller_def start_lost_def ap_start_def split: option.splits)

lemma survives_set_up [survives_intros]:
  assumes "\<not> replacing_lost c"
  shows "survives (set_up_acquisition env t channel c)"
proof -
  obtain recs subj where chain: "build_chain = Inr (recs, subj)" using build_chain_eq by blast
  have free: "(case con_controller c of None \<Rightarrow> False | Some p \<Rightarrow> ap_joinable p) = False"
    using assms by (simp add: replacing_lost_def)
  show ?thesis
    unfolding set_up_acquisition_def or_throw_def chain
    by (simp add: free start_controller_def ap_start_def new_acquire_publisher_def is_acquiring_def)
qed







section \<open>Properties\<close>


text \<open>C15: a successful \<open>acquire\<close> has measured the pusher, configured the card with exactly the threshold and
  the hysteresis of the settings, built a chain whose summing subscriber has a bin for every sample it
  announces (in 32 bits) and whose two subscribers are registered for what they are handed, and started a
  frame without end; its reply parses as the measured width and the number of samples.\<close>

theorem acquire_sets_up_chain:
  assumes "wire_format (env_wire env)" "settings_fit (env_settings env)"
    and "handle_command env payload ''acquire'' c = (Return, rs, c')"
  shows "\<exists>t st bytes m zmq subj. create_timing_information (env_round env) (env_band_text env) (env_driver env)
      (con_sampling_rate c) (post_trigger_delay (env_settings env)) (estimated_trigger_rearm_time (env_settings env))
      (con_card c) = (Done t, st) \<and>
    rs = [[bytes, env_sha256 env bytes]] \<and>
    tof_parse (env_wire env) bytes (new_tof_width (env_wire env)) = (m, At_end) \<and>
    pusher_pulse_width m = ti_samples_per_trigger t \<and>
    tof_num_samples m = ti_record_size t + ti_post_trigger_delay_samples t \<and>
    con_zmq c' = Some zmq \<and> length (data_vector zmq) = unat (ucast (tof_num_samples m) :: u32) \<and>
    sint (first_sample_floor zmq) = sint (zero_suppress_threshold (env_settings env)) + 32768 \<and>
    con_subject c' = Some subj \<and> subscribers subj = [(ACQUIRE, 0), (ACQUIRE_FRAME, 1)] \<and>
    con_started c' = con_started c @ [create_inf_params] \<and>
    {Set_attribute ''Channel1'' ''AQMD3_ATTR_CHANNEL_ZERO_SUPPRESS_THRESHOLD''
       (Vi_int (scast (zero_suppress_threshold (env_settings env)))),
     Set_attribute ''Channel1'' ''AQMD3_ATTR_CHANNEL_ZERO_SUPPRESS_HYSTERESIS''
       (Vi_int (scast (zero_suppress_hysteresis (env_settings env))))} \<subseteq> set (card_calls (con_card c'))"
proof -
  let ?s = "env_settings env"
  let ?ps = "new_zero_suppress_parameters (scast (zero_suppress_threshold ?s)) (ucast (zero_suppress_hysteresis ?s))"
  from assms(3) have "acquire_command env c = (Return, rs, c')" by (simp only: dispatch)
  from measure_timing_Return [OF this [unfolded acquire_command_def Let_def] refl] obtain t st st1 where
    t: "create_timing_information (env_round env) (env_band_text env) (env_driver env)
      (con_sampling_rate c) (post_trigger_delay ?s) (estimated_trigger_rearm_time ?s) (con_card c) = (Done t, st)"
    and run: "on_console (on_card (configure_cst_zs1 (env_driver env) ''Channel1'' ?ps)) (set_up_acquisition env t)
      (prepare_acquisition env t (c\<lparr>con_card := st1\<rparr>)) = (Return, rs, c')"
    by blast
  let ?c1 = "prepare_acquisition env t (c\<lparr>con_card := st1\<rparr>)"
  have c1: "con_started ?c1 = con_started c"
    by (simp add: prepare_acquisition_def Let_def split: option.split)
  from run obtain ch st' where
    conf: "on_card (configure_cst_zs1 (env_driver env) ''Channel1'' ?ps) (con_card ?c1) = (Done ch, st')"
    and up: "set_up_acquisition env t ch (?c1\<lparr>con_card := st'\<rparr>) = (Return, rs, c')"
    by (auto simp: on_console_def split: prod.splits ending.splits)
  note up = set_up_Return [OF up]
  from response_parses [OF assms(1), of t] obtain bytes m where
    "tof_width_response env t = [bytes, env_sha256 env bytes]"
    "tof_parse (env_wire env) bytes (new_tof_width (env_wire env)) = (m, At_end)"
    "pusher_pulse_width m = ti_samples_per_trigger t"
    "tof_num_samples m = ti_record_size t + ti_post_trigger_delay_samples t" by blast
  moreover have "set (zs1_setup ''Channel1'' ?ps) \<subseteq> set (card_calls (con_card c'))"
    using zs1_setup_in_calls [OF conf] up by simp
  moreover have "sint (zero_suppress_threshold ?s + 32768) = sint (zero_suppress_threshold ?s) + 32768"
    using assms(2) by (simp add: settings_fit_def)
  ultimately show ?thesis
    using t up c1 fitting_zero_suppression [OF assms(2)]
    by (auto simp: zs1_setup_def new_zero_suppress_parameters_def new_zmq_subscriber_def)
qed

section \<open>A console with a card that answers\<close>

definition example_env :: "unit console_env" where
  "example_env =
     \<lparr>env_settings = default_settings id, env_driver = always_ok, env_round = id, env_infinite = 0,
      env_band_text = (\<lambda>_ _. ''band''), env_format = (\<lambda>_. ''0.5''), env_instruments = 1, env_uncompress = id,
      env_sha256 = (\<lambda>_. ''hash''), env_wire = varint_wire, env_alive = (\<lambda>_. False), env_project = ''console'',
      env_version = ''1'', env_commit = ''c'', env_fork = ''f'', env_branch = ''b''\<rparr>"

definition example_console :: console where
  "example_console =
     \<lparr>con_card = timing_card, con_info = \<lparr>info_model = ''m'', info_firmware_revision = ''f'', info_serial_number = ''s''\<rparr>,
      con_sampling_rate = 1000000000, con_pool = None, con_context = None, con_controller = None, con_records = None,
      con_subject = None, con_zmq = None, con_started = [],
      con_publishers = \<lparr>table_publishers = Map.empty, table_next = 0\<rparr>, con_post_trigger_samples = 0, con_tof_period = 0\<rparr>"

lemma example_fit: "settings_fit (env_settings example_env)"
  by (rule checked_settings_fit [where lf = "\<lambda>_. ''''"])
    (simp add: example_env_def reject_bad_settings_def default_settings_def word_sless_alt)

lemma example_timing:
  assumes "card_replies cst = [timing_markers, timing_samples]"
  shows "\<exists>t st. create_timing_information id (\<lambda>_ _. ''band'') always_ok 1000000000 (1 / 100000) (2048 / 1000000000) cst =
     (Done t, st) \<and> ti_record_size t + ti_post_trigger_delay_samples t = 47952"
proof -
  obtain st1 where g: "get_trigger_period_samples always_ok 20 cst = (Done 100000, st1)"
    using timing_replies_period [OF assms] by (metis prod.collapse)
  have "\<not> outside_band id 100000 1000000000"
    by (simp add: outside_band_def double_of_def min_pusher_period_seconds_def max_pusher_period_seconds_def Let_def)
  moreover have "get_optimal_record_size id 100000 (1 / 100000) 1000000000 (2048 / 1000000000) = Inr (10000, 37952, 2048)"
    by (simp add: get_optimal_record_size_def double_of_def to_u64_def max_sample_rate_def Let_def whole_blocks_def)
  ultimately show ?thesis
    by (simp add: create_timing_information_def card_then_def g card_give_def)
qed


lemma always_ok_record_size: "\<exists>st'. on_card (set_record_size always_ok n) st = (Done (), st')"
  by (simp add: on_card_def set_record_size_def configure_record_size_def then_do_def give_def)

lemma always_ok_all: "check_all (map (vi_do always_ok) cs) calls = (Inr (), calls @ cs)"
  by (induction cs arbitrary: calls) (simp_all add: give_def then_do_def)

lemma always_ok_zs1: "\<exists>st'. on_card (configure_cst_zs1 always_ok channel ps) st = (Done channel, st')"
  by (simp add: on_card_def configure_cst_zs1_eq then_do_def always_ok_all give_def)

lemma set_up_succeeds:
  assumes "con_controller c = None"
  shows "\<exists>rs c'. set_up_acquisition env t channel c = (Return, rs, c')"
proof -
  obtain recs subj where chain: "build_chain = Inr (recs, subj)" using build_chain_eq by blast
  with assms show ?thesis
    by (simp add: chain set_up_acquisition_def or_throw_def start_controller_def ap_start_def is_acquiring_def
        new_acquire_publisher_def)
qed

lemma example_acquires:
  assumes "con_sampling_rate c = 1000000000" "con_controller c = None"
    "card_replies (con_card c) = [timing_markers, timing_samples]"
  shows "\<exists>t st rs c'. create_timing_information id (\<lambda>_ _. ''band'') always_ok 1000000000 (1 / 100000) (2048 / 1000000000)
      (con_card c) = (Done t, st) \<and> ti_record_size t + ti_post_trigger_delay_samples t = 47952 \<and>
    handle_command example_env payload ''acquire'' c = (Return, rs, c')"
proof -
  obtain t st where t: "create_timing_information id (\<lambda>_ _. ''band'') always_ok 1000000000 (1 / 100000) (2048 / 1000000000)
      (con_card c) = (Done t, st)" "ti_record_size t + ti_post_trigger_delay_samples t = 47952"
    using example_timing [OF assms(3)] by blast
  obtain st1 where st1: "on_card (set_record_size always_ok (ti_record_size t)) st = (Done (), st1)"
    using always_ok_record_size by blast
  have measured: "measure_timing example_env g c = g t (c\<lparr>con_card := st1\<rparr>)" for g
    using t(1) by (simp add: measure_timing_def Let_def on_console_def example_env_def assms(1) default_settings_def st1)
  let ?c = "prepare_acquisition example_env t (c\<lparr>con_card := st1\<rparr>)"
  let ?ps = "new_zero_suppress_parameters (scast (zero_suppress_threshold (env_settings example_env)))
      (ucast (zero_suppress_hysteresis (env_settings example_env)))"
  obtain st2 where st2: "on_card (configure_cst_zs1 always_ok ''Channel1'' ?ps) (con_card ?c) = (Done ''Channel1'', st2)"
    using always_ok_zs1 by blast
  have "con_controller (?c\<lparr>con_card := st2\<rparr>) = None"
    using assms(2) by (simp add: prepare_acquisition_def Let_def split: option.split)
  then obtain rs c' where "set_up_acquisition example_env t ''Channel1'' (?c\<lparr>con_card := st2\<rparr>) = (Return, rs, c')"
    using set_up_succeeds by blast
  moreover have "env_driver example_env = always_ok" by (simp add: example_env_def)
  ultimately have "acquire_command example_env c = (Return, rs, c')"
    using st2 by (simp add: acquire_command_def measured on_console_def Let_def)
  then have "handle_command example_env payload ''acquire'' c = (Return, rs, c')"
    by (simp only: dispatch)
  with t show ?thesis by blast
qed

theorem acquire_sets_up_chain_witness:
  "\<exists>rs c' zmq. handle_command example_env [''acquire''] ''acquire'' example_console = (Return, rs, c') \<and>
     con_started c' = [create_inf_params] \<and> con_zmq c' = Some zmq \<and> length (data_vector zmq) = 47952"
proof -
  have "con_sampling_rate example_console = 1000000000" "con_controller example_console = None"
    "card_replies (con_card example_console) = [timing_markers, timing_samples]"
    by (simp_all add: example_console_def timing_card_def)
  from example_acquires [OF this] obtain t st rs c' where
    t: "create_timing_information id (\<lambda>_ _. ''band'') always_ok 1000000000 (1 / 100000) (2048 / 1000000000)
      (con_card example_console) = (Done t, st)" "ti_record_size t + ti_post_trigger_delay_samples t = 47952"
    and run: "handle_command example_env [''acquire''] ''acquire'' example_console = (Return, rs, c')"
    by blast
  have "wire_format (env_wire example_env)" by (simp add: example_env_def varint.wire_format_axioms)
  from acquire_sets_up_chain [OF this example_fit run] obtain t' st' and m :: "unit tof_width_message" and zmq where
    "create_timing_information (env_round example_env) (env_band_text example_env) (env_driver example_env)
      (con_sampling_rate example_console) (post_trigger_delay (env_settings example_env))
      (estimated_trigger_rearm_time (env_settings example_env)) (con_card example_console) = (Done t', st')"
    and m: "tof_num_samples m = ti_record_size t' + ti_post_trigger_delay_samples t'"
      "con_zmq c' = Some zmq" "length (data_vector zmq) = unat (ucast (tof_num_samples m) :: u32)"
      "con_started c' = con_started example_console @ [create_inf_params]"
    by (elim exE conjE) (rule that, assumption+)
  then have "t' = t"
    using t(1) by (simp add: example_env_def example_console_def default_settings_def)
  with m t(2) run show ?thesis by (auto simp: example_console_def)
qed

end
