(* ===== verification/Console_Session.thy ===== *)
theory Console_Session
  imports Console_Service
begin

text \<open>
  The life of a console: requests handled one after the other by the server's loop, with the acquisition
  thread beginning and ending between them, and what holds of the chain of an acquisition in every state
  that can be reached.
\<close>

section \<open>Steps\<close>

definition thread_is :: "acquisition_state \<Rightarrow> console \<Rightarrow> console" where
  "thread_is st c = c\<lparr>con_controller := map_option (\<lambda>p. p\<lparr>ap_state := st\<rparr>) (con_controller c)\<rparr>"

text \<open>
  A request is handled to its end, or the thread of a controller says that it acquires or that it stopped. A
  request that ends the process has no step.
\<close>

inductive console_step :: "'f console_env \<Rightarrow> console \<times> server \<Rightarrow> console \<times> server \<Rightarrow> bool" for env where
  request: "handle_request (console_handler env) client payload (c, s) = Inr (c', s') \<Longrightarrow>
    console_step env (c, s) (c', s')"
| thread_begins: "con_controller c = Some p \<Longrightarrow> ap_joinable p \<Longrightarrow> console_step env (c, s) (thread_is ACQUIRING c, s)"
| thread_ends: "con_controller c = Some p \<Longrightarrow> console_step env (c, s) (thread_is STOPPED c, s)"

inductive_cases console_stepE: "console_step env (c, s) (c', s')"

inductive console_reaches :: "'f console_env \<Rightarrow> console \<times> server \<Rightarrow> console \<times> server \<Rightarrow> bool" for env cs where
  here: "console_reaches env cs cs"
| after: "console_reaches env cs cs1 \<Longrightarrow> console_step env cs1 cs2 \<Longrightarrow> console_reaches env cs cs2"

section \<open>The chain\<close>

text \<open>
  The parts of an acquisition are there together or not at all, registered as their constructor was told; a
  frame was only ever started on a controller, and the first one is the endless frame of \<open>acquire\<close>.
\<close>

definition chain_whole :: "'f console_env \<Rightarrow> console \<Rightarrow> bool" where
  "chain_whole env c \<longleftrightarrow>
     (con_controller c = None \<longleftrightarrow> con_context c = None) \<and> (con_controller c = None \<longleftrightarrow> con_zmq c = None) \<and>
     (con_controller c = None \<longleftrightarrow> con_records c = None) \<and> (con_controller c = None \<longleftrightarrow> con_subject c = None) \<and>
     (con_controller c = None \<longleftrightarrow> con_started c = []) \<and>
     (con_controller c \<noteq> None \<longrightarrow> con_pool c \<noteq> None \<and> hd (con_started c) = create_inf_params \<and>
        table_publishers (con_publishers c) ''tcp://*:5554'' \<noteq> None) \<and>
     pred_option (\<lambda>recs. subscribers recs = [(BOTH, 0)]) (con_records c) \<and>
     pred_option (\<lambda>subj. subscribers subj = [(ACQUIRE, 0), (ACQUIRE_FRAME, 1)]) (con_subject c) \<and>
     pred_option (\<lambda>p. pool_max_triggers_per_read p = notify_on_scans_count (env_settings env)) (con_pool c)"

lemma chain_whole_updates [simp]:
  "chain_whole env (c\<lparr>con_card := st\<rparr>) = chain_whole env c"
  "chain_whole env (c\<lparr>con_sampling_rate := rate\<rparr>) = chain_whole env c"
  "chain_whole env (c\<lparr>con_controller := map_option f (con_controller c)\<rparr>) = chain_whole env c"
  by (simp_all add: chain_whole_def)

lemma chain_whole_thread [simp]: "chain_whole env (thread_is st c) = chain_whole env c"
  by (simp add: thread_is_def)

definition leaves :: "(console \<Rightarrow> bool) \<Rightarrow> command_result \<Rightarrow> bool" where
  "leaves P r = P (snd (snd r))"

lemma leaves_simps [simp]: "leaves P (fl, rs, c) = P c"
  by (simp add: leaves_def)

named_theorems leaves_intros

lemma leaves_answer [leaves_intros]: "P c \<Longrightarrow> leaves P (answer_with r c)"
  by (simp add: answer_with_def)

lemma leaves_or_throw [leaves_intros]: "P c \<Longrightarrow> (\<And>a. leaves P (g a c)) \<Longrightarrow> leaves P (or_throw r g c)"
  by (simp add: or_throw_def split: sum.split)

lemma leaves_on_console [leaves_intros]:
  "chain_whole env c \<Longrightarrow> (\<And>a st. leaves (chain_whole env) (g a (c\<lparr>con_card := st\<rparr>))) \<Longrightarrow>
   leaves (chain_whole env) (on_console f g c)"
  by (simp add: on_console_def split: prod.split ending.split)

lemma leaves_if: "(b \<Longrightarrow> leaves P (f c)) \<Longrightarrow> (\<not> b \<Longrightarrow> leaves P (g c)) \<Longrightarrow> leaves P ((if b then f else g) c)"
  by simp

lemma ap_start_new: "\<exists>p. ap_start new_acquire_publisher = Inr (True, p)"
  by (simp add: ap_start_def is_acquiring_def new_acquire_publisher_def)

lemma leaves_start:
  assumes "chain_whole env c" "\<And>c'. chain_whole env c' \<Longrightarrow> leaves (chain_whole env) (g c')"
  shows "leaves (chain_whole env) (start_controller ps g c)"
proof -
  have "chain_whole env (c\<lparr>con_controller := Some p', con_started := (if b then con_started c @ [ps] else con_started c)\<rparr>)"
    if "con_controller c = Some p" for p p' b
    using assms(1) that by (cases "con_started c") (simp_all add: chain_whole_def)
  with assms show ?thesis
    by (simp add: start_controller_def split: option.split sum.split prod.split)
qed

lemma prepared:
  assumes "chain_whole env c"
  shows "chain_whole env (prepare_acquisition env t c)" "con_pool (prepare_acquisition env t c) \<noteq> None"
    "table_publishers (con_publishers (prepare_acquisition env t c)) ''tcp://*:5554'' \<noteq> None"
  using assms
  by (auto simp: prepare_acquisition_def chain_whole_def Let_def get_publisher_def new_pool_def split: option.splits)

lemma leaves_set_up:
  assumes "chain_whole env c" "con_pool c \<noteq> None" "table_publishers (con_publishers c) ''tcp://*:5554'' \<noteq> None"
  shows "leaves (chain_whole env) (set_up_acquisition env t channel c)"
proof -
  obtain recs subj where chain: "build_chain = Inr (recs, subj)" "subscribers recs = [(BOTH, 0)]"
      "subscribers subj = [(ACQUIRE, 0), (ACQUIRE_FRAME, 1)]"
    using build_chain_eq by blast
  obtain p where p: "ap_start new_acquire_publisher = Inr (True, p)" using ap_start_new by blast
  show ?thesis
    using assms chain(2,3)
    by (auto simp: set_up_acquisition_def or_throw_def chain(1) start_controller_def p chain_whole_def hd_append)
qed

lemma leaves_acquire: "chain_whole env c \<Longrightarrow> leaves (chain_whole env) (acquire_command env c)"
  unfolding acquire_command_def measure_timing_def Let_def
  by (intro leaves_on_console leaves_set_up) (simp_all add: prepared)

lemma leaves_handle_command:
  assumes "chain_whole env c"
  shows "leaves (chain_whole env) (handle_command env payload command c)"
proof -
  have "leaves (chain_whole env) (stop_command payload c)"
    using assms by (simp add: stop_command_def answer_with_def)
  moreover have "leaves (chain_whole env) (num_instruments env c)" "leaves (chain_whole env) (info_command env c)"
    "leaves (chain_whole env) (firmware_command c)" "leaves (chain_whole env) (serial_command c)"
    using assms by (simp_all add: num_instruments_def answer_with_def info_command_def firmware_command_def serial_command_def)
  moreover have "leaves (chain_whole env) (init_command env c)"
    using assms by (auto simp: init_command_def Let_def intro!: leaves_intros)
  moreover have "leaves (chain_whole env) (horizontal_command env payload c)"
    using assms by (auto simp: horizontal_command_def Let_def intro!: leaves_intros)
  moreover have "leaves (chain_whole env) (vertical_command env payload c)"
    using assms by (auto simp: vertical_command_def intro!: leaves_intros)
  moreover have "leaves (chain_whole env) (invert_command env payload c)"
    using assms by (auto simp: invert_command_def intro!: leaves_intros)
  moreover have "leaves (chain_whole env) (enable_io_command env payload c)"
    using assms by (auto simp: enable_io_command_def intro!: leaves_intros)
  moreover have "leaves (chain_whole env) (disable_io_command env payload c)"
    using assms by (auto simp: disable_io_command_def intro!: leaves_intros)
  moreover have "leaves (chain_whole env) (acquire_frame_command env payload c)"
    using assms by (auto simp: acquire_frame_command_def Let_def intro!: leaves_start leaves_answer)
  moreover have "leaves (chain_whole env) (tof_width_command env c)"
    unfolding tof_width_command_def measure_timing_def Let_def
    by (intro leaves_on_console) (simp_all add: assms)
  moreover have "leaves (chain_whole env) (answer_with ack c)" "leaves (chain_whole env) (Next, [], c)"
    "leaves (chain_whole env) (Return, [], c)"
    using assms by (simp_all add: answer_with_def)
  ultimately show ?thesis
    unfolding handle_command_def by (intro leaves_if leaves_acquire assms)
qed

lemma leaves_run_commands:
  "chain_whole env c \<Longrightarrow> leaves (chain_whole env) (run_commands env payload commands c)"
proof (induction commands arbitrary: c)
  case (Cons command commands)
  obtain fl rs c1 where h: "handle_command env payload command c = (fl, rs, c1)" by (metis prod_cases3)
  with leaves_handle_command [OF Cons.prems, of payload command] have c1: "chain_whole env c1" by simp
  from Cons.IH [OF c1] show ?case
    using c1 by (cases fl) (simp_all add: h leaves_def case_prod_beta)
qed simp

lemma handle_request_world:
  assumes "handle_request (console_handler env) client payload (c, s) = Inr (c', s')"
  shows "c' = snd (snd (run_commands env payload payload c))"
  using assms by (auto simp: handle_request_def console_handler_def Let_def split: prod.splits option.splits exn.splits)

lemma step_keeps_chain:
  assumes "console_step env (c, s) (c', s')" "chain_whole env c"
  shows "chain_whole env c'"
  using assms(1)
proof (rule console_stepE)
  fix client payload
  assume request: "handle_request (console_handler env) client payload (c, s) = Inr (c', s')"
  from leaves_run_commands [OF assms(2), of payload payload] handle_request_world [OF request] show ?thesis
    by (simp add: leaves_def)
qed (use assms(2) in simp_all)

lemma start_console_whole: "chain_whole env (start_console env st)"
  by (simp add: chain_whole_def start_console_def split: prod.split)

section \<open>Requests that go wrong\<close>

text \<open>The commands a client waits for in vain.\<close>

lemma unanswered_commands:
  assumes "command \<in> set ignored_commands \<or> command = ''reset timestamps''"
  shows "\<exists>fl. handle_command env payload command c = (fl, [], c)"
proof -
  have "list_all (\<lambda>command. \<exists>fl. handle_command env payload command c = (fl, [], c)) ignored_commands"
    "\<exists>fl. handle_command env payload ''reset timestamps'' c = (fl, [], c)"
    by (simp_all add: handle_command_def ignored_commands_def)
  with assms show ?thesis by (auto simp only: list_all_iff)
qed

lemma frame_before_acquire:
  assumes "con_controller c = None" "length payload = 2"
  shows "handle_command env payload ''acquire frame'' c = (Thrown (Undefined ''null controller''), [], c)"
  unfolding dispatch using assms by (simp add: acquire_frame_command_def Let_def start_controller_def)

text \<open>On a controller that still acquires, a frame request is acknowledged and starts nothing.\<close>

lemma frame_while_acquiring:
  assumes "con_controller c = Some p" "is_acquiring p"
  shows "handle_command env [''acquire frame'', body] ''acquire frame'' c = (Return, [[ack]], c)"
  unfolding dispatch
  using assms by (simp add: acquire_frame_command_def Let_def start_controller_def ap_start_def answer_with_def)

lemma acquire_without_stop:
  assumes "con_controller c = Some p" "ap_joinable p"
  shows "set_up_acquisition env t channel c = (Thrown (Undefined ''std::terminate''), [], c)"
proof -
  obtain recs subj where chain: "build_chain = Inr (recs, subj)" using build_chain_eq by blast
  with assms show ?thesis by (simp add: chain set_up_acquisition_def or_throw_def)
qed

lemma pool_is_kept:
  "con_pool c = Some p \<Longrightarrow> con_pool (prepare_acquisition env t c) = Some p"
  by (simp add: prepare_acquisition_def Let_def)

section \<open>Properties\<close>

text \<open>C16: in every state a console can reach from its start, by any requests of any client and any answers of the
  card, the parts of an acquisition exist together or not at all, are registered as built, and rest on a
  pool made with the configured batch size and on the bound data address; no frame was started without them.\<close>

theorem reachable_chain_is_whole:
  assumes "console_reaches env (start_console env st, s) (c, s')"
  shows "chain_whole env c"
proof -
  have "chain_whole env (fst cs)" if "console_reaches env (start_console env st, s) cs" for cs
    using that
  proof (induction rule: console_reaches.induct)
    case here
    show ?case by (simp add: start_console_whole)
  next
    case (after cs1 cs2)
    then show ?case by (cases cs1; cases cs2) (simp add: step_keeps_chain)
  qed
  from this [OF assms] show ?thesis by simp
qed

lemma always_ok_rate: "\<exists>calls. on_card (set_sampling_rate always_ok rate) st = (Done (), st\<lparr>card_calls := calls\<rparr>)"
  by (rule exI [of _ "card_calls st @ [Set_attribute '''' ''AQMD3_ATTR_SAMPLE_RATE'' (Vi_real rate)]"])
    (simp add: on_card_def set_sampling_rate_def configure_sample_rate_def then_do_def give_def)

lemma resolution_1ns: "stod id ''0.000000001'' = Inr (1 / 1000000000)"
proof -
  have "parse_decimal ''0.000000001'' = Some (1 / 1000000000)" by code_simp
  then show ?thesis by (simp add: stod_def)
qed

lemma prepare_started: "con_started (prepare_acquisition env t c) = con_started c"
  by (simp add: prepare_acquisition_def Let_def split: option.split)

lemma acquire_starts_endless:
  assumes "acquire_command env c = (Return, rs, c')"
  shows "con_started c' = con_started c @ [create_inf_params]"
proof -
  from measure_timing_Return [OF assms [unfolded acquire_command_def Let_def] refl] obtain t st where
    "on_console (on_card (configure_cst_zs1 (env_driver env) ''Channel1''
        (new_zero_suppress_parameters (scast (zero_suppress_threshold (env_settings env)))
          (ucast (zero_suppress_hysteresis (env_settings env))))))
      (set_up_acquisition env t) (prepare_acquisition env t (c\<lparr>con_card := st\<rparr>)) = (Return, rs, c')"
    by blast
  then obtain ch st' where
    "set_up_acquisition env t ch (prepare_acquisition env t (c\<lparr>con_card := st\<rparr>)\<lparr>con_card := st'\<rparr>) = (Return, rs, c')"
    by (auto simp: on_console_def split: prod.splits ending.splits)
  from set_up_Return [OF this] show ?thesis by (simp add: prepare_started)
qed

theorem reachable_chain_is_whole_witness:
  "\<exists>c s. console_reaches example_env (start_console example_env timing_card, new_server) (c, s) \<and>
     con_started c = [create_inf_params] \<and> con_controller c \<noteq> None \<and> con_pool c \<noteq> None"
proof -
  let ?c = "start_console example_env timing_card"
  have c: "card_replies (con_card ?c) = [timing_markers, timing_samples]" "con_controller ?c = None" "con_started ?c = []"
    by (simp_all add: start_console_def timing_card_def split: prod.split)
  obtain calls where rate: "on_card (set_sampling_rate always_ok 1000000000) (con_card ?c) =
      (Done (), (con_card ?c)\<lparr>card_calls := calls\<rparr>)"
    using always_ok_rate by blast
  let ?c1 = "?c\<lparr>con_sampling_rate := 1000000000, con_card := (con_card ?c)\<lparr>card_calls := calls\<rparr>\<rparr>"
  have env: "env_round example_env = id" "env_driver example_env = always_ok"
    by (simp_all add: example_env_def)
  have "horizontal_command example_env [''horizontal'', ''0.000000001''] ?c = (Return, [[ack]], ?c1)"
    by (simp add: horizontal_command_def env resolution_1ns or_throw_def Let_def on_console_def rate answer_with_def)
  then have "run_commands example_env [''horizontal'', ''0.000000001''] [''horizontal'', ''0.000000001''] ?c =
      (Return, [[ack]], ?c1)"
    by (simp only: run_commands.simps dispatch prod.case flow.case)
  then obtain s1 where step1: "handle_request (console_handler example_env) ''c'' [''horizontal'', ''0.000000001'']
      (?c, new_server) = Inr (?c1, s1)"
    by (simp add: handle_request_def console_handler_def flow_exception_def)
  have "con_sampling_rate ?c1 = 1000000000" "con_controller ?c1 = None"
    "card_replies (con_card ?c1) = [timing_markers, timing_samples]"
    using c by simp_all
  from example_acquires [OF this] obtain rs c2 where
    run: "handle_command example_env [''acquire''] ''acquire'' ?c1 = (Return, rs, c2)"
    by blast
  then have "run_commands example_env [''acquire''] [''acquire''] ?c1 = (Return, rs, c2)"
    by (simp only: run_commands.simps prod.case flow.case)
  then obtain s2 where step2: "handle_request (console_handler example_env) ''c'' [''acquire''] (?c1, s1) = Inr (c2, s2)"
    by (simp add: handle_request_def console_handler_def flow_exception_def)
  have reached: "console_reaches example_env (?c, new_server) (c2, s2)"
    by (rule console_reaches.after [OF console_reaches.after [OF console_reaches.here request [OF step1]] request [OF step2]])
  from run have "acquire_command example_env ?c1 = (Return, rs, c2)" by (simp only: dispatch)
  from acquire_starts_endless [OF this] c(3) have started: "con_started c2 = [create_inf_params]" by simp
  with reachable_chain_is_whole [OF reached] reached show ?thesis
    by (auto simp: chain_whole_def)
qed

section \<open>A frame request from its octets to its frame\<close>

definition controller_free :: "console \<Rightarrow> bool" where
  "controller_free c \<longleftrightarrow> (case con_controller c of None \<Rightarrow> False | Some p \<Rightarrow> \<not> is_acquiring p \<and> \<not> ap_joinable p)"

text \<open>C14: on a controller that is stopped and joined, an \<open>acquire frame\<close> whose second frame uncompresses to
  a serialised request is answered with \<open>ack\<close> alone and starts a frame with exactly the parameters the client
  wrote, on a thread that the controller then holds; nothing else of the console changes.\<close>

theorem frame_request_starts_its_frame:
  assumes "wire_format (env_wire env)" "req_unknown m = no_unknown (env_wire env)"
    and "utf8 (env_wire env) (req_file_name m)" "length (req_file_name m) < 2147483648"
    and "env_uncompress env body = uimf_serialize_as_string (env_wire env) m" "controller_free c"
  shows "\<exists>p s'. handle_request (console_handler env) client [''acquire frame'', body] (c, s) =
      Inr (c\<lparr>con_controller := Some p, con_started := con_started c @
        [\<lparr>start_trigger = req_start_trigger m, nbr_samples = req_nbr_samples m,
          nbr_accumulations = req_nbr_accumulations m, frame_length = req_frame_length m,
          frame_number = req_frame_number m, offset_bins = req_offset_bins m, file_name = req_file_name m\<rparr>]\<rparr>, s') \<and>
    ap_joinable p \<and> \<not> ap_should_stop p \<and>
    router_sent s' = router_sent s @ [(client, True), ('''', True), (''ack'', False)]"
proof -
  obtain p where p: "con_controller c = Some p" "\<not> is_acquiring p" "\<not> ap_joinable p"
    using assms(6) by (auto simp: controller_free_def split: option.splits)
  let ?p = "p\<lparr>ap_should_stop := False, ap_joinable := True\<rparr>"
  let ?payload = "[''acquire frame'', body]"
  have "uimf_parse (env_wire env) (env_uncompress env body) (new_uimf_request (env_wire env)) =
      (m\<lparr>req_cached_size := 0\<rparr>, At_end)"
    unfolding assms(5) by (rule wire_format.uimf_parses [OF assms(1-4)])
  then have "acquire_frame_command env ?payload c = (Return, [[ack]],
      c\<lparr>con_controller := Some ?p, con_started := con_started c @ [uimf_message_to_parameters (m\<lparr>req_cached_size := 0\<rparr>)]\<rparr>)"
    by (simp add: acquire_frame_command_def Let_def start_controller_def ap_start_def p answer_with_def)
  then have "run_commands env ?payload ?payload c = (Return, [[ack]],
      c\<lparr>con_controller := Some ?p, con_started := con_started c @ [uimf_message_to_parameters (m\<lparr>req_cached_size := 0\<rparr>)]\<rparr>)"
    by (simp only: run_commands.simps dispatch prod.case flow.case)
  then show ?thesis
    by (intro exI [of _ ?p])
      (simp add: handle_request_def console_handler_def flow_exception_def Let_def respond_more_frames
        uimf_message_to_parameters_def ack_def)
qed

definition stopped_console :: console where
  "stopped_console = example_console\<lparr>con_controller := Some new_acquire_publisher\<rparr>"

theorem frame_request_starts_its_frame_witness:
  "\<exists>c s. handle_request (console_handler example_env) ''c''
      [''acquire frame'', uimf_serialize_as_string varint_wire small_request] (stopped_console, new_server) = Inr (c, s) \<and>
    map frame_length (con_started c) = [1000] \<and> map file_name (con_started c) = [''a.uimf''] \<and>
    router_sent s = [(''c'', True), ('''', True), (''ack'', False)]"
proof -
  have wire: "env_wire example_env = varint_wire" by (simp add: example_env_def)
  have "wire_format (env_wire example_env)" by (simp add: wire varint.wire_format_axioms)
  moreover have "req_unknown small_request = no_unknown (env_wire example_env)"
    "utf8 (env_wire example_env) (req_file_name small_request)" "length (req_file_name small_request) < 2147483648"
    by (simp_all add: wire varint_wire_def small_request_def)
  moreover have "env_uncompress example_env (uimf_serialize_as_string varint_wire small_request) =
      uimf_serialize_as_string (env_wire example_env) small_request"
    unfolding wire by (simp add: example_env_def)
  moreover have "controller_free stopped_console"
    by (simp add: controller_free_def stopped_console_def is_acquiring_def new_acquire_publisher_def)
  ultimately have "\<exists>p s'. handle_request (console_handler example_env) ''c''
        [''acquire frame'', uimf_serialize_as_string varint_wire small_request] (stopped_console, new_server) =
      Inr (stopped_console\<lparr>con_controller := Some p, con_started := con_started stopped_console @
        [\<lparr>start_trigger = req_start_trigger small_request, nbr_samples = req_nbr_samples small_request,
          nbr_accumulations = req_nbr_accumulations small_request, frame_length = req_frame_length small_request,
          frame_number = req_frame_number small_request, offset_bins = req_offset_bins small_request,
          file_name = req_file_name small_request\<rparr>]\<rparr>, s') \<and>
    ap_joinable p \<and> \<not> ap_should_stop p \<and>
    router_sent s' = router_sent new_server @ [(''c'', True), ('''', True), (''ack'', False)]"
    by (rule frame_request_starts_its_frame)
  then obtain p s' where "handle_request (console_handler example_env) ''c''
        [''acquire frame'', uimf_serialize_as_string varint_wire small_request] (stopped_console, new_server) =
      Inr (stopped_console\<lparr>con_controller := Some p, con_started := con_started stopped_console @
        [\<lparr>start_trigger = req_start_trigger small_request, nbr_samples = req_nbr_samples small_request,
          nbr_accumulations = req_nbr_accumulations small_request, frame_length = req_frame_length small_request,
          frame_number = req_frame_number small_request, offset_bins = req_offset_bins small_request,
          file_name = req_file_name small_request\<rparr>]\<rparr>, s')"
    "router_sent s' = router_sent new_server @ [(''c'', True), ('''', True), (''ack'', False)]"
    by (elim exE conjE) (rule that)
  then show ?thesis
    by (simp add: small_request_def stopped_console_def example_console_def new_server_def)
qed

end
