(* ===== verification/Spec2Isabelle.thy ===== *)
theory Spec2Isabelle
  imports Acquire_To_Frame Timing Server Startup Message_Streams Frame_Archive LZF_Best Data_Generator Console_Session
begin

text \<open>
  \<^bold>\<open>The AqMD3 acquisition console\<close>

  The console drives an Acqiris SA220P card that digitises the output of a time-of-flight mass spectrometer.
  A client sends it commands over a ZeroMQ socket; scans go to UIMF files and, summed, to a data topic. All
  paths below are under \<^verbatim>\<open>src/\<close>.

  \<^bold>\<open>How the parts work together.\<close> \<^verbatim>\<open>main\<close> of
  \<^verbatim>\<open>AqMD3_console/src/aqmd3_console.cpp\<close> reads \<^verbatim>\<open>config.txt\<close>, opens the card and hands
  every request the \<^verbatim>\<open>Server\<close> receives to one handler. \<^verbatim>\<open>acquire\<close> measures the pusher period,
  configures the card, and builds a chain: an \<^verbatim>\<open>AcquirePublisher\<close>, whose thread calls
  \<^verbatim>\<open>acquire\<close> of a streaming context in segments and publishes a record for each; a
  \<^verbatim>\<open>ProcessSubject\<close>, which encodes a record as a frame of run-length encoded spectra and publishes it;
  a \<^verbatim>\<open>ZmqAcquiredDataSubscriber\<close>, which sums the spectra and publishes the sum; and a
  \<^verbatim>\<open>UimfFrameWriterSubscriber\<close>, which stores the frame through \<^verbatim>\<open>UimfWriter\<close>.
  \<^verbatim>\<open>acquire frame\<close> and \<^verbatim>\<open>stop\<close> start and stop frames on that chain.

  \<^bold>\<open>Theories and what they model\<close>, in the order the data flows:

  \<^item> \<open>Prelude\<close>: integer types at their width (\<open>i32\<close>, \<open>u64\<close>, ... are words, read with \<open>sint\<close> and
    \<open>unat\<close>), exceptions (\<open>exn\<close>; what C++ leaves undefined, or what ends the process, is \<open>Undefined\<close>), results
    that are an exception or a value, \<open>std::to_string\<close>, word lemmas.
  \<^item> \<open>Acquisition_Buffer\<close> (\<^verbatim>\<open>libaqmd3/acquisitionbuffer, acquisitionbufferpool\<close>): the record
    \<open>acq_buffer\<close> with its positions, the pool with counted slots.
  \<^item> \<open>Acquired_Data\<close> (\<^verbatim>\<open>acquireddata.h, UIMFWriter/include\<close>): gates, triggers, frame parameters,
    encoded results and frames.
  \<^item> \<open>Stream_Fetch\<close> (\<^verbatim>\<open>helpers, Digitizer::check_error\<close>): the severity of a driver status and a
    fetch. The driver is a list of replies, one for each fetch.
  \<^item> \<open>Zero_Suppress\<close>, \<open>Marker_Stream\<close>, \<open>Marker_Fetch\<close>, \<open>Zs1_Acquire\<close>, \<open>Zs1_Refinement\<close>
    (\<^verbatim>\<open>libaqmd3/src/cstzs1context.cpp\<close>): \<open>zs1_acquire\<close>, the specification \<open>feed\<close> of a markers
    stream, what holds whatever the driver answers, and that for a sound driver the operation refines
    \<open>feed\<close> however the stream was cut into fetches.
  \<^item> \<open>Cst_Context\<close>, \<open>Cst_Acquire\<close> (\<^verbatim>\<open>cstcontext.cpp, streamingcontext.cpp\<close>): the acquisition
    without zero suppression.
  \<^item> \<open>Digitizer\<close> (\<^verbatim>\<open>digitizer.cpp, sa220.cpp\<close>): the operations of the card as driver calls; the locale
    \<open>card_operation\<close> is what every one of them promises, and each is an interpretation of it; the console needs of it that they throw only
    what the card reports.
  \<^item> \<open>Timing\<close> (\<^verbatim>\<open>massspec/toftiminginformation.cpp\<close>): the measured period and the record size.
  \<^item> \<open>Frame_Encoding\<close> (\<^verbatim>\<open>uimfacquisitionrecord.cpp\<close>): \<open>process\<close> and \<open>to_frame\<close>.
  \<^item> \<open>Zmq_Subscriber\<close> (\<^verbatim>\<open>zmqacquireddatasubscriber.cpp\<close>): sums and status reports.
  \<^item> \<open>Acquire_To_Frame\<close>: the composition of the last two with \<open>zs1_acquire\<close>.
  \<^item> \<open>LZF\<close>, \<open>LZF_Roundtrip\<close>, \<open>Compressed_Spectra\<close> (\<^verbatim>\<open>UIMFWriter/src/lzf_c.c, lzf_d.c,
    encodedresult.cpp\<close>): the compression of a stored spectrum. \<open>LZF_Best\<close> (\<^verbatim>\<open>lzf_c_best.c\<close>):
    the compressor that looks for the longest match, which the program does not call.
  \<^item> \<open>UIMF_Writer\<close> (\<^verbatim>\<open>UIMFWriter.cpp, uimfframewritersubscriber.cpp\<close>): the transaction of a frame.
  \<^item> \<open>Pub_Sub\<close> (\<^verbatim>\<open>subscriber.h, publisher.h\<close>): queues and worker threads. A worker is a program counter;
    \<open>pub_step\<close> interleaves its steps with the publisher's, and \<open>pub_run\<close> is a schedule.
  \<^item> \<open>Acquire_Publisher\<close> (\<^verbatim>\<open>acquirepublisher.cpp\<close>): the acquisition thread, \<open>ap_start\<close>,
    \<open>ap_stop\<close>; the locale \<open>counted_context\<close> is what the thread needs of a context, and
    \<open>CstZs1Context\<close> has it.
  \<^item> \<open>Process_Subject\<close> (\<^verbatim>\<open>processsubject.cpp\<close>): who is handed which frame. \<open>Frame_Chain\<close>
    composes it with the acquisition thread.
  \<^item> \<open>Chain_Run\<close>: the threads of an acquisition together. The state \<open>chain\<close> has the records still to be
    published, the publisher of records, the subject as its subscriber and, as what the subject keeps, the
    publisher of frames with the summing subscriber and the file writer; \<open>chain_perform\<close> is a step of one
    thread, \<open>chain_run\<close> a schedule, in which \<^verbatim>\<open>stop(true)\<close> may come at any time. \<open>chain_inv\<close> says
    which schedules of the two publishers one of the chain amounts to. \<open>Frame_Archive\<close> draws from it what the
    file holds.
  \<^item> \<open>Data_Generator\<close> (\<^verbatim>\<open>diagnostic/datageneratorcontext.h\<close>): the context of a test build, a
    second interpretation of \<open>counted_context\<close>.
  \<^item> \<open>Wire\<close>, \<open>Messages\<close>, \<open>Messages_Roundtrip\<close> (\<^verbatim>\<open>message.pb.cpp\<close>): the parsers and
    serialisers of the three messages the program uses, over the locale \<open>wire_format\<close>.
  \<^item> \<open>Setup_Messages\<close>, \<open>Setup_Roundtrip\<close>: the other four, which set a digitizer up and which the
    console does not handle, over \<open>setup_format\<close>, which extends \<open>wire_format\<close> with doubles and
    messages inside a message. \<open>Message_Streams\<close>: the stream serialisers and the copy constructors.
  \<^item> \<open>Server\<close> (\<^verbatim>\<open>server.cpp\<close>): requests, replies and errors as frames; publishers by address.
  \<^item> \<open>Settings\<close> (\<^verbatim>\<open>util/config.h\<close> and the first half of \<^verbatim>\<open>aqmd3_console.cpp\<close>): the
    configuration file, its checks and the log level. \<open>Startup\<close>: what \<^verbatim>\<open>main\<close> does before it
    opens the card, and what it logs.
  \<^item> \<open>Console\<close>, \<open>Console_Service\<close>, \<open>Console_Session\<close> (the handler in
    \<^verbatim>\<open>aqmd3_console.cpp\<close>, \<^verbatim>\<open>util/uimfhelpers.h\<close>): every command of the protocol on the record
    \<open>console\<close> of what the handler captures, the replies, and the reachable states as an inductive
    relation of requests interleaved with the acquisition thread.
\<close>

text \<open>
  \<^bold>\<open>What the theorems show.\<close>

  \<^item> From the card to the topic: for a sound driver \<open>zs1_acquire\<close> returns exactly what the marker stream
    says; the encoding puts every sample of a gate at its bin; the published message is the bin-by-bin sum, and
    reading it back gives that sum.
  \<^item> From the card to the file: a frame's transaction holds one row for each written scan, whose blob
    decompresses to the scan's encoding; the records of a frame follow each other without gap or overlap, and
    every trigger of a frame reaches the queues of its subscribers once, in order and with its samples. Put
    together, for every schedule of the threads, once the file writer has ended the file has, in order, a row for
    each scan to be written of the first records, that decompresses to the samples of its trigger. These records are
    at least those published before \<^verbatim>\<open>stop(true)\<close> completed the publisher; what is published after that
    may be lost, which is one of the findings.
  \<^item> Round trips: what a compressor, a message's serialiser or the spectrum encoder writes is read back as it
    was.
  \<^item> Bounds: every fetch request is aligned and fits the buffer; the compressor is not left; nor is
    the statement buffer, for base peaks below \<open>10 ^ 63\<close>; the settings that the start checks, five of them, fit
    the types they are narrowed to. The other settings are in no check.
  \<^item> Threads: a subscriber keeps the order of what it was handed, ends only with everything handled that
    was published before the completion, and does end; the acquisition thread says what failed and then that it is finished.
  \<^item> The protocol: a known request is answered exactly once, unless it is one of those that take the console down, which
    \<open>request_lost\<close> lists; a handler that throws leaves no request unanswered and the server running; the
    parameters a client serialised are those its frame is started with; \<^verbatim>\<open>acquire\<close> builds a chain that
    fits what it replies; in every reachable state that chain is there as a whole or not at all.

  \<^bold>\<open>Bounds and fuel.\<close> Loops over data end by their measure. The loops of the streaming contexts consume one
  reply of the driver each time round, and without a reply left the outcome is \<open>Waiting\<close>, the call that has not
  returned; the theorems about termination and about results speak of the replies a call is given. The message
  parser has the length of its input plus one as fuel, and every round that goes on takes at least one octet.
  \<open>worker_fuel\<close> bounds the steps of a worker whose publisher has completed.

  \<^bold>\<open>What is a parameter.\<close> The AqMD3 and VISA drivers, ZeroMQ, SQLite, snappy, the SHA-256 hash, the protobuf
  library and \<open>printf\<close> of a \<open>double\<close> are not in the repository: they are arguments, with what is used of them
  in the hypotheses. \<open>fixed_text\<close> is how long the text of a \<open>double\<close> under \<^verbatim>\<open>%lf\<close> is, and
  \<open>six_decimals\<close> one that has it. \<open>varint_wire\<close> and \<open>setup_varint\<close> show that the laws of the two wire formats can be
  had. A \<open>double\<close> is the rational number it stands for, and the rounding of an operation is an argument; in
  the setup messages, which only carry it, it is its 64 bits. The answers of Windows at the start, and whether the
  logger could open its files, are arguments too, as is what the tables of \<^verbatim>\<open>lzf_c_best.c\<close> hold before they
  are set.

  \<^bold>\<open>What is not modelled.\<close> Log lines, but for those of the start. The older parser of
  \<^verbatim>\<open>message.pb.cpp\<close>, which is not built, and the descriptors and reflection of messages, which only the
  library calls. \<^verbatim>\<open>acquireddata.cpp\<close>, which is commented out. Data races: a step that the code does not
  lock is taken as one step, and the places where that is not so are recorded as findings beside this development.
\<close>

end
